(* ===== verification/Prelude.thy ===== *)
theory Prelude
  imports Complex_Main "HOL-Library.AList"
begin

text \<open>
  The vocabulary the component theories share: Python's exceptions as values, the sequencing of
  statements that may raise, \<open>for\<close> loops with \<open>continue\<close> and \<open>break\<close>, dictionaries in insertion
  order, truncation and division of floats, and the extended numbers that \<open>float('inf')\<close> needs.

  A Python float is modelled by an exact rational (type \<open>rat\<close>): every \<open>+\<close>, \<open>-\<close>, \<open>*\<close>, \<open>/\<close>
  and comparison of the sources is the exact operation, decimal literals are the rationals they
  denote, and binary rounding is not modelled.  Division by zero raises in Python, so every division
  whose divisor the code does not keep away from zero goes through \<open>fdiv\<close>.  Infinities occur in the
  sources only as initial bounds and as ratios, and get the type \<open>ext\<close>.
\<close>

section \<open>Exceptions as values\<close>

datatype py_error =
    KeyError
  | IndexError
  | ZeroDivisionError
  | ValueError
  | TypeError
  | AttributeError
  | AssertionError
  | PyException string

type_synonym 'a res = "py_error + 'a"

definition rbind :: "'a res \<Rightarrow> ('a \<Rightarrow> 'b res) \<Rightarrow> 'b res" where
  "rbind m f = (case m of Inl e \<Rightarrow> Inl e | Inr x \<Rightarrow> f x)"

lemma rbind_Inl [simp]: "rbind (Inl e) f = Inl e"
  by (simp add: rbind_def)

lemma rbind_Inr [simp]: "rbind (Inr x) f = f x"
  by (simp add: rbind_def)

lemma rbind_eq_Inr: "rbind m f = Inr y \<longleftrightarrow> (\<exists>x. m = Inr x \<and> f x = Inr y)"
  by (cases m) auto

lemma rbind_eq_InrE:
  assumes "rbind m f = Inr y"
  obtains x where "m = Inr x" and "f x = Inr y"
  using assms by (auto simp: rbind_eq_Inr)

lemma rbind_assoc: "rbind (rbind m f) g = rbind m (\<lambda>x. rbind (f x) g)"
  by (cases m) auto

lemma rbind_cong [fundef_cong]:
  assumes "m = m'" and "\<And>x. m' = Inr x \<Longrightarrow> f x = f' x"
  shows "rbind m f = rbind m' f'"
  using assms by (cases m') auto

text \<open>\<open>returns m\<close>: the statement finishes without raising.  The collection \<open>returns_intros\<close> decomposes
  a sequence of statements into its divisions, subscripts and calls.\<close>

definition returns :: "'a res \<Rightarrow> bool" where
  "returns m \<longleftrightarrow> (\<exists>x. m = Inr x)"

named_theorems returns_intros

lemma returns_Inr [simp, returns_intros]: "returns (Inr x)"
  by (simp add: returns_def)

lemma returns_Inl [simp]: "\<not> returns (Inl e)"
  by (simp add: returns_def)

lemma returns_rbind [returns_intros]:
  "returns m \<Longrightarrow> (\<And>x. m = Inr x \<Longrightarrow> returns (f x)) \<Longrightarrow> returns (rbind m f)"
  by (auto simp: returns_def)

lemma returns_if [returns_intros]:
  "(c \<Longrightarrow> returns a) \<Longrightarrow> (\<not> c \<Longrightarrow> returns b) \<Longrightarrow> returns (if c then a else b)"
  by simp

lemma returns_case_prod [returns_intros]:
  "(\<And>a b. p = (a, b) \<Longrightarrow> returns (f a b)) \<Longrightarrow> returns (case p of (a, b) \<Rightarrow> f a b)"
  by (cases p) simp

lemma returns_case_option [returns_intros]:
  "(m = None \<Longrightarrow> returns a) \<Longrightarrow> (\<And>x. m = Some x \<Longrightarrow> returns (f x)) \<Longrightarrow>
   returns (case m of None \<Rightarrow> a | Some x \<Rightarrow> f x)"
  by (cases m) simp_all

lemma returns_Let [returns_intros]: "returns (f a) \<Longrightarrow> returns (let x = a in f x)"
  by simp

lemma returnsD: "returns m \<Longrightarrow> \<exists>x. m = Inr x"
  by (simp add: returns_def)

section \<open>Loops that may raise\<close>

text \<open>\<open>rfold\<close> is a \<open>for\<close> loop whose body may raise; \<open>rloop\<close> is one whose body may also leave the
  loop with \<open>break\<close>.  A \<open>continue\<close> is a body that returns its state.\<close>

primrec rfold :: "('a \<Rightarrow> 's \<Rightarrow> 's res) \<Rightarrow> 'a list \<Rightarrow> 's \<Rightarrow> 's res" where
  "rfold body [] s = Inr s"
| "rfold body (x # xs) s = rbind (body x s) (\<lambda>s'. rfold body xs s')"

datatype 's ctl = Next 's | Break 's

primrec rloop :: "('a \<Rightarrow> 's \<Rightarrow> 's ctl res) \<Rightarrow> 'a list \<Rightarrow> 's \<Rightarrow> 's res" where
  "rloop body [] s = Inr s"
| "rloop body (x # xs) s =
     rbind (body x s) (\<lambda>c. case c of Next s' \<Rightarrow> rloop body xs s' | Break s' \<Rightarrow> Inr s')"

lemma rfold_append: "rfold body (xs @ ys) s = rbind (rfold body xs s) (rfold body ys)"
  by (induction xs arbitrary: s) (auto simp: rbind_assoc)

lemma rfold_cong [fundef_cong]:
  assumes "xs = ys" and "s = t" and "\<And>x u. x \<in> set ys \<Longrightarrow> f x u = g x u"
  shows "rfold f xs s = rfold g ys t"
  using assms
proof (induction ys arbitrary: xs s t)
  case (Cons y ys)
  then show ?case by (auto intro!: rbind_cong)
qed simp

lemma rfold_invariant:
  assumes "rfold body xs s = Inr t" and "P s"
    and "\<And>x u u'. x \<in> set xs \<Longrightarrow> P u \<Longrightarrow> body x u = Inr u' \<Longrightarrow> P u'"
  shows "P t"
  using assms
proof (induction xs arbitrary: s)
  case (Cons x xs)
  from Cons.prems(1) obtain u where "body x s = Inr u" "rfold body xs u = Inr t"
    by (auto elim: rbind_eq_InrE)
  with Cons show ?case by (metis list.set_intros)
qed simp

lemma rfold_total:
  assumes "P s"
    and "\<And>x u. x \<in> set xs \<Longrightarrow> P u \<Longrightarrow> \<exists>u'. body x u = Inr u' \<and> P u'"
  shows "\<exists>t. rfold body xs s = Inr t \<and> P t"
  using assms
proof (induction xs arbitrary: s)
  case (Cons x xs)
  then obtain u where "body x s = Inr u" "P u" by fastforce
  with Cons show ?case by simp
qed simp

fun ctl_state :: "'s ctl \<Rightarrow> 's" where
  "ctl_state (Next s) = s"
| "ctl_state (Break s) = s"

lemma rloop_ConsE:
  assumes "rloop body (x # xs) s = Inr t"
  obtains (continues) u where "body x s = Inr (Next u)" and "rloop body xs u = Inr t"
  | (breaks) "body x s = Inr (Break t)"
  using assms by (auto elim!: rbind_eq_InrE split: ctl.splits)

lemma rloop_invariant:
  assumes "rloop body xs s = Inr t" and "P s"
    and step: "\<And>x u r. x \<in> set xs \<Longrightarrow> P u \<Longrightarrow> body x u = Inr r \<Longrightarrow> P (ctl_state r)"
  shows "P t"
  using assms
proof (induction xs arbitrary: s)
  case (Cons x xs)
  from Cons.prems(1) show ?case
  proof (cases rule: rloop_ConsE)
    case (continues u)
    have "P u" using Cons.prems(3) [of x s "Next u"] Cons.prems(2) continues(1) by simp
    with continues(2) show ?thesis
      by (rule Cons.IH) (use Cons.prems(3) in \<open>auto intro: list.set_intros\<close>)
  next
    case breaks
    then show ?thesis using Cons.prems(3) [of x s "Break t"] Cons.prems(2) by simp
  qed
qed simp

lemma returns_rfold [returns_intros]:
  assumes "\<And>x u. x \<in> set xs \<Longrightarrow> returns (body x u)"
  shows "returns (rfold body xs s)"
  using rfold_total [of "\<lambda>_. True" s xs body] assms by (auto simp: returns_def)

lemma returns_rloop [returns_intros]:
  assumes "\<And>x u. x \<in> set xs \<Longrightarrow> returns (body x u)"
  shows "returns (rloop body xs s)"
  using assms
proof (induction xs arbitrary: s)
  case (Cons x xs)
  then have "returns (rloop body xs t)" "returns (body x s)" for t by simp_all
  then show ?case by (auto intro!: returns_rbind split: ctl.split)
qed simp

section \<open>Numbers\<close>

text \<open>\<open>int(x)\<close> of a float truncates towards zero.\<close>

definition py_int :: "rat \<Rightarrow> int" where
  "py_int x = (if 0 \<le> x then \<lfloor>x\<rfloor> else \<lceil>x\<rceil>)"

lemma py_int_of_int [simp]: "py_int (of_int n) = n"
  by (simp add: py_int_def)

lemma py_int_numeral [simp]: "py_int (numeral n) = numeral n" "py_int 0 = 0" "py_int 1 = 1"
  by (simp_all add: py_int_def)

lemma py_int_nonneg [simp]: "0 \<le> x \<Longrightarrow> 0 \<le> py_int x"
  by (simp add: py_int_def)

lemma py_int_le: "0 \<le> x \<Longrightarrow> of_int (py_int x) \<le> x"
  by (simp add: py_int_def)

lemma py_int_gt: "0 \<le> x \<Longrightarrow> x < of_int (py_int x) + 1"
  by (simp add: py_int_def) linarith

lemma py_int_mono: "x \<le> y \<Longrightarrow> py_int x \<le> py_int y"
proof (cases "0 \<le> x \<or> y < 0")
  case True
  then show "x \<le> y \<Longrightarrow> ?thesis" by (auto simp: py_int_def floor_mono ceiling_mono)
next
  case False
  then have "\<lceil>x\<rceil> \<le> 0" "0 \<le> \<lfloor>y\<rfloor>" by (simp_all add: ceiling_le_zero)
  then have "\<lceil>x\<rceil> \<le> \<lfloor>y\<rfloor>" by (rule order_trans)
  then show "x \<le> y \<Longrightarrow> ?thesis" using False by (simp add: py_int_def)
qed

lemma py_int_mult_le: "0 < e \<Longrightarrow> 0 \<le> x \<Longrightarrow> of_int (py_int (x / e)) * e \<le> x"
  using py_int_le [of "x / e"] by (simp add: field_simps)

definition fdiv :: "rat \<Rightarrow> rat \<Rightarrow> rat res" where
  "fdiv a b = (if b = 0 then Inl ZeroDivisionError else Inr (a / b))"

lemma fdiv_zero [simp]: "fdiv a 0 = Inl ZeroDivisionError"
  by (simp add: fdiv_def)

lemma fdiv_nonzero [simp]: "b \<noteq> 0 \<Longrightarrow> fdiv a b = Inr (a / b)"
  by (simp add: fdiv_def)

lemma fdiv_eq_Inr: "fdiv a b = Inr c \<longleftrightarrow> b \<noteq> 0 \<and> c = a / b"
  by (auto simp: fdiv_def)

lemma returns_fdiv [returns_intros]: "b \<noteq> 0 \<Longrightarrow> returns (fdiv a b)"
  by simp

text \<open>Numbers with \<open>float('inf')\<close> and \<open>-float('inf')\<close>.\<close>

datatype ext = NegInf | Fin rat | PosInf

instantiation ext :: linorder
begin

fun less_eq_ext :: "ext \<Rightarrow> ext \<Rightarrow> bool" where
  "less_eq_ext NegInf _ = True"
| "less_eq_ext (Fin a) NegInf = False"
| "less_eq_ext (Fin a) (Fin b) = (a \<le> b)"
| "less_eq_ext (Fin a) PosInf = True"
| "less_eq_ext PosInf PosInf = True"
| "less_eq_ext PosInf _ = False"

definition less_ext :: "ext \<Rightarrow> ext \<Rightarrow> bool" where
  "less_ext a b = (a \<le> b \<and> \<not> b \<le> a)"

instance
proof
  fix x y z :: ext
  show "x < y \<longleftrightarrow> x \<le> y \<and> \<not> y \<le> x" by (simp add: less_ext_def)
  show "x \<le> x" by (cases x) auto
  show "x \<le> y \<Longrightarrow> y \<le> z \<Longrightarrow> x \<le> z" by (cases x; cases y; cases z) auto
  show "x \<le> y \<Longrightarrow> y \<le> x \<Longrightarrow> x = y" by (cases x; cases y) auto
  show "x \<le> y \<or> y \<le> x" by (cases x; cases y) auto
qed

end

lemma less_ext_simps [simp]:
  "Fin a < Fin b \<longleftrightarrow> a < b"
  "Fin a < PosInf" "NegInf < Fin a" "NegInf < PosInf"
  "\<not> x < NegInf" "\<not> PosInf < x"
  by (auto simp: less_ext_def) (cases x; simp)+

text \<open>\<open>x + r\<close> and \<open>min(x, r)\<close> where \<open>x\<close> may be infinite and \<open>r\<close> is a float.\<close>

fun ext_add :: "ext \<Rightarrow> rat \<Rightarrow> ext" where
  "ext_add (Fin a) r = Fin (a + r)"
| "ext_add x r = x"

fun ext_min :: "ext \<Rightarrow> rat \<Rightarrow> ext" where
  "ext_min x r = min x (Fin r)"

section \<open>Dictionaries\<close>

text \<open>A dictionary is an association list in insertion order.  Storing under a present key keeps its
  place, storing under a new key appends: this is \<open>AList.update\<close>.  Subscripting a missing key
  raises.\<close>

type_synonym ('k, 'v) dict = "('k \<times> 'v) list"

abbreviation keys :: "('k, 'v) dict \<Rightarrow> 'k list" where
  "keys d \<equiv> map fst d"

abbreviation wf_dict :: "('k, 'v) dict \<Rightarrow> bool" where
  "wf_dict d \<equiv> distinct (keys d)"

abbreviation dict_set :: "'k \<Rightarrow> 'v \<Rightarrow> ('k, 'v) dict \<Rightarrow> ('k, 'v) dict" where
  "dict_set \<equiv> AList.update"

definition has_key :: "('k, 'v) dict \<Rightarrow> 'k \<Rightarrow> bool" where
  "has_key d k = (map_of d k \<noteq> None)"

definition dict_get :: "('k, 'v) dict \<Rightarrow> 'k \<Rightarrow> 'v res" where
  "dict_get d k = (case map_of d k of None \<Rightarrow> Inl KeyError | Some v \<Rightarrow> Inr v)"

text \<open>\<open>d.update(e)\<close>\<close>

definition dict_update :: "('k, 'v) dict \<Rightarrow> ('k, 'v) dict \<Rightarrow> ('k, 'v) dict" where
  "dict_update d e = fold (\<lambda>(k, v) d. dict_set k v d) e d"

lemma map_of_dict_set [simp]: "map_of (dict_set k v d) = (map_of d)(k \<mapsto> v)"
  by (simp add: update_conv')

lemma has_key_dict_set [simp]: "has_key (dict_set k v d) k' \<longleftrightarrow> k' = k \<or> has_key d k'"
  by (simp add: has_key_def)

lemma dict_get_eq_Inr [simp]: "dict_get d k = Inr v \<longleftrightarrow> map_of d k = Some v"
  by (simp add: dict_get_def split: option.split)

lemma dict_get_Some: "map_of d k = Some v \<Longrightarrow> dict_get d k = Inr v"
  by simp

lemma dict_get_None: "map_of d k = None \<Longrightarrow> dict_get d k = Inl KeyError"
  by (simp add: dict_get_def)

lemma returns_dict_get [returns_intros]: "map_of d k \<noteq> None \<Longrightarrow> returns (dict_get d k)"
  by (auto simp: dict_get_def)

lemma has_key_iff: "has_key d k \<longleftrightarrow> k \<in> set (keys d)"
  by (auto simp: has_key_def map_of_eq_None_iff)

lemma wf_dict_set [simp]: "wf_dict d \<Longrightarrow> wf_dict (dict_set k v d)"
  by (simp add: distinct_update)

lemma keys_dict_set: "keys (dict_set k v d) = (if has_key d k then keys d else keys d @ [k])"
  by (auto simp: update_keys has_key_iff)

lemma set_keys_dict_set [simp]: "set (keys (dict_set k v d)) = insert k (set (keys d))"
  by (simp add: dom_update)

lemma dict_update_Nil [simp]: "dict_update d [] = d"
  by (simp add: dict_update_def)

lemma dict_update_Cons [simp]: "dict_update d ((k, v) # e) = dict_update (dict_set k v d) e"
  by (simp add: dict_update_def)

lemma map_of_dict_update: "wf_dict e \<Longrightarrow> map_of (dict_update d e) = map_of d ++ map_of e"
proof (induction e arbitrary: d)
  case (Cons p e)
  obtain k v where [simp]: "p = (k, v)" by force
  from Cons.prems have "map_of e k = None" by (simp add: map_of_eq_None_iff)
  with Cons show ?case by (auto simp: fun_eq_iff map_add_def split: option.split)
qed simp

lemma dict_set_new: "k \<notin> set (keys d) \<Longrightarrow> dict_set k v d = d @ [(k, v)]"
  by (induction d) auto

lemma wf_dict_update [simp]: "wf_dict d \<Longrightarrow> wf_dict (dict_update d e)"
  by (induction e arbitrary: d) auto

lemma set_keys_dict_update [simp]:
  "set (keys (dict_update d e)) = set (keys d) \<union> set (keys e)"
  by (induction e arbitrary: d) (auto simp only: dict_update_Cons set_keys_dict_set list.map set_simps
      fst_conv dict_update_Nil split_paired_all)

section \<open>Sums\<close>

lemma sum_list_divide: "(\<Sum>x\<leftarrow>xs. f x / c) = sum_list (map f xs) / c" for c :: "'a::field"
  by (induction xs) (auto simp: add_divide_distrib)

lemma of_int_sum_list: "of_int (sum_list xs) = sum_list (map of_int xs)"
  by (induction xs) auto

end
