(* ===== verification/Ptas.thy ===== *)
theory Ptas
  imports Prelude
begin

text \<open>
  \<open>src/res_allocation/allocators/ptas_algorithm.py\<close>: the per-user search of the Symbiosis algorithm.
  Given a budget and a price for each resource, \<open>ptas_algorithm\<close> walks a grid of cache shares, buys
  the bandwidth the rest of the budget pays for, asks the estimator for the utility of each point and
  keeps the best.  Shares are normalised: \<open>1\<close> is the whole VM.

  The estimator is a parameter \<open>est\<close> (its \<open>get_estimation\<close>, which may raise); the theory
  \<open>Estimator\<close> supplies the program's own.  Log messages and the keyword parameters that the function
  never reads (\<open>num_user\<close>, \<open>noise_mean\<close>, \<open>noise_std_dev\<close>, \<open>guide_factor\<close>, \<open>max_ubound\<close>, \<open>explore_adv\<close>,
  \<open>explore_adv_ratio\<close>, \<open>explore_adv_intense_ratio\<close>, \<open>allocation_update_clip\<close>) are left out; those that
  it reads and no caller sets (\<open>margin_in_budget\<close>, \<open>reallocation_threshold\<close>,
  \<open>prefer_last_allocation\<close>, \<open>clip_to_min_max\<close>) have their default values.
\<close>

section \<open>Data\<close>

record price =
  p_cache :: rat
  p_mem_bw :: rat

text \<open>A price vector is the current price and, for the binary search of \<open>SpiritAllocator.allocate\<close>,
  the two ends \<open>left\<close> and \<open>right\<close> of the interval.\<close>

record price_vector = price +
  ends :: "(price \<times> price) option"

text \<open>A user's entry of an allocation dictionary; \<open>SpiritAllocator.allocate\<close> adds the price.\<close>

record alloc =
  cache :: rat
  mem_bw :: rat
  price_tag :: "price_vector option"

abbreviation mk_alloc :: "rat \<Rightarrow> rat \<Rightarrow> alloc" where
  "mk_alloc c b \<equiv> \<lparr>cache = c, mem_bw = b, price_tag = None\<rparr>"

type_synonym allocs = "(int, alloc) dict"
type_synonym estimation = "int \<Rightarrow> rat \<Rightarrow> rat \<Rightarrow> rat res"

record resource_limited =
  cache_min_limit :: bool
  cache_max_limit :: bool
  mem_bw_min_limit :: bool
  mem_bw_max_limit :: bool

text \<open>The dictionary \<open>resource_scale\<close>: the totals, and limits that may be missing.\<close>

record resource_scale =
  rs_cache :: rat
  rs_mem_bw :: rat
  rs_min_cache :: "rat option"
  rs_max_cache :: "rat option"
  rs_min_mem_bw :: "rat option"
  rs_max_mem_bw :: "rat option"

text \<open>The same dictionary once \<open>ptas_algorithm\<close> has stored the missing limits: 0 below, \<open>float('inf')\<close>
  above.\<close>

datatype ubound = Bounded rat | Unbounded

record scale =
  s_cache :: rat
  s_mem_bw :: rat
  min_cache :: rat
  max_cache :: ubound
  min_mem_bw :: rat
  max_mem_bw :: ubound

fun exceeds :: "rat \<Rightarrow> ubound \<Rightarrow> bool" where
  "exceeds x (Bounded m) = (x > m)"
| "exceeds x Unbounded = False"

fun ub_add :: "ubound \<Rightarrow> rat \<Rightarrow> ubound" where
  "ub_add (Bounded m) r = Bounded (m + r)"
| "ub_add Unbounded r = Unbounded"

fun ub_min :: "ubound \<Rightarrow> rat \<Rightarrow> rat" where
  "ub_min (Bounded m) x = min m x"
| "ub_min Unbounded x = x"

definition ub_of :: "rat option \<Rightarrow> ubound" where
  "ub_of m = (case m of None \<Rightarrow> Unbounded | Some x \<Rightarrow> Bounded x)"

definition lb_of :: "rat option \<Rightarrow> rat" where
  "lb_of m = (case m of None \<Rightarrow> 0 | Some x \<Rightarrow> x)"

definition fill_scale :: "resource_scale \<Rightarrow> scale" where
  "fill_scale rs =
     \<lparr>s_cache = rs_cache rs, s_mem_bw = rs_mem_bw rs,
      min_cache = lb_of (rs_min_cache rs), max_cache = ub_of (rs_max_cache rs),
      min_mem_bw = lb_of (rs_min_mem_bw rs), max_mem_bw = ub_of (rs_max_mem_bw rs)\<rparr>"

section \<open>ResourceLimited\<close>

definition not_limited :: resource_limited where
  "not_limited =
     \<lparr>cache_min_limit = False, cache_max_limit = False,
      mem_bw_min_limit = False, mem_bw_max_limit = False\<rparr>"

definition update_limited :: "resource_limited \<Rightarrow> resource_limited \<Rightarrow> resource_limited" where
  "update_limited self other =
     \<lparr>cache_min_limit = cache_min_limit self \<or> cache_min_limit other,
      cache_max_limit = cache_max_limit self \<or> cache_max_limit other,
      mem_bw_min_limit = mem_bw_min_limit self \<or> mem_bw_min_limit other,
      mem_bw_max_limit = mem_bw_max_limit self \<or> mem_bw_max_limit other\<rparr>"

definition is_resource_limited :: "resource_limited \<Rightarrow> bool" where
  "is_resource_limited r \<longleftrightarrow>
     cache_min_limit r \<or> cache_max_limit r \<or> mem_bw_min_limit r \<or> mem_bw_max_limit r"

section \<open>Limits\<close>

text \<open>The flag \<open>better\<close> is the argument \<open>max_util\<close>; \<open>limited\<close> is the tracking object, if one is
  passed, and the second result is that object after the call.\<close>

definition check_resource_limits ::
  "rat \<Rightarrow> rat \<Rightarrow> scale \<Rightarrow> bool \<Rightarrow> resource_limited option \<Rightarrow> rat \<times> rat \<Rightarrow>
   bool \<times> resource_limited option" where
  "check_resource_limits cache_alloc mem_bw_alloc sc better limited margin =
    (let cache_actual = cache_alloc * s_cache sc;
         mem_bw_actual = mem_bw_alloc * s_mem_bw sc;
         cache_margin = fst margin * s_cache sc;
         mem_bw_margin = snd margin * s_mem_bw sc;
         min_cache_with_margin = min_cache sc - cache_margin;
         max_cache_with_margin = ub_add (max_cache sc) cache_margin;
         min_mem_bw_with_margin = min_mem_bw sc - mem_bw_margin;
         max_mem_bw_with_margin = ub_add (max_mem_bw sc) mem_bw_margin
     in if cache_actual < min_cache_with_margin \<or> exceeds cache_actual max_cache_with_margin
        then (False,
              if better
              then map_option (\<lambda>l. update_limited l (not_limited
                     \<lparr>cache_min_limit := cache_actual < min_cache_with_margin,
                      cache_max_limit := exceeds cache_actual max_cache_with_margin\<rparr>)) limited
              else limited)
        else if mem_bw_actual < min_mem_bw_with_margin \<or> exceeds mem_bw_actual max_mem_bw_with_margin
        then (False,
              if better
              then map_option (\<lambda>l. update_limited l (not_limited
                     \<lparr>mem_bw_min_limit := mem_bw_actual < min_mem_bw_with_margin,
                      mem_bw_max_limit := exceeds mem_bw_actual max_mem_bw_with_margin\<rparr>)) limited
              else limited)
        else (True, limited))"

definition clip_allocation :: "rat \<Rightarrow> rat \<Rightarrow> scale \<Rightarrow> (rat \<times> rat) res" where
  "clip_allocation cache_alloc mem_bw_alloc sc =
    (let cache_actual = cache_alloc * s_cache sc;
         mem_bw_actual = mem_bw_alloc * s_mem_bw sc;
         c = ub_min (max_cache sc) cache_actual;
         b = ub_min (max_mem_bw sc) mem_bw_actual
     in rbind (fdiv c (s_cache sc)) (\<lambda>c'.
        rbind (fdiv b (s_mem_bw sc)) (\<lambda>b'. Inr (c', b'))))"

section \<open>The last allocation\<close>

text \<open>The bandwidth, in whole chunks of \<open>epsilon\<close> and at least one, that the budget leaves after
  paying for \<open>c\<close> cache.\<close>

definition affordable_mem_bw :: "rat \<Rightarrow> rat \<Rightarrow> rat \<Rightarrow> price_vector \<Rightarrow> rat res" where
  "affordable_mem_bw c budget epsilon pv =
     rbind (fdiv ((budget - c * p_cache pv) / max (1 / 1000000) (p_mem_bw pv)) epsilon) (\<lambda>q.
     rbind (fdiv 1 epsilon) (\<lambda>n.
     Inr (max 1 (min (of_int (py_int n)) (of_int (py_int q))) * epsilon)))"

text \<open>The allocation tried when the budget does not pay for the last cache share: scaled down at the
  same ratio, or pinned to a minimum, then rounded to the grid.\<close>

definition scaled_allocation :: "alloc \<Rightarrow> rat \<Rightarrow> rat \<Rightarrow> price_vector \<Rightarrow> scale \<Rightarrow> (rat \<times> rat) res" where
  "scaled_allocation last_alloc budget epsilon pv sc =
     rbind (fdiv (cache last_alloc) (mem_bw last_alloc)) (\<lambda>cache_bw_ratio.
     rbind (fdiv (min_cache sc) (s_cache sc)) (\<lambda>min_cache_norm.
     rbind (fdiv (min_mem_bw sc) (s_mem_bw sc)) (\<lambda>min_mem_bw_norm.
     let min_cache_alloc = max epsilon min_cache_norm in
     rbind (fdiv min_cache_alloc cache_bw_ratio) (\<lambda>corresponding_mem_bw.
     let min_mem_bw_alloc = max epsilon min_mem_bw_norm;
         corresponding_cache = min_mem_bw_alloc * cache_bw_ratio;
         option1_cost = min_cache_alloc * p_cache pv + corresponding_mem_bw * p_mem_bw pv;
         option2_cost = corresponding_cache * p_cache pv + min_mem_bw_alloc * p_mem_bw pv
     in
     rbind
       (if option1_cost > budget \<and> option2_cost > budget then
          (if option1_cost \<le> option2_cost then
             rbind (fdiv (budget - min_cache_alloc * p_cache pv) (p_mem_bw pv)) (\<lambda>b.
             Inr (min_cache_alloc, b))
           else
             rbind (fdiv (budget - min_mem_bw_alloc * p_mem_bw pv) (p_cache pv)) (\<lambda>c.
             Inr (c, min_mem_bw_alloc)))
        else
          rbind (fdiv (p_mem_bw pv) cache_bw_ratio) (\<lambda>r.
          rbind (fdiv budget (p_cache pv + r)) (\<lambda>c.
          rbind (fdiv c cache_bw_ratio) (\<lambda>b.
          if c < min_cache_norm then
            rbind (fdiv (budget - min_cache_norm * p_cache pv) (p_mem_bw pv)) (\<lambda>b'.
            Inr (min_cache_norm, b'))
          else if b < min_mem_bw_norm then
            rbind (fdiv (budget - min_mem_bw_norm * p_mem_bw pv) (p_cache pv)) (\<lambda>c'.
            Inr (c', min_mem_bw_norm))
          else Inr (c, b)))))
       (\<lambda>(c, b).
     rbind (fdiv c epsilon) (\<lambda>nc.
     rbind (fdiv b epsilon) (\<lambda>nb.
     Inr (max epsilon (of_int (py_int nc) * epsilon), max epsilon (of_int (py_int nb) * epsilon)))))))))"

text \<open>\<open>Inr (None, u)\<close> keeps the candidate the caller has; \<open>Inr (Some a, u)\<close> replaces it.\<close>

definition check_last_allocation ::
  "int \<Rightarrow> allocs option \<Rightarrow> rat \<Rightarrow> rat \<Rightarrow> price_vector \<Rightarrow> scale \<Rightarrow> estimation \<Rightarrow> rat \<Rightarrow>
   (alloc option \<times> rat) res" where
  "check_last_allocation user_id last_allocation budget epsilon pv sc est max_util =
    (case Option.bind last_allocation (\<lambda>d. map_of d user_id) of
       None \<Rightarrow> Inr (None, max_util)
     | Some last_alloc \<Rightarrow>
         rbind
           (if budget - cache last_alloc * p_cache pv > 0 then
              rbind (affordable_mem_bw (cache last_alloc) budget epsilon pv) (\<lambda>b.
              rbind (fdiv (ub_min (max_mem_bw sc) (b * s_mem_bw sc)) (s_mem_bw sc)) (\<lambda>b'.
              Inr (cache last_alloc, b')))
            else scaled_allocation last_alloc budget epsilon pv sc)
           (\<lambda>(c, b).
         if fst (check_resource_limits c b sc False None (0, 0)) then
           rbind (est user_id (c * s_cache sc) (b * s_mem_bw sc)) (\<lambda>last_util.
           if last_util > max_util then Inr (Some (mk_alloc c b), last_util)
           else Inr (None, max_util))
         else Inr (None, max_util)))"

section \<open>The search\<close>

definition margin_in_budget :: rat where
  "margin_in_budget = 97 / 100"

definition reallocation_threshold :: rat where
  "reallocation_threshold = 1005 / 1000"

type_synonym search_range = "(rat \<times> rat) \<times> (rat \<times> rat)"

text \<open>The candidate made from the static allocation, before the search, and its discounted utility.\<close>

definition clamp_to_range :: "search_range \<Rightarrow> rat \<Rightarrow> rat" where
  "clamp_to_range rng c =
     (if c < fst (fst rng) then fst (fst rng) else if c > snd (fst rng) then snd (fst rng) else c)"

definition static_candidate ::
  "alloc \<Rightarrow> rat \<Rightarrow> rat \<Rightarrow> price_vector \<Rightarrow> scale \<Rightarrow> search_range \<Rightarrow> alloc res" where
  "static_candidate static_alloc budget epsilon pv sc rng =
    (let c = clamp_to_range rng (cache static_alloc)
     in rbind (affordable_mem_bw c budget epsilon pv) (\<lambda>b.
        if exceeds (b * s_mem_bw sc) (max_mem_bw sc) \<or> min_mem_bw sc > b * s_mem_bw sc then
          rbind (fdiv (ub_min (max_mem_bw sc) (max (min_mem_bw sc) (b * s_mem_bw sc))) (s_mem_bw sc)) (\<lambda>q.
          let b' = of_int (py_int q) in
          rbind (fdiv (budget - b' * p_mem_bw pv) (p_cache pv)) (\<lambda>r.
          let c' = of_int (py_int r) in
          if exceeds (c' * s_cache sc) (max_cache sc) \<or> min_cache sc > c' * s_cache sc
          then Inr static_alloc
          else Inr (static_alloc\<lparr>cache := c', mem_bw := b'\<rparr>)))
        else Inr (static_alloc\<lparr>cache := c, mem_bw := b\<rparr>)))"

definition static_start ::
  "estimation \<Rightarrow> int \<Rightarrow> allocs option \<Rightarrow> rat \<Rightarrow> rat \<Rightarrow> price_vector \<Rightarrow> scale \<Rightarrow> search_range \<Rightarrow>
   (alloc option \<times> rat) res" where
  "static_start est user_id last_static_allocation budget epsilon pv sc rng =
    (case Option.bind last_static_allocation (\<lambda>d. map_of d user_id) of
       None \<Rightarrow> Inr (None, 0)
     | Some static_alloc \<Rightarrow>
         rbind (static_candidate static_alloc budget epsilon pv sc rng) (\<lambda>best.
         rbind (est user_id (cache best * s_cache sc) (mem_bw best * s_mem_bw sc)) (\<lambda>u.
         Inr (Some best, u / reallocation_threshold))))"

text \<open>What the loop over the grid reads.\<close>

record ptas_ctx =
  x_est :: estimation
  x_user :: int
  x_epsilon :: rat
  x_budget :: rat
  x_price :: price_vector
  x_last :: "allocs option"
  x_scale :: scale
  x_range :: search_range

text \<open>What it updates.  \<open>closest\<close> holds \<open>closest_to_last\<close>, \<open>closest_to_last_util\<close> and \<open>gap_to_last\<close>,
  which the code sets together; \<open>None\<close> is their initial state, where the gap is infinite.\<close>

record grid_state =
  max_util :: rat
  best_alloc :: "alloc option"
  limited :: resource_limited
  checked_point :: nat
  closest :: "(alloc \<times> rat \<times> rat) option"

text \<open>The point of the grid at cache chunk \<open>k\<close>: its bandwidth in chunks.\<close>

definition grid_mem_bw :: "ptas_ctx \<Rightarrow> int \<Rightarrow> int" where
  "grid_mem_bw x k =
    (let e = x_epsilon x; fair_share = x_budget x in
     if \<bar>fair_share - of_int k * e\<bar> < 1 / 1000000 then py_int (fair_share / e)
     else min (py_int (1 / e))
            (py_int ((x_budget x - of_int k * e * p_cache (x_price x)) /
                      max (1 / 1000000) (p_mem_bw (x_price x)) / e)))"

definition total_cost :: "price_vector \<Rightarrow> rat \<Rightarrow> rat \<Rightarrow> rat" where
  "total_cost pv c b = c * p_cache pv + b * p_mem_bw pv"

text \<open>\<open>if last_allocation and ... cache_alloc < last_allocation[user_id]["cache"]\<close>: an empty dictionary is
  false, a missing user raises.\<close>

definition discounted_util :: "ptas_ctx \<Rightarrow> rat \<Rightarrow> rat \<Rightarrow> rat res" where
  "discounted_util x c u =
    (case x_last x of
       None \<Rightarrow> Inr u
     | Some d \<Rightarrow>
         if d = [] then Inr u
         else rbind (dict_get d (x_user x)) (\<lambda>a.
              Inr (if c < cache a then u / reallocation_threshold else u)))"

definition track_closest :: "ptas_ctx \<Rightarrow> rat \<Rightarrow> rat \<Rightarrow> rat \<Rightarrow> grid_state \<Rightarrow> grid_state" where
  "track_closest x c b u s =
    (case Option.bind (x_last x) (\<lambda>d. map_of d (x_user x)) of
       None \<Rightarrow> s
     | Some a \<Rightarrow>
         (let distance = (c - cache a)\<^sup>2 + (b - mem_bw a)\<^sup>2 in
          if (case closest s of None \<Rightarrow> True | Some (_, _, gap) \<Rightarrow> distance < gap)
          then s\<lparr>closest := Some (mk_alloc c b, u, distance)\<rparr>
          else s))"

text \<open>A point that passed the budget check, with its estimated utility.\<close>

definition consider_point :: "ptas_ctx \<Rightarrow> rat \<Rightarrow> rat \<Rightarrow> rat \<Rightarrow> grid_state \<Rightarrow> grid_state ctl" where
  "consider_point x c b u s =
    (case check_resource_limits c b (x_scale x) (u > max_util s) (Some (limited s)) (0, 0) of
       (False, l) \<Rightarrow> Next (s\<lparr>limited := (case l of None \<Rightarrow> limited s | Some l' \<Rightarrow> l')\<rparr>)
     | (True, _) \<Rightarrow>
         (let s' = track_closest x c b u s in
          if u > max_util s' then
            (let s'' = s'\<lparr>max_util := u, best_alloc := Some (mk_alloc c b)\<rparr> in
             if is_resource_limited (limited s'') then Break s'' else Next s'')
          else Next s'))"

definition grid_step :: "ptas_ctx \<Rightarrow> int \<Rightarrow> grid_state \<Rightarrow> grid_state ctl res" where
  "grid_step x k s =
    (let e = x_epsilon x; pv = x_price x; sc = x_scale x in
     if e * of_int k < fst (fst (x_range x)) \<or> e * of_int k > snd (fst (x_range x))
     then Inr (Next s)
     else
       let s' = s\<lparr>checked_point := checked_point s + 1\<rparr> in
       if of_int k * e * p_cache pv > x_budget x then Inr (Break s')
       else
         let c = of_int k * e;
             b = of_int (grid_mem_bw x k) * e;
             mem_bw_margin = 2 * e * p_cache pv / max (1 / 1000000) (p_mem_bw pv)
         in
         if \<not> fst (check_resource_limits c b sc False None (e + 1 / 1000000, mem_bw_margin + 1 / 1000000))
         then Inr (Next s')
         else
           rbind (clip_allocation c b sc) (\<lambda>(c, b).
           if total_cost pv c b * margin_in_budget \<le> x_budget x then
             rbind (x_est x (x_user x) (c * s_cache sc) (b * s_mem_bw sc)) (\<lambda>est_util.
             rbind (discounted_util x c est_util) (\<lambda>u.
             Inr (consider_point x c b u s')))
           else Inr (Next s')))"

definition prefer_last :: "grid_state \<Rightarrow> grid_state" where
  "prefer_last s =
    (case closest s of
       None \<Rightarrow> s
     | Some (a, u, _) \<Rightarrow>
         if max_util s / reallocation_threshold < u
         then s\<lparr>best_alloc := Some a, max_util := u\<rparr>
         else s)"

definition ptas_algorithm ::
  "estimation \<Rightarrow> int \<Rightarrow> rat \<Rightarrow> rat \<Rightarrow> price_vector \<Rightarrow> allocs option \<Rightarrow> allocs option \<Rightarrow>
   resource_scale \<Rightarrow> search_range \<Rightarrow> (alloc option \<times> nat \<times> resource_limited) res" where
  "ptas_algorithm est user_id epsilon budget pv last_allocation last_static_allocation rs rng =
    (let sc = fill_scale rs in
     rbind (static_start est user_id last_static_allocation budget epsilon pv sc rng) (\<lambda>(best0, util0).
     let budget' = budget * margin_in_budget in
     rbind (check_last_allocation user_id last_allocation budget' epsilon pv sc est util0)
       (\<lambda>(last_alloc, util1).
     rbind (fdiv 1 epsilon) (\<lambda>n.
     rbind
       (rloop
         (grid_step
           \<lparr>x_est = est, x_user = user_id, x_epsilon = epsilon, x_budget = budget', x_price = pv,
            x_last = last_allocation, x_scale = sc, x_range = rng\<rparr>)
         [1..py_int n]
         \<lparr>max_util = util1,
          best_alloc = (case last_alloc of None \<Rightarrow> best0 | Some a \<Rightarrow> Some a),
          limited = not_limited, checked_point = 0, closest = None\<rparr>)
       (\<lambda>s.
     let s' = prefer_last s in
     Inr (best_alloc s', checked_point s', limited s'))))))"

section \<open>Static shares and search ranges\<close>

definition get_static_allocation :: "int \<Rightarrow> alloc res" where
  "get_static_allocation num_users =
     rbind (fdiv 1 (of_int num_users)) (\<lambda>q. Inr (mk_alloc q q))"

definition get_search_dict :: "alloc \<Rightarrow> rat \<Rightarrow> search_range" where
  "get_search_dict cur_alloc search_range =
     ((max 0 (cache cur_alloc - search_range), min 1 (cache cur_alloc + search_range)),
      (max 0 (mem_bw cur_alloc - search_range), min 1 (mem_bw cur_alloc + search_range)))"

section \<open>Specification\<close>

definition within_limits :: "scale \<Rightarrow> rat \<Rightarrow> rat \<Rightarrow> bool" where
  "within_limits sc c b \<longleftrightarrow>
     min_cache sc \<le> c * s_cache sc \<and> \<not> exceeds (c * s_cache sc) (max_cache sc) \<and>
     min_mem_bw sc \<le> b * s_mem_bw sc \<and> \<not> exceeds (b * s_mem_bw sc) (max_mem_bw sc)"

abbreviation search_ctx ::
  "estimation \<Rightarrow> int \<Rightarrow> rat \<Rightarrow> rat \<Rightarrow> price_vector \<Rightarrow> allocs option \<Rightarrow> resource_scale \<Rightarrow> search_range \<Rightarrow> ptas_ctx" where
  "search_ctx est user_id epsilon budget pv last_allocation rs rng \<equiv>
     \<lparr>x_est = est, x_user = user_id, x_epsilon = epsilon, x_budget = budget * margin_in_budget,
      x_price = pv, x_last = last_allocation, x_scale = fill_scale rs, x_range = rng\<rparr>"

text \<open>\<open>grid_point x k c b u\<close>: chunk \<open>k\<close> is in the search range and within the budget, is not skipped by
  the first check of the limits, becomes the shares \<open>c\<close> and \<open>b\<close> after clipping, costs no more than
  the budget, and the loop rates it \<open>u\<close>.\<close>

definition grid_point :: "ptas_ctx \<Rightarrow> int \<Rightarrow> rat \<Rightarrow> rat \<Rightarrow> rat \<Rightarrow> bool" where
  "grid_point x k c b u \<longleftrightarrow>
     (let e = x_epsilon x; pv = x_price x; sc = x_scale x in
      fst (fst (x_range x)) \<le> e * of_int k \<and> e * of_int k \<le> snd (fst (x_range x)) \<and>
      of_int k * e * p_cache pv \<le> x_budget x \<and>
      fst (check_resource_limits (of_int k * e) (of_int (grid_mem_bw x k) * e) sc False None
             (e + 1 / 1000000,
              2 * e * p_cache pv / max (1 / 1000000) (p_mem_bw pv) + 1 / 1000000)) \<and>
      clip_allocation (of_int k * e) (of_int (grid_mem_bw x k) * e) sc = Inr (c, b) \<and>
      total_cost pv c b * margin_in_budget \<le> x_budget x \<and>
      within_limits sc c b \<and>
      rbind (x_est x (x_user x) (c * s_cache sc) (b * s_mem_bw sc)) (discounted_util x c) = Inr u)"

text \<open>Where the candidates of the loop come from: the best one and its rating are those the loop
  started with or belong to a grid point, and so does the one closest to the last allocation.\<close>

definition loop_inv :: "ptas_ctx \<Rightarrow> int list \<Rightarrow> alloc option \<Rightarrow> rat \<Rightarrow> grid_state \<Rightarrow> bool" where
  "loop_inv x ks best0 util0 s \<longleftrightarrow>
     ((best_alloc s, max_util s) = (best0, util0) \<or>
      (\<exists>k \<in> set ks. \<exists>c b. grid_point x k c b (max_util s) \<and> best_alloc s = Some (mk_alloc c b))) \<and>
     (\<forall>a u g. closest s = Some (a, u, g) \<longrightarrow>
        (\<exists>k \<in> set ks. \<exists>c b. grid_point x k c b u \<and> a = mk_alloc c b)) \<and>
     util0 \<le> max_util s"

text \<open>\<open>origin \<dots> a r\<close>: the candidate \<open>a\<close>, which the search rated \<open>r\<close>, was made from the static allocation,
  from the last allocation, or is a point of the grid.\<close>

definition origin ::
  "estimation \<Rightarrow> int \<Rightarrow> rat \<Rightarrow> rat \<Rightarrow> price_vector \<Rightarrow> allocs option \<Rightarrow> allocs option \<Rightarrow> resource_scale \<Rightarrow>
   search_range \<Rightarrow> alloc \<Rightarrow> rat \<Rightarrow> bool" where
  "origin est user_id epsilon budget pv la sta rs rng a r \<longleftrightarrow>
     (\<exists>st w. Option.bind sta (\<lambda>d. map_of d user_id) = Some st \<and>
        static_candidate st budget epsilon pv (fill_scale rs) rng = Inr a \<and>
        est user_id (cache a * rs_cache rs) (mem_bw a * rs_mem_bw rs) = Inr w \<and>
        r = w / reallocation_threshold) \<or>
     (\<exists>u. check_last_allocation user_id la (budget * margin_in_budget) epsilon pv (fill_scale rs) est u
        = Inr (Some a, r)) \<or>
     (\<exists>k c b. grid_point (search_ctx est user_id epsilon budget pv la rs rng) k c b r \<and> a = mk_alloc c b)"

section \<open>What the limits mean\<close>


lemma ub_add_0 [simp]: "ub_add m 0 = m"
  by (cases m) auto

lemma ub_min_le: "ub_min m x \<le> x"
  by (cases m) auto

lemma exceeds_ub_min: "\<not> exceeds (ub_min m x) m"
  by (cases m) auto

lemma ub_min_id: "\<not> exceeds x m \<Longrightarrow> ub_min m x = x"
  by (cases m) auto

lemma check_resource_limits_iff:
  "fst (check_resource_limits c b sc better l (0, 0)) \<longleftrightarrow> within_limits sc c b"
  by (auto simp: check_resource_limits_def within_limits_def Let_def not_less)

lemma check_resource_limits_tracked:
  "check_resource_limits c b sc better (Some l) m = (ok, l') \<Longrightarrow> \<exists>l''. l' = Some l''"
  by (auto simp: check_resource_limits_def Let_def split: if_splits)

lemma check_resource_limits_True:
  "check_resource_limits c b sc better l m = (True, l') \<Longrightarrow> l' = l"
  by (auto simp: check_resource_limits_def Let_def split: if_splits)

lemma update_limited_keeps: "is_resource_limited l \<Longrightarrow> is_resource_limited (update_limited l l')"
  by (auto simp: is_resource_limited_def update_limited_def)

lemma check_resource_limits_flags_mono:
  "check_resource_limits c b sc better (Some l) m = (ok, Some l') \<Longrightarrow>
   is_resource_limited l \<Longrightarrow> is_resource_limited l'"
  by (auto simp: check_resource_limits_def Let_def intro: update_limited_keeps split: if_splits)

lemma check_resource_limits_flagged:
  assumes "check_resource_limits c b sc True (Some l) m = (False, Some l')"
  shows "is_resource_limited l'"
  using assms
  by (auto simp: check_resource_limits_def Let_def is_resource_limited_def update_limited_def
      split: if_splits)

lemma clip_allocation_Inr:
  assumes "clip_allocation c b sc = Inr (c', b')"
  shows "s_cache sc \<noteq> 0" "s_mem_bw sc \<noteq> 0"
    "c' * s_cache sc = ub_min (max_cache sc) (c * s_cache sc)"
    "b' * s_mem_bw sc = ub_min (max_mem_bw sc) (b * s_mem_bw sc)"
  using assms by (auto simp: clip_allocation_def Let_def rbind_eq_Inr fdiv_eq_Inr)

lemma clip_allocation_le:
  assumes "clip_allocation c b sc = Inr (c', b')" and "0 < s_cache sc" and "0 < s_mem_bw sc"
  shows "c' \<le> c" "b' \<le> b"
  using clip_allocation_Inr(3,4) [OF assms(1)] assms(2,3) ub_min_le
  by (metis mult_le_cancel_right_pos)+

section \<open>The points of the grid\<close>


text \<open>One step of the loop either leaves the candidates alone or considers exactly one grid point.\<close>

lemma track_closest_simps [simp]:
  "max_util (track_closest x c b u s) = max_util s"
  "best_alloc (track_closest x c b u s) = best_alloc s"
  "limited (track_closest x c b u s) = limited s"
  "checked_point (track_closest x c b u s) = checked_point s"
  by (auto simp: track_closest_def Let_def split: option.splits)

lemma closest_track_closest:
  "closest (track_closest x c b u s) = closest s \<or>
   (\<exists>g. closest (track_closest x c b u s) = Some (mk_alloc c b, u, g))"
  by (auto simp: track_closest_def Let_def split: option.splits)

lemma grid_step_cases:
  assumes "grid_step x k s = Inr r"
  obtains (skip) "r = Next s"
  | (counted) "r = Next (s\<lparr>checked_point := checked_point s + 1\<rparr>)"
  | (broke) "r = Break (s\<lparr>checked_point := checked_point s + 1\<rparr>)"
      "of_int k * x_epsilon x * p_cache (x_price x) > x_budget x"
  | (limited) c b u l where "\<not> within_limits (x_scale x) c b"
      "r = Next (s\<lparr>checked_point := checked_point s + 1, limited := l\<rparr>)"
      "is_resource_limited (limited s) \<Longrightarrow> is_resource_limited l"
  | (point) c b u where "grid_point x k c b u"
      "r = consider_point x c b u (s\<lparr>checked_point := checked_point s + 1\<rparr>)"
proof -
  note d = grid_step_def [of x k s, unfolded Let_def]
  let ?s = "s\<lparr>checked_point := checked_point s + 1\<rparr>"
  consider "r = Next s" | "r = Next ?s"
    | "r = Break ?s" "of_int k * x_epsilon x * p_cache (x_price x) > x_budget x"
    | c b u v where "clip_allocation (of_int k * x_epsilon x) (of_int (grid_mem_bw x k) * x_epsilon x) (x_scale x) = Inr (c, b)"
      "total_cost (x_price x) c b * margin_in_budget \<le> x_budget x"
      "x_est x (x_user x) (c * s_cache (x_scale x)) (b * s_mem_bw (x_scale x)) = Inr v"
      "discounted_util x c v = Inr u" "r = consider_point x c b u ?s"
      "fst (fst (x_range x)) \<le> x_epsilon x * of_int k" "x_epsilon x * of_int k \<le> snd (fst (x_range x))"
      "of_int k * x_epsilon x * p_cache (x_price x) \<le> x_budget x"
      "fst (check_resource_limits (of_int k * x_epsilon x) (of_int (grid_mem_bw x k) * x_epsilon x) (x_scale x) False None
             (x_epsilon x + 1 / 1000000,
              2 * x_epsilon x * p_cache (x_price x) / max (1 / 1000000) (p_mem_bw (x_price x)) + 1 / 1000000))"
    using assms unfolding d
    by (auto simp: rbind_eq_Inr not_less split: if_splits prod.splits)
  then show thesis
  proof cases
    case 4
    show thesis
    proof (cases "within_limits (x_scale x) c b")
      case True
      then have "grid_point x k c b u" using 4 by (simp add: grid_point_def Let_def)
      then show thesis using point 4 by blast
    next
      case False
      obtain l where l: "check_resource_limits c b (x_scale x) (max_util ?s < u) (Some (grid_state.limited ?s)) (0, 0)
          = (False, Some l)"
        using False check_resource_limits_iff check_resource_limits_tracked
        by (metis (full_types) prod.collapse)
      then have "r = Next (s\<lparr>checked_point := checked_point s + 1, limited := l\<rparr>)"
        using 4(5) by (simp add: consider_point_def)
      then show thesis
        using limited [OF False] check_resource_limits_flags_mono [OF l] by simp
    qed
  qed (use skip counted broke in auto)
qed

lemma grid_step_point:
  assumes "grid_point x k c b u"
  shows "grid_step x k s = Inr (consider_point x c b u (s\<lparr>checked_point := checked_point s + 1\<rparr>))"
  using assms by (auto simp: grid_point_def grid_step_def Let_def rbind_eq_Inr)

lemma grid_point_within_limits: "grid_point x k c b u \<Longrightarrow> within_limits (x_scale x) c b"
  by (simp add: grid_point_def Let_def)

lemma consider_point_within:
  assumes "within_limits (x_scale x) c b"
  shows "consider_point x c b u s =
    (let s' = track_closest x c b u s in
     if u > max_util s then
       (if is_resource_limited (limited s) then Break else Next)
         (s'\<lparr>max_util := u, best_alloc := Some (mk_alloc c b)\<rparr>)
     else Next s')"
proof -
  have "check_resource_limits c b (x_scale x) (u > max_util s) (Some (limited s)) (0, 0) = (True, Some (limited s))"
    using assms check_resource_limits_iff check_resource_limits_True by (metis (full_types) prod.collapse)
  then show ?thesis by (auto simp: consider_point_def Let_def)
qed

lemma consider_point_state:
  assumes "grid_point x k c b u"
  shows "ctl_state (consider_point x c b u s) =
    (let s' = track_closest x c b u s in
     if u > max_util s then s'\<lparr>max_util := u, best_alloc := Some (mk_alloc c b)\<rparr> else s')"
  by (simp add: consider_point_within [OF grid_point_within_limits [OF assms]] Let_def)


lemma loop_inv_step:
  assumes "k \<in> set ks" and "loop_inv x ks best0 util0 s" and "grid_step x k s = Inr r"
  shows "loop_inv x ks best0 util0 (ctl_state r)"
  using assms(3)
proof (cases rule: grid_step_cases)
  case (point c b u)
  let ?s = "s\<lparr>checked_point := checked_point s + 1\<rparr>"
  have *: "ctl_state r = (let s' = track_closest x c b u ?s in
     if u > max_util s then s'\<lparr>max_util := u, best_alloc := Some (mk_alloc c b)\<rparr> else s')"
    using point consider_point_state [OF point(1)] by simp
  have cl: "closest (ctl_state r) = closest s \<or> (\<exists>g. closest (ctl_state r) = Some (mk_alloc c b, u, g))"
    using closest_track_closest [of x c b u ?s] by (simp add: * Let_def)
  have "(best_alloc (ctl_state r), max_util (ctl_state r)) =
      (if u > max_util s then (Some (mk_alloc c b), u) else (best_alloc s, max_util s))"
    by (simp add: * Let_def)
  then have best: "best_alloc (ctl_state r) = Some (mk_alloc c b) \<and> max_util (ctl_state r) = u \<and> max_util s < u \<or>
      best_alloc (ctl_state r) = best_alloc s \<and> max_util (ctl_state r) = max_util s"
    by (auto split: if_splits)
  have "\<exists>k \<in> set ks. \<exists>c b. grid_point x k c b v \<and> a = mk_alloc c b"
    if new: "closest (ctl_state r) = Some (a, v, g)" for a v g
    using cl
  proof
    assume "closest (ctl_state r) = closest s"
    then have "closest s = Some (a, v, g)" using new by simp
    then show ?thesis using assms(2) unfolding loop_inv_def by blast
  next
    assume "\<exists>g. closest (ctl_state r) = Some (mk_alloc c b, u, g)"
    then show ?thesis using new assms(1) point(1) by auto
  qed
  with best show ?thesis
    using assms(1,2) point(1) unfolding loop_inv_def by fastforce
qed (use assms(2) in \<open>auto simp: loop_inv_def\<close>)

lemma loop_inv_rloop:
  assumes "rloop (grid_step x) ks s = Inr t" and "loop_inv x ks best0 util0 s"
  shows "loop_inv x ks best0 util0 t"
  using assms by (rule rloop_invariant) (rule loop_inv_step)

text \<open>No point is visited for nothing: the counter grows by at most one per chunk.\<close>

lemma consider_point_checked [simp]:
  "checked_point (ctl_state (consider_point x c b u s)) = checked_point s"
  by (auto simp: consider_point_def Let_def split: prod.splits bool.splits)

lemma checked_point_rloop:
  "rloop (grid_step x) ks s = Inr t \<Longrightarrow> checked_point t \<le> checked_point s + length ks"
proof (induction ks arbitrary: s)
  case (Cons k ks)
  have step: "checked_point (ctl_state r) \<le> checked_point s + 1" if "grid_step x k s = Inr r" for r
    using that by (cases rule: grid_step_cases) auto
  from Cons.prems show ?case
    by (cases rule: rloop_ConsE) (use Cons.IH step in fastforce)+
qed simp

lemma grid_step_mono:
  assumes "grid_step x k s = Inr r"
  shows "max_util s \<le> max_util (ctl_state r)"
    and "is_resource_limited (limited s) \<longrightarrow> is_resource_limited (limited (ctl_state r))"
proof -
  have "max_util s \<le> max_util (ctl_state r) \<and>
      (is_resource_limited (limited s) \<longrightarrow> is_resource_limited (limited (ctl_state r)))"
    using assms
    by (cases rule: grid_step_cases) (auto simp: consider_point_state Let_def)
  then show "max_util s \<le> max_util (ctl_state r)"
    and "is_resource_limited (limited s) \<longrightarrow> is_resource_limited (limited (ctl_state r))" by auto
qed

lemma rloop_mono:
  assumes "rloop (grid_step x) ks s = Inr t"
  shows "max_util s \<le> max_util t"
    and "is_resource_limited (limited s) \<Longrightarrow> is_resource_limited (limited t)"
  using rloop_invariant [where P = "\<lambda>u. max_util s \<le> max_util u", OF assms] grid_step_mono(1)
    rloop_invariant [where P = "\<lambda>u. is_resource_limited (limited u)", OF assms] grid_step_mono(2)
  by (blast intro: order_trans)+

text \<open>Unless a limit was hit, no grid point is rated above the best candidate: the loop leaves early
  only where the cache alone costs more than the budget.\<close>

lemma rloop_optimal:
  assumes "rloop (grid_step x) ks s = Inr t" and "sorted ks" and "\<not> is_resource_limited (limited t)"
    and "0 \<le> x_epsilon x" and "0 \<le> p_cache (x_price x)"
    and "k \<in> set ks" and "grid_point x k c b u"
  shows "u \<le> max_util t"
  using assms(1-3,6)
proof (induction ks arbitrary: s)
  case (Cons j ks)
  then obtain r where r: "grid_step x j s = Inr r"
    "(case r of Next s' \<Rightarrow> rloop (grid_step x) ks s' | Break s' \<Rightarrow> Inr s') = Inr t"
    by (auto elim: rbind_eq_InrE)
  let ?s = "s\<lparr>checked_point := checked_point s + 1\<rparr>"
  have mono: "max_util (ctl_state r) \<le> max_util t"
    and lim: "is_resource_limited (limited (ctl_state r)) \<Longrightarrow> is_resource_limited (limited t)"
    using r(2) rloop_mono by (cases r; fastforce)+
  show ?case
  proof (cases "k = j")
    case True
    then have "r = consider_point x c b u ?s" using r(1) grid_step_point [OF assms(7)] by simp
    then have "u \<le> max_util (ctl_state r)"
      using consider_point_state [OF assms(7)] by (simp add: Let_def)
    then show ?thesis using mono by simp
  next
    case False
    then have k: "k \<in> set ks" "j \<le> k" using Cons.prems by auto
    show ?thesis
    proof (cases r)
      case (Next s')
      then show ?thesis using Cons k r(2) by simp
    next
      case (Break s')
      from r(1) have "x_budget x < of_int k * x_epsilon x * p_cache (x_price x)"
      proof (cases rule: grid_step_cases)
        case broke
        have "of_int j * x_epsilon x * p_cache (x_price x) \<le> of_int k * x_epsilon x * p_cache (x_price x)"
          using k(2) assms(4,5) by (intro mult_right_mono) auto
        then show ?thesis using broke by simp
      next
        case (point c' b' u')
        then have "is_resource_limited (limited s)"
          using Break consider_point_within [OF grid_point_within_limits [OF point(1)]]
          by (auto simp: Let_def split: if_splits)
        then show ?thesis using lim grid_step_mono(2) [OF r(1)] Cons.prems(3) by blast
      qed (use Break in auto)
      then show ?thesis using assms(7) by (simp add: grid_point_def Let_def)
    qed
  qed
qed simp


lemma prefer_last_cases:
  obtains "prefer_last s = s"
  | a u g where "closest s = Some (a, u, g)" "max_util s / reallocation_threshold < u"
      "prefer_last s = s\<lparr>best_alloc := Some a, max_util := u\<rparr>"
proof (cases "closest s")
  case None
  then show thesis using that(1) by (simp add: prefer_last_def)
next
  case (Some t)
  obtain a u g where "t = (a, u, g)" by (cases t)
  then show thesis using Some that by (cases "max_util s / reallocation_threshold < u") (auto simp: prefer_last_def)
qed

text \<open>Where the result of the whole function comes from, with the value the search gave it.\<close>

lemma ptas_algorithmE:
  assumes "ptas_algorithm est user_id epsilon budget pv la sta rs rng = Inr (res, n, l)"
  obtains best0 util0 last_alloc util1 s where
    "static_start est user_id sta budget epsilon pv (fill_scale rs) rng = Inr (best0, util0)"
    "check_last_allocation user_id la (budget * margin_in_budget) epsilon pv (fill_scale rs) est util0
       = Inr (last_alloc, util1)"
    "epsilon \<noteq> 0"
    "rloop (grid_step (search_ctx est user_id epsilon budget pv la rs rng)) [1..py_int (1 / epsilon)]
       \<lparr>max_util = util1, best_alloc = (case last_alloc of None \<Rightarrow> best0 | Some a \<Rightarrow> Some a),
        limited = not_limited, checked_point = 0, closest = None\<rparr> = Inr s"
    "loop_inv (search_ctx est user_id epsilon budget pv la rs rng) [1..py_int (1 / epsilon)]
       (case last_alloc of None \<Rightarrow> best0 | Some a \<Rightarrow> Some a) util1 s"
    "res = best_alloc (prefer_last s)" "n = checked_point s" "l = limited s"
proof -
  from assms obtain best0 util0 last_alloc util1 s where *:
    "static_start est user_id sta budget epsilon pv (fill_scale rs) rng = Inr (best0, util0)"
    "check_last_allocation user_id la (budget * margin_in_budget) epsilon pv (fill_scale rs) est util0
       = Inr (last_alloc, util1)"
    "epsilon \<noteq> 0"
    "rloop (grid_step (search_ctx est user_id epsilon budget pv la rs rng)) [1..py_int (1 / epsilon)]
       \<lparr>max_util = util1, best_alloc = (case last_alloc of None \<Rightarrow> best0 | Some a \<Rightarrow> Some a),
        limited = not_limited, checked_point = 0, closest = None\<rparr> = Inr s"
    "(res, n, l) = (best_alloc (prefer_last s), checked_point (prefer_last s), limited (prefer_last s))"
    unfolding ptas_algorithm_def Let_def
    by (auto simp: rbind_eq_Inr fdiv_eq_Inr split: prod.splits)
  have "checked_point (prefer_last s) = checked_point s" "limited (prefer_last s) = limited s"
    by (cases s rule: prefer_last_cases; simp)+
  moreover have "loop_inv (search_ctx est user_id epsilon budget pv la rs rng) [1..py_int (1 / epsilon)]
       (case last_alloc of None \<Rightarrow> best0 | Some a \<Rightarrow> Some a) util1 s"
    by (rule loop_inv_rloop [OF *(4)]) (simp add: loop_inv_def)
  ultimately show thesis using that * by simp
qed

lemma check_last_allocation_Some:
  assumes "check_last_allocation user_id la budget epsilon pv sc est u = Inr (Some a, v)"
  shows "within_limits sc (cache a) (mem_bw a)" "u < v"
    "est user_id (cache a * s_cache sc) (mem_bw a * s_mem_bw sc) = Inr v"
  using assms
  by (auto simp: check_last_allocation_def rbind_eq_Inr check_resource_limits_iff
      split: option.splits if_splits prod.splits)

lemma check_last_allocation_None:
  assumes "check_last_allocation user_id la budget epsilon pv sc est u = Inr (None, v)"
  shows "v = u"
  using assms
  by (auto simp: check_last_allocation_def rbind_eq_Inr split: option.splits if_splits prod.splits)

lemma static_start_Some:
  assumes "static_start est user_id sta budget epsilon pv sc rng = Inr (Some a, v)"
  obtains st w where "Option.bind sta (\<lambda>d. map_of d user_id) = Some st"
    "static_candidate st budget epsilon pv sc rng = Inr a"
    "est user_id (cache a * s_cache sc) (mem_bw a * s_mem_bw sc) = Inr w"
    "v = w / reallocation_threshold"
  using assms by (auto simp: static_start_def rbind_eq_Inr split: option.splits)

lemma discounted_util_bounds:
  assumes "discounted_util x c v = Inr u" and "0 \<le> v"
  shows "u \<le> v" "v \<le> reallocation_threshold * u"
  using assms
  by (auto simp: discounted_util_def reallocation_threshold_def rbind_eq_Inr field_simps
      split: option.splits if_splits)

lemma grid_pointD:
  assumes "grid_point x k c b u"
  shows "total_cost (x_price x) c b * margin_in_budget \<le> x_budget x"
    "\<exists>v. x_est x (x_user x) (c * s_cache (x_scale x)) (b * s_mem_bw (x_scale x)) = Inr v \<and>
         discounted_util x c v = Inr u"
    "clip_allocation (of_int k * x_epsilon x) (of_int (grid_mem_bw x k) * x_epsilon x) (x_scale x)
       = Inr (c, b)"
  using assms by (auto simp: grid_point_def Let_def rbind_eq_Inr)


lemma fill_scale_simps [simp]:
  "s_cache (fill_scale rs) = rs_cache rs" "s_mem_bw (fill_scale rs) = rs_mem_bw rs"
  by (simp_all add: fill_scale_def)

lemma ptas_originE:
  assumes "ptas_algorithm est user_id epsilon budget pv la sta rs rng = Inr (Some a, n, l)"
  obtains s0 s r where
    "rloop (grid_step (search_ctx est user_id epsilon budget pv la rs rng)) [1..py_int (1 / epsilon)] s0 = Inr s"
    "l = limited s" "origin est user_id epsilon budget pv la sta rs rng a r"
    "max_util s = r \<or> max_util s / reallocation_threshold < r"
  using assms
proof (cases rule: ptas_algorithmE)
  case (1 best0 util0 last_alloc util1 s)
  let ?x = "search_ctx est user_id epsilon budget pv la rs rng"
  let ?o = "origin est user_id epsilon budget pv la sta rs rng a"
  have start: "?o util1" if "(case last_alloc of None \<Rightarrow> best0 | Some a \<Rightarrow> Some a) = Some a"
  proof (cases last_alloc)
    case None
    with that 1(1,2) have "static_start est user_id sta budget epsilon pv (fill_scale rs) rng = Inr (Some a, util1)"
      by (auto dest: check_last_allocation_None)
    then show ?thesis by (rule static_start_Some) (simp add: origin_def)
  next
    case (Some a')
    with that 1(2) show ?thesis by (auto simp: origin_def)
  qed
  have grid: "?o r" if "grid_point ?x k c b r" "a = mk_alloc c b" for k c b r
    unfolding origin_def using that by blast
  have "\<exists>r. ?o r \<and> (max_util s = r \<or> max_util s / reallocation_threshold < r)"
  proof (cases s rule: prefer_last_cases)
    case 1
    with \<open>Some a = _\<close> have "best_alloc s = Some a" by simp
    with \<open>loop_inv _ _ _ _ s\<close> have "?o (max_util s)"
      unfolding loop_inv_def using start grid by fastforce
    then show ?thesis by blast
  next
    case (2 a' u g)
    with \<open>Some a = _\<close> \<open>loop_inv _ _ _ _ s\<close> have "?o u"
      unfolding loop_inv_def using grid by fastforce
    with 2(2) show ?thesis by blast
  qed
  then show thesis using that 1(4,8) by blast
qed

section \<open>A sample search\<close>

text \<open>Two users share a VM of 10 GB cache and 7.5 Gbps; utility grows linearly in both resources.\<close>

definition sample_est :: estimation where
  "sample_est u c b = Inr (\<bar>c\<bar> / 100 + \<bar>b\<bar>)"

definition sample_scale :: resource_scale where
  "sample_scale = \<lparr>rs_cache = 10240, rs_mem_bw = 75 / 10, rs_min_cache = Some 1024,
     rs_max_cache = Some 9216, rs_min_mem_bw = Some (75 / 100), rs_max_mem_bw = Some 7\<rparr>"

definition sample_price :: price_vector where
  "sample_price = \<lparr>p_cache = 1 / 2, p_mem_bw = 1 / 2, ends = None\<rparr>"

abbreviation sample_last :: "allocs option" where
  "sample_last \<equiv> Some [(1, mk_alloc (1 / 2) (1 / 2)), (2, mk_alloc (1 / 2) (1 / 2))]"

abbreviation sample_range :: search_range where
  "sample_range \<equiv> ((1 / 4, 1 / 2), (0, 1))"

lemma sample_run:
  "ptas_algorithm sample_est 1 (1 / 4) (1 / 2) sample_price sample_last None sample_scale sample_range
     = Inr (Some (mk_alloc (1 / 2) (1 / 4)), 2, not_limited)"
  by code_simp

lemma sample_point:
  "grid_point (search_ctx sample_est 1 (1 / 4) (1 / 2) sample_price sample_last sample_scale sample_range)
     1 (1 / 4) (1 / 2) ((2560 / 100 + 75 / 20) / reallocation_threshold)"
  unfolding grid_point_def by code_simp

section \<open>What the search guarantees\<close>

text \<open>C3. Whatever the estimator, an allocation returned by the search is the candidate made from the
  static allocation, or it lies within the minimum and maximum of both resources and is the repaired last
  allocation or costs at most the budget at the given prices.\<close>

theorem ptas_respects_limits_and_budget:
  assumes "ptas_algorithm est user_id epsilon budget pv la sta rs rng = Inr (Some a, n, l)"
  shows "(\<exists>st. Option.bind sta (\<lambda>d. map_of d user_id) = Some st \<and>
               static_candidate st budget epsilon pv (fill_scale rs) rng = Inr a) \<or>
         within_limits (fill_scale rs) (cache a) (mem_bw a) \<and>
         ((\<exists>u v. check_last_allocation user_id la (budget * margin_in_budget) epsilon pv
                   (fill_scale rs) est u = Inr (Some a, v)) \<or>
          total_cost pv (cache a) (mem_bw a) \<le> budget)"
proof -
  obtain r where "origin est user_id epsilon budget pv la sta rs rng a r"
    using assms by (rule ptas_originE)
  then show ?thesis
    unfolding origin_def
    using check_last_allocation_Some(1) grid_point_within_limits grid_pointD(1)
    by (fastforce simp: margin_in_budget_def)
qed

theorem ptas_respects_limits_and_budget_witness:
  "ptas_algorithm sample_est 1 (1 / 4) (1 / 2) sample_price sample_last None sample_scale sample_range
     = Inr (Some (mk_alloc (1 / 2) (1 / 4)), 2, not_limited) \<and>
   within_limits (fill_scale sample_scale) (1 / 2) (1 / 4)"
  using ptas_respects_limits_and_budget [OF sample_run] sample_run by simp

text \<open>The estimate behind a rating.\<close>

lemma origin_estimate:
  assumes "origin est user_id epsilon budget pv la sta rs rng a r"
    and "\<And>c b v. est user_id c b = Inr v \<Longrightarrow> 0 \<le> v"
  shows "\<exists>w. est user_id (cache a * rs_cache rs) (mem_bw a * rs_mem_bw rs) = Inr w \<and> r \<le> w"
  using assms(1) unfolding origin_def
proof (elim disjE exE conjE)
  fix st w
  assume w: "est user_id (cache a * rs_cache rs) (mem_bw a * rs_mem_bw rs) = Inr w" "r = w / reallocation_threshold"
  have "0 \<le> w" using assms(2) w(1) .
  then have "r \<le> w" using w(2) by (simp add: reallocation_threshold_def field_simps)
  then show ?thesis using w(1) by blast
next
  fix u
  assume "check_last_allocation user_id la (budget * margin_in_budget) epsilon pv (fill_scale rs) est u = Inr (Some a, r)"
  from check_last_allocation_Some(3) [OF this] show ?thesis by auto
next
  fix k c b
  assume "grid_point (search_ctx est user_id epsilon budget pv la rs rng) k c b r" "a = mk_alloc c b"
  with grid_pointD(2) assms(2) discounted_util_bounds(1) show ?thesis by fastforce
qed



section \<open>The estimator interface\<close>

text \<open>What the search relies on: an estimator that is ready for a user answers without raising.\<close>

locale utility_estimator =
  fixes est :: "'e \<Rightarrow> estimation"
    and ready :: "'e \<Rightarrow> int \<Rightarrow> bool"
  assumes ready_returns: "ready e u \<Longrightarrow> returns (est e u c b)"
begin

lemma static_start_returns:
  assumes "ready e u" and "0 < epsilon" and "0 < p_cache pv" and "0 < s_mem_bw sc"
  shows "returns (static_start (est e) u sta budget epsilon pv sc rng)"
  unfolding static_start_def static_candidate_def affordable_mem_bw_def
  using assms by (intro returns_intros ready_returns) auto

lemma check_last_allocation_returns:
  assumes "ready e u" and "0 < epsilon" and "0 < p_cache pv" and "0 < p_mem_bw pv"
    and "0 < s_cache sc" and "0 < s_mem_bw sc"
    and "\<And>a. Option.bind la (\<lambda>d. map_of d u) = Some a \<Longrightarrow> 0 < cache a \<and> 0 < mem_bw a"
  shows "returns (check_last_allocation u la budget epsilon pv sc (est e) v)"
  unfolding check_last_allocation_def scaled_allocation_def affordable_mem_bw_def
  using assms
  by (intro returns_intros ready_returns) (auto simp: fdiv_eq_Inr add_pos_pos less_imp_neq [symmetric])

lemma grid_step_returns:
  assumes "ready e (x_user x)" and "x_est x = est e"
    and "0 < s_cache (x_scale x)" and "0 < s_mem_bw (x_scale x)"
    and "\<And>d. x_last x = Some d \<Longrightarrow> d \<noteq> [] \<Longrightarrow> map_of d (x_user x) \<noteq> None"
  shows "returns (grid_step x k s)"
  unfolding grid_step_def clip_allocation_def discounted_util_def assms(2)
  using assms(1,3-5) by (intro returns_intros ready_returns) auto

lemma ptas_returns:
  assumes "ready e u" and "0 < epsilon" and "0 < p_cache pv" and "0 < p_mem_bw pv"
    and "0 < rs_cache rs" and "0 < rs_mem_bw rs"
    and "\<And>d. la = Some d \<Longrightarrow> \<exists>a. map_of d u = Some a \<and> 0 < cache a \<and> 0 < mem_bw a"
  shows "returns (ptas_algorithm (est e) u epsilon budget pv la sta rs rng)"
  unfolding ptas_algorithm_def
  by (intro returns_intros static_start_returns check_last_allocation_returns grid_step_returns)
    (use assms in \<open>auto simp: bind_eq_Some_conv\<close>)

end

section \<open>The repair of a static candidate\<close>

text \<open>When the bandwidth that the static allocation can afford is outside the limits, the repair
  truncates the clipped share, a number below 1, to an integer: the candidate is the untouched static
  allocation or has no bandwidth at all, below the minimum it was to be clipped to.\<close>

lemma static_candidate_repair_truncates:
  assumes "affordable_mem_bw (clamp_to_range rng (cache st)) budget epsilon pv = Inr b"
    and "exceeds (b * s_mem_bw sc) (max_mem_bw sc) \<or> b * s_mem_bw sc < min_mem_bw sc"
    and "0 < min_mem_bw sc" and "max_mem_bw sc = Bounded m" and "min_mem_bw sc \<le> m" and "m < s_mem_bw sc"
    and "static_candidate st budget epsilon pv sc rng = Inr a"
  shows "a = st \<or> mem_bw a = 0 \<and> mem_bw a * s_mem_bw sc < min_mem_bw sc"
proof -
  let ?q = "ub_min (max_mem_bw sc) (max (min_mem_bw sc) (b * s_mem_bw sc)) / s_mem_bw sc"
  have "0 < ?q" "?q < 1" using assms(3-6) by (auto simp: field_simps)
  then have q: "py_int ?q = 0" by (simp add: py_int_def floor_eq_iff)
  have s: "s_mem_bw sc \<noteq> 0" using assms(3-6) by auto
  show ?thesis using assms(1,2,3,7) q s
    by (auto simp: static_candidate_def Let_def rbind_eq_Inr fdiv_eq_Inr split: if_splits)
qed

end
