(* ===== verification/Estimator.thy ===== *)
theory Estimator
  imports Ptas
begin

text \<open>
  \<open>src/res_allocation/estimators/runtime_estimator.py\<close>: the utility of an allocation, estimated from
  the miss rate curve and the usage that the monitor measured last, relative to the allocation that is
  deployed now.

  \<open>get_estimation\<close> reads the allocator's deployed allocation and the monitor's last curve and usage
  through the two references the estimator holds; the record \<open>est_env\<close> is what it sees there.  Prints
  are left out.
\<close>

section \<open>Data\<close>

text \<open>A curve is a list of points: cache size in MB, miss rate.\<close>

type_synonym mrc = "(rat \<times> rat) list"

record usage =
  u_cache :: rat
  u_mem_bw :: rat

text \<open>A deployed allocation, in MB and Mbps.\<close>

record deployed =
  d_cache :: int
  d_mem_bw :: int

type_synonym deployment = "(int, deployed) dict"

text \<open>\<open>env_alloc\<close> is \<open>None\<close> when no allocator is set and \<open>Some None\<close> before its first deployment;
  \<open>env_monitor\<close> is \<open>None\<close> when no monitor is set, and otherwise its \<open>get_last_mrc\<close> and
  \<open>get_last_usage\<close>.\<close>

record est_env =
  env_alloc :: "deployment option option"
  env_monitor :: "((int \<Rightarrow> mrc) \<times> (int \<Rightarrow> usage option)) option"

text \<open>An entry of the configuration's profiles, as read from JSON.\<close>

record profile =
  pf_user_id :: "int option"
  pf_file :: "string option"
  pf_sensitivity :: "string option"
  pf_oracle :: "(int option \<times> int option) option"
  pf_clip_l3miss :: "rat option"
  pf_clip_iteration :: "rat option"

record estimator =
  profiles_config :: "profile list option"
  l3miss_clip :: "(int, rat) dict"
  iteration_clip :: "(int, rat) dict"
  e_num_vms :: "int option"

section \<open>Configuration\<close>

definition init_estimator :: estimator where
  "init_estimator =
     \<lparr>profiles_config = None, l3miss_clip = [], iteration_clip = [], e_num_vms = None\<rparr>"

definition read_profile :: "profile \<Rightarrow> estimator \<Rightarrow> estimator res" where
  "read_profile entry e =
    (case (pf_user_id entry, pf_file entry) of
       (Some u, Some _) \<Rightarrow>
         (let e1 = (case pf_clip_l3miss entry of None \<Rightarrow> e
                    | Some x \<Rightarrow> e\<lparr>l3miss_clip := dict_set u x (l3miss_clip e)\<rparr>);
              e2 = (case pf_clip_iteration entry of None \<Rightarrow> e1
                    | Some x \<Rightarrow> e1\<lparr>iteration_clip := dict_set u x (iteration_clip e1)\<rparr>)
          in Inr e2)
     | _ \<Rightarrow> Inl KeyError)"

text \<open>The arguments are what the JSON file holds under \<open>profiles\<close> and under \<open>cluster\<close>/\<open>num_vms\<close>, if
  anything.\<close>

definition read_config :: "profile list option \<Rightarrow> int option \<Rightarrow> estimator \<Rightarrow> estimator res" where
  "read_config profiles num_vms e =
    (let e' = e\<lparr>e_num_vms := num_vms\<rparr> in
     case profiles of
       None \<Rightarrow> Inr e'
     | Some ps \<Rightarrow> rfold read_profile ps (e'\<lparr>profiles_config := Some ps\<rparr>))"

definition get_app_ids :: "estimator \<Rightarrow> int list res" where
  "get_app_ids e =
    (case profiles_config e of
       None \<Rightarrow> Inl TypeError
     | Some ps \<Rightarrow>
         rfold (\<lambda>p ids. case pf_user_id p of None \<Rightarrow> Inl KeyError | Some u \<Rightarrow> Inr (ids @ [u])) ps [])"

definition get_app_num :: "estimator \<Rightarrow> nat res" where
  "get_app_num e = (case profiles_config e of None \<Rightarrow> Inl TypeError | Some ps \<Rightarrow> Inr (length ps))"

definition get_num_vms :: "estimator \<Rightarrow> int" where
  "get_num_vms e = (case e_num_vms e of None \<Rightarrow> 1 | Some n \<Rightarrow> n)"

definition add_sensitivity :: "profile \<Rightarrow> (string, int list) dict \<Rightarrow> (string, int list) dict" where
  "add_sensitivity p d =
    (case (pf_user_id p, pf_sensitivity p) of
       (Some u, Some k) \<Rightarrow> dict_set k ((case map_of d k of None \<Rightarrow> [] | Some us \<Rightarrow> us) @ [u]) d
     | _ \<Rightarrow> d)"

definition get_sensitivity :: "estimator \<Rightarrow> (string, int list) dict res" where
  "get_sensitivity e =
    (case profiles_config e of
       None \<Rightarrow> Inl TypeError
     | Some ps \<Rightarrow>
         (let d = fold add_sensitivity ps [] in
          if length d = 0 then Inl ValueError else Inr d))"

section \<open>Miss rates\<close>

definition interpolate :: "rat \<times> rat \<Rightarrow> rat \<times> rat \<Rightarrow> rat \<Rightarrow> rat" where
  "interpolate p0 p1 cache_size =
     snd p0 + (snd p1 - snd p0) * (cache_size - fst p0) / max (fst p1 - fst p0) (1 / 1000000)"

text \<open>The loop over the indices: the first interval whose right end is not below the size.\<close>

fun find_interval :: "mrc \<Rightarrow> rat \<Rightarrow> ((rat \<times> rat) \<times> (rat \<times> rat)) option" where
  "find_interval (p0 # p1 # ps) c = (if c \<le> fst p1 then Some (p0, p1) else find_interval (p1 # ps) c)"
| "find_interval _ c = None"

definition estimate_miss_rate :: "mrc \<Rightarrow> rat \<Rightarrow> rat res" where
  "estimate_miss_rate mrc_data cache_size =
    (let n = length mrc_data in
     if n = 0 then Inl IndexError
     else if cache_size \<le> fst (mrc_data ! 0) then
       (if n < 2 then Inl IndexError
        else Inr (interpolate (mrc_data ! 0) (mrc_data ! 1) cache_size))
     else if cache_size \<ge> fst (mrc_data ! (n - 1)) then
       (if n < 2 then Inl IndexError
        else Inr (interpolate (mrc_data ! (n - 2)) (mrc_data ! (n - 1)) cache_size))
     else
       (case find_interval mrc_data cache_size of
          None \<Rightarrow> Inl (PyException ''UnboundLocalError'')
        | Some (p0, p1) \<Rightarrow> Inr (interpolate p0 p1 cache_size)))"

section \<open>Slowdown\<close>

definition estimate_slow_down :: "rat \<Rightarrow> rat \<Rightarrow> rat \<Rightarrow> rat \<Rightarrow> rat \<Rightarrow> (rat \<times> rat) res" where
  "estimate_slow_down current_miss_rate target_miss_rate current_bw target_bw current_alloc_bw =
    (let loc_to_ret_slowdown = 100;
         margin = 8 / 10;
         target_bw_mbps = max 1 target_bw;
         current_bw_mbps = max 1 current_bw
     in
     rbind (fdiv target_miss_rate current_miss_rate) (\<lambda>ratio.
     rbind
       (if current_bw_mbps \<le> current_alloc_bw * margin \<or> current_bw_mbps > target_bw_mbps
        then Inr (current_bw_mbps * ratio)
        else
          let current' = (if current_bw_mbps \<ge> current_alloc_bw * margin
                          then current_alloc_bw else current_bw_mbps)
          in rbind (fdiv current' current_alloc_bw) (\<lambda>q. Inr (target_bw_mbps * min 1 q * ratio)))
       (\<lambda>bw_est.
     rbind (fdiv bw_est current_alloc_bw) (\<lambda>load.
     let cur_slowdown = 1 + current_miss_rate * loc_to_ret_slowdown * max 1 load;
         slowdown = 1 + target_miss_rate * loc_to_ret_slowdown * max 1 (bw_est / target_bw_mbps)
     in rbind (fdiv slowdown cur_slowdown) (\<lambda>s. Inr (s, bw_est))))))"

definition get_estimation :: "est_env \<Rightarrow> estimation" where
  "get_estimation env user_id cache_in_mb bw_in_gbps =
    (case env_alloc env of
       None \<Rightarrow> Inr (- 1)
     | Some None \<Rightarrow> Inl TypeError
     | Some (Some d) \<Rightarrow>
    (case map_of d user_id of
       None \<Rightarrow> Inr (- 1)
     | Some current_alloc \<Rightarrow>
    (case env_monitor env of
       None \<Rightarrow> Inr (- 1)
     | Some (get_last_mrc, get_last_usage) \<Rightarrow>
         if get_last_mrc user_id = [] then Inr (- 1)
         else
    (case get_last_usage user_id of
       None \<Rightarrow> Inr (- 1)
     | Some last_usage \<Rightarrow>
         rbind (estimate_miss_rate (get_last_mrc user_id) (of_int (d_cache current_alloc))) (\<lambda>cur_mr.
         rbind (estimate_miss_rate (get_last_mrc user_id) cache_in_mb) (\<lambda>tar_mr.
         if cur_mr < 0 \<or> tar_mr < 0 then Inr (- 1)
         else
           let cur_mr' = (if cur_mr \<le> 1 / 10 ^ 12 then 1 / 10 ^ 12 else cur_mr);
               tar_mr' = (if tar_mr \<le> 1 / 10 ^ 12 then 1 / 10 ^ 12 else tar_mr)
           in
           rbind (estimate_slow_down cur_mr' tar_mr' (u_mem_bw last_usage) (bw_in_gbps * 1024)
                    (of_int (d_mem_bw current_alloc))) (\<lambda>(slowdown, bw_est).
           Inr (1 / max (1 / 10000) slowdown))))))))"

definition get_util_from_allocation ::
  "est_env \<Rightarrow> resource_scale \<Rightarrow> allocs \<Rightarrow> (int, rat) dict res" where
  "get_util_from_allocation env rs allocation =
     rfold (\<lambda>(user_id, a) utility.
       rbind (get_estimation env user_id (cache a * rs_cache rs) (mem_bw a * rs_mem_bw rs)) (\<lambda>util.
       Inr (dict_set user_id util utility))) allocation []"

section \<open>Specification\<close>

text \<open>A curve the interpolation is meant for: at least two points, sizes at least \<open>1e-6\<close> apart and
  increasing.\<close>

fun gapped :: "mrc \<Rightarrow> bool" where
  "gapped (p0 # p1 # ps) = (fst p0 + 1 / 1000000 \<le> fst p1 \<and> gapped (p1 # ps))"
| "gapped _ = True"

definition wf_mrc :: "mrc \<Rightarrow> bool" where
  "wf_mrc m \<longleftrightarrow> 2 \<le> length m \<and> gapped m"

text \<open>Larger caches do not miss more.\<close>

fun decreasing :: "mrc \<Rightarrow> bool" where
  "decreasing (p0 # p1 # ps) = (snd p1 \<le> snd p0 \<and> decreasing (p1 # ps))"
| "decreasing _ = True"

text \<open>The piecewise linear function through the points of a curve, its first and last piece extended.\<close>

fun piecewise :: "mrc \<Rightarrow> rat \<Rightarrow> rat" where
  "piecewise [p0, p1] c = snd p0 + (snd p1 - snd p0) * (c - fst p0) / (fst p1 - fst p0)"
| "piecewise (p0 # p1 # p2 # ps) c =
     (if c \<le> fst p1 then snd p0 + (snd p1 - snd p0) * (c - fst p0) / (fst p1 - fst p0)
      else piecewise (p1 # p2 # ps) c)"
| "piecewise _ c = 0"

text \<open>The estimator has what it needs to answer for a user.\<close>

definition est_ready :: "est_env \<Rightarrow> int \<Rightarrow> bool" where
  "est_ready env u \<longleftrightarrow>
    (case env_alloc env of
       None \<Rightarrow> True
     | Some None \<Rightarrow> False
     | Some (Some d) \<Rightarrow>
         (case map_of d u of None \<Rightarrow> True | Some a \<Rightarrow>
            0 < d_mem_bw a \<and>
            (case env_monitor env of None \<Rightarrow> True
             | Some (m, _) \<Rightarrow> m u = [] \<or> 2 \<le> length (m u))))"

section \<open>The miss rate is the piecewise linear interpolation of the curve\<close>

lemma interpolate_gap:
  "fst p0 + 1 / 1000000 \<le> fst p1 \<Longrightarrow>
   interpolate p0 p1 c = snd p0 + (snd p1 - snd p0) * (c - fst p0) / (fst p1 - fst p0)"
  by (simp add: interpolate_def max_def)

lemma gapped_first_le: "gapped (p # ps) \<Longrightarrow> q \<in> set ps \<Longrightarrow> fst p < fst q"
proof (induction ps arbitrary: p)
  case (Cons p1 ps)
  have "fst p < fst p1" using Cons.prems(1) by simp
  moreover have "fst p1 < fst q" if "q \<noteq> p1" using Cons that by simp
  ultimately show ?case by (cases "q = p1") auto
qed simp

lemma wf_mrc_Cons: "wf_mrc (p0 # p1 # p2 # ps) \<Longrightarrow> wf_mrc (p1 # p2 # ps)"
  by (simp add: wf_mrc_def)

lemma find_interval_piecewise:
  "wf_mrc m \<Longrightarrow> c \<le> fst (last m) \<Longrightarrow>
   \<exists>p0 p1. find_interval m c = Some (p0, p1) \<and> interpolate p0 p1 c = piecewise m c"
proof (induction m c rule: piecewise.induct)
  case (2 p0 p1 p2 ps c)
  show ?case
  proof (cases "c \<le> fst p1")
    case False
    then show ?thesis using 2 wf_mrc_Cons by (simp del: piecewise.simps(1))
  qed (use 2 in \<open>auto simp: wf_mrc_def interpolate_gap\<close>)
qed (auto simp: wf_mrc_def interpolate_gap)

lemma piecewise_last:
  "wf_mrc m \<Longrightarrow> fst (last m) \<le> c \<Longrightarrow>
   interpolate (m ! (length m - 2)) (m ! (length m - 1)) c = piecewise m c"
proof (induction m c rule: piecewise.induct)
  case (2 p0 p1 p2 ps c)
  have "fst p1 < fst (last (p2 # ps))"
    using 2(2) gapped_first_le [of p1 "p2 # ps" "last (p2 # ps)"] by (simp add: wf_mrc_def)
  then have "\<not> c \<le> fst p1" using 2(3) by simp
  then show ?case using 2 wf_mrc_Cons by (simp add: nth_Cons' numeral_2_eq_2)
qed (auto simp: wf_mrc_def interpolate_gap)

lemma piecewise_first:
  "wf_mrc (p0 # p1 # ps) \<Longrightarrow> c \<le> fst p1 \<Longrightarrow>
   piecewise (p0 # p1 # ps) c = snd p0 + (snd p1 - snd p0) * (c - fst p0) / (fst p1 - fst p0)"
  by (cases ps) auto

lemma wf_mrcE:
  assumes "wf_mrc m"
  obtains p0 p1 ps where "m = p0 # p1 # ps" "fst p0 + 1 / 1000000 \<le> fst p1"
proof -
  obtain p0 m' where "m = p0 # m'" using assms by (cases m) (auto simp: wf_mrc_def)
  moreover obtain p1 ps where "m' = p1 # ps" using assms calculation by (cases m') (auto simp: wf_mrc_def)
  ultimately show thesis using that assms by (simp add: wf_mrc_def)
qed

lemma estimate_miss_rate_piecewise_eq:
  assumes "wf_mrc m"
  shows "estimate_miss_rate m c = Inr (piecewise m c)"
proof -
  obtain p0 p1 ps where m: "m = p0 # p1 # ps" "fst p0 + 1 / 1000000 \<le> fst p1"
    using assms by (rule wf_mrcE)
  have last: "m ! (length m - 1) = last m" using m(1) by (simp add: last_conv_nth)
  consider "c \<le> fst p0" | "fst p0 < c" "fst (last m) \<le> c" | "fst p0 < c" "c < fst (last m)"
    by linarith
  then show ?thesis
  proof cases
    case 1
    then show ?thesis
      using m piecewise_first [of p0 p1 ps c] assms
      by (simp add: estimate_miss_rate_def Let_def interpolate_gap)
  next
    case 2
    then show ?thesis using m piecewise_last [OF assms 2(2)] last
      by (simp add: estimate_miss_rate_def Let_def)
  next
    case 3
    then obtain q0 q1 where "find_interval m c = Some (q0, q1)" "interpolate q0 q1 c = piecewise m c"
      using find_interval_piecewise [OF assms, of c] by auto
    then show ?thesis using m last 3 by (simp add: estimate_miss_rate_def Let_def del: find_interval.simps)
  qed
qed

text \<open>C12. For every curve with at least two points whose sizes increase in steps of at least \<open>1e-6\<close>,
  \<open>estimate_miss_rate\<close> does not raise and returns the value of the piecewise linear function through the
  points, with the first and the last piece extended beyond the measured sizes.\<close>

theorem estimate_miss_rate_piecewise:
  "wf_mrc m \<Longrightarrow> estimate_miss_rate m c = Inr (piecewise m c)"
  by (rule estimate_miss_rate_piecewise_eq)

theorem estimate_miss_rate_piecewise_witness:
  "wf_mrc [(1000, 1 / 2), (2000, 1 / 4), (4000, 1 / 8)] \<and>
   estimate_miss_rate [(1000, 1 / 2), (2000, 1 / 4), (4000, 1 / 8)] 3000 = Inr (3 / 16)"
  using estimate_miss_rate_piecewise [of "[(1000, 1 / 2), (2000, 1 / 4), (4000, 1 / 8)]" 3000]
  by (simp add: wf_mrc_def)

lemma piecewise_at_first: "wf_mrc (p0 # p1 # ps) \<Longrightarrow> piecewise (p0 # p1 # ps) (fst p0) = snd p0"
  by (subst piecewise_first) (auto simp: wf_mrc_def)

lemma piece_antitone:
  fixes y0 y1 :: rat
  assumes "y1 \<le> y0" "x0 < x1" "c \<le> c'"
  shows "y0 + (y1 - y0) * (c' - x0) / (x1 - x0) \<le> y0 + (y1 - y0) * (c - x0) / (x1 - x0)"
proof -
  have "(y1 - y0) * (c' - x0) \<le> (y1 - y0) * (c - x0)"
    using assms by (intro mult_left_mono_neg) auto
  then show ?thesis using assms(2) by (simp add: divide_right_mono)
qed

lemma piecewise_antitone:
  "wf_mrc m \<Longrightarrow> decreasing m \<Longrightarrow> c \<le> c' \<Longrightarrow> piecewise m c' \<le> piecewise m c"
proof (induction m arbitrary: c rule: gapped.induct)
  case (1 p0 p1 ps)
  have gap: "fst p0 < fst p1" "snd p1 \<le> snd p0" using 1(2,3) by (simp_all add: wf_mrc_def)
  note first = piecewise_first [OF 1(2)]
  show ?case
  proof (cases "ps = [] \<or> c' \<le> fst p1")
    case True
    then show ?thesis
      using piece_antitone [OF gap(2,1) 1(4)] 1(4) first by (cases ps) auto
  next
    case False
    then obtain p2 qs where ps: "ps = p2 # qs" and c': "fst p1 < c'" by (cases ps) auto
    have wf: "wf_mrc (p1 # ps)" using 1(2) ps wf_mrc_Cons by simp
    note IH = 1(1) [OF wf]
    show ?thesis
    proof (cases "c \<le> fst p1")
      case True
      have "piecewise (p1 # ps) c' \<le> snd p1"
        using IH [of "fst p1"] c' piecewise_at_first wf 1(3) ps by simp
      also have "\<dots> \<le> piecewise (p0 # p1 # ps) c"
        using piece_antitone [OF gap(2,1) True] gap(1) first [OF True] by simp
      finally show ?thesis using c' ps by simp
    next
      case False
      then show ?thesis using IH [of c] 1(3,4) c' ps by simp
    qed
  qed
qed (auto simp: wf_mrc_def)

lemma piecewise_at_last: "wf_mrc m \<Longrightarrow> piecewise m (fst (last m)) = snd (last m)"
proof (induction m rule: gapped.induct)
  case (1 p0 p1 ps)
  show ?case
  proof (cases ps)
    case Nil
    then show ?thesis using 1(2) by (simp add: wf_mrc_def)
  next
    case (Cons p2 qs)
    have "fst p1 < fst (last ps)"
      using 1(2) Cons gapped_first_le [of p1 ps "last ps"] by (simp add: wf_mrc_def)
    then show ?thesis using 1 Cons wf_mrc_Cons by simp
  qed
qed (auto simp: wf_mrc_def)

text \<open>C17. On a decreasing curve the estimated miss rate does not grow with the cache size, and within the
  measured sizes it stays between the last and the first measured miss rate.\<close>

theorem estimate_miss_rate_monotone:
  assumes "wf_mrc m" and "decreasing m" and "c \<le> c'"
    and "estimate_miss_rate m c = Inr r" and "estimate_miss_rate m c' = Inr r'"
  shows "r' \<le> r \<and> (fst (hd m) \<le> c \<longrightarrow> r \<le> snd (hd m)) \<and> (c' \<le> fst (last m) \<longrightarrow> snd (last m) \<le> r')"
proof -
  have r: "r = piecewise m c" "r' = piecewise m c'"
    using assms(4,5) estimate_miss_rate_piecewise_eq [OF assms(1)] by auto
  obtain p0 p1 ps where "m = p0 # p1 # ps" using assms(1) by (rule wf_mrcE)
  then have "piecewise m (fst (hd m)) = snd (hd m)" using piecewise_at_first assms(1) by simp
  then show ?thesis
    using piecewise_antitone [OF assms(1,2)] piecewise_at_last [OF assms(1)] assms(3) r
    by metis
qed

theorem estimate_miss_rate_monotone_witness:
  "9 / 20 \<ge> (7 / 20 :: rat) \<and> 9 / 20 \<le> (1 / 2 :: rat) \<and> 1 / 4 \<le> (7 / 20 :: rat) \<and>
   estimate_miss_rate [(1000, 1 / 2), (2000, 1 / 4)] 1200 = Inr (9 / 20) \<and>
   estimate_miss_rate [(1000, 1 / 2), (2000, 1 / 4)] 1600 = Inr (7 / 20)"
proof -
  let ?m = "[(1000, 1 / 2), (2000, 1 / 4)] :: mrc"
  have "estimate_miss_rate ?m 1200 = Inr (9 / 20)" "estimate_miss_rate ?m 1600 = Inr (7 / 20)"
    by (simp_all add: estimate_miss_rate_def interpolate_def)
  moreover from this
  have "(7 / 20 :: rat) \<le> 9 / 20 \<and> (9 / 20 :: rat) \<le> 1 / 2 \<and> 1 / 4 \<le> (7 / 20 :: rat)"
    using estimate_miss_rate_monotone [of ?m 1200 1600 "9 / 20" "7 / 20"] by (simp add: wf_mrc_def)
  ultimately show ?thesis by blast
qed

section \<open>The estimate\<close>

text \<open>The bandwidth that the estimate expects the application to ask for: its traffic scales with the
  miss rate, and it is clipped by what it is given when it already uses all it has.\<close>

definition bw_demand :: "rat \<Rightarrow> rat \<Rightarrow> rat \<Rightarrow> rat \<Rightarrow> rat" where
  "bw_demand ratio bw tbw alloc =
     (if bw \<le> alloc * (8 / 10) then bw else max bw tbw) * ratio"

lemma estimate_slow_down_eq:
  assumes "0 < cur" and "0 < alloc"
  shows "estimate_slow_down cur tar bw tbw alloc =
    (let d = bw_demand (tar / cur) (max 1 bw) (max 1 tbw) alloc
     in Inr ((1 + tar * 100 * max 1 (d / max 1 tbw)) / (1 + cur * 100 * max 1 (d / alloc)), d))"
proof -
  define x where "x = max 1 bw"
  define y where "y = max 1 tbw"
  define r where "r = tar / cur"
  have nz: "cur \<noteq> 0" "alloc \<noteq> 0" using assms by auto
  have pos: "1 + cur * 100 * max 1 z \<noteq> 0" for z
  proof -
    have "0 < cur * 100 * max 1 z" using assms(1) by (intro mult_pos_pos) auto
    then show ?thesis by linarith
  qed
  have d: "(if x \<le> alloc * (8 / 10) \<or> x > y then Inr (x * r)
        else let z = (if x \<ge> alloc * (8 / 10) then alloc else x)
             in rbind (fdiv z alloc) (\<lambda>q. Inr (y * min 1 q * r))) = Inr (bw_demand r x y alloc)"
    using nz by (auto simp: bw_demand_def fdiv_nonzero Let_def)
  show ?thesis
    unfolding estimate_slow_down_def Let_def x_def [symmetric] y_def [symmetric]
      fdiv_nonzero [OF nz(1)] fdiv_nonzero [OF nz(2)] fdiv_nonzero [OF pos] rbind_Inr
      r_def [symmetric] d [unfolded Let_def fdiv_nonzero [OF nz(2)] rbind_Inr] ..
qed

lemma estimate_slow_down_raises:
  "0 < cur \<Longrightarrow> alloc = 0 \<Longrightarrow> estimate_slow_down cur tar bw tbw alloc = Inl ZeroDivisionError"
  by (auto simp: estimate_slow_down_def Let_def fdiv_def)

lemma get_estimation_cases:
  obtains (unknown) "\<And>b. get_estimation env u c b = Inr (- 1)"
  | (raises) e where "\<And>b. get_estimation env u c b = Inl e"
  | (estimated) d a bw cur tar where
      "env_alloc env = Some (Some d)" "map_of d u = Some a" "0 < cur" "0 < tar"
      "c = of_int (d_cache a) \<Longrightarrow> tar = cur"
      "\<And>b. get_estimation env u c b =
         rbind (estimate_slow_down cur tar bw (b * 1024) (of_int (d_mem_bw a)))
           (\<lambda>(slowdown, bw_est). Inr (1 / max (1 / 10000) slowdown))"
proof -
  note def = get_estimation_def
  consider "env_alloc env = None" | "env_alloc env = Some None"
    | d where "env_alloc env = Some (Some d)" "map_of d u = None"
    | d a where "env_alloc env = Some (Some d)" "map_of d u = Some a" "env_monitor env = None"
    | d a m us where "env_alloc env = Some (Some d)" "map_of d u = Some a"
        "env_monitor env = Some (m, us)" "m u = [] \<or> us u = None"
    | d a m us l where "env_alloc env = Some (Some d)" "map_of d u = Some a"
        "env_monitor env = Some (m, us)" "m u \<noteq> []" "us u = Some l"
    by (metis (no_types, opaque_lifting) not_None_eq prod.exhaust)
  then show thesis
  proof cases
    case 6
    show thesis
    proof (cases "estimate_miss_rate (m u) (of_int (d_cache a))")
      case (Inl e)
      then show thesis using raises [of e] 6 by (simp add: def)
    next
      case cm: (Inr cm)
      show thesis
      proof (cases "estimate_miss_rate (m u) c")
        case (Inl e)
        then show thesis using raises [of e] 6 cm by (simp add: def)
      next
        case tm: (Inr tm)
        show thesis
        proof (cases "cm < 0 \<or> tm < 0")
          case True
          then show thesis using unknown 6 cm tm by (simp add: def)
        next
          case False
          let ?clip = "\<lambda>r::rat. if r \<le> 1 / 10 ^ 12 then 1 / 10 ^ 12 else r"
          have "0 < ?clip cm" "0 < ?clip tm" by auto
          moreover have "c = of_int (d_cache a) \<Longrightarrow> ?clip tm = ?clip cm" using cm tm by simp
          ultimately show thesis using estimated [OF 6(1,2), of "?clip cm" "?clip tm" "u_mem_bw l"] False
            by (simp add: def 6 cm tm Let_def)
        qed
      qed
    qed
  qed (use unknown raises in \<open>auto simp: def\<close>)
qed

text \<open>A user that saturates the bandwidth it has.\<close>

definition thrash_env :: est_env where
  "thrash_env =
     \<lparr>env_alloc = Some (Some [(1, \<lparr>d_cache = 1000, d_mem_bw = 100\<rparr>)]),
      env_monitor = Some (\<lambda>_. [(1000, 1 / 2), (2000, 1 / 20)],
                          \<lambda>_. Some \<lparr>u_cache = 1000, u_mem_bw = 100\<rparr>)\<rparr>"

lemmas thrash_simps = thrash_env_def get_estimation_def estimate_miss_rate_def interpolate_def Let_def
  estimate_slow_down_eq bw_demand_def

lemma thrash_estimates:
  "get_estimation thrash_env 1 1000 (1000 / 1024) = Inr (501 / 51)"
  "get_estimation thrash_env 1 2000 (1000 / 1024) = Inr (51 / 6)"
  by (simp_all add: thrash_simps)

lemma inverse_clip_range: "0 < 1 / max (1 / 10000) (s::rat)" "1 / max (1 / 10000) s \<le> 10000"
  by (auto simp: field_simps max_def)

text \<open>Every utility that \<open>get_estimation\<close> returns is the marker \<open>-1\<close> for "unknown" or a relative
  performance above 0 and at most 10000.\<close>

lemma get_estimation_range:
  assumes "get_estimation env u c b = Inr v"
  shows "v = - 1 \<or> 0 < v \<and> v \<le> 10000"
  using assms
  by (cases rule: get_estimation_cases [of env u c]) (auto simp: rbind_eq_Inr inverse_clip_range)


lemma estimate_miss_rate_returns [returns_intros]:
  assumes "2 \<le> length m"
  shows "returns (estimate_miss_rate m c)"
proof -
  have *: "find_interval m c \<noteq> None" if "c \<le> fst (last m)"
    using that assms
  proof (induction m c rule: find_interval.induct)
    case (1 p0 p1 ps c)
    then show ?case by (cases ps) auto
  qed auto
  have "m ! (length m - 1) = last m" using assms by (subst last_conv_nth) auto
  then show ?thesis using assms * unfolding estimate_miss_rate_def Let_def
    by (cases "find_interval m c") (auto intro!: returns_intros)
qed

lemma estimate_slow_down_returns [returns_intros]:
  "0 < cur \<Longrightarrow> 0 < alloc \<Longrightarrow> returns (estimate_slow_down cur tar bw tbw alloc)"
  by (simp add: estimate_slow_down_eq Let_def)

lemma get_estimation_returns:
  "est_ready env u \<Longrightarrow> returns (get_estimation env u c b)"
  unfolding get_estimation_def est_ready_def
  by (auto intro!: returns_intros split: option.splits)

interpretation rt: utility_estimator get_estimation est_ready
  by unfold_locales (rule get_estimation_returns)

section \<open>Behaviour of the estimate\<close>

lemma bw_demand_mono:
  "0 \<le> ratio \<Longrightarrow> y \<le> y' \<Longrightarrow> bw_demand ratio x y alloc \<le> bw_demand ratio x y' alloc"
  by (auto simp: bw_demand_def intro: mult_right_mono)

lemma bw_demand_share_antimono:
  assumes "0 \<le> ratio" and "0 < x" and "0 < y" and "y \<le> y'"
  shows "bw_demand ratio x y' alloc / y' \<le> bw_demand ratio x y alloc / y"
proof -
  have scale: "a * ratio / y' \<le> b * ratio / y" if "a * y \<le> b * y'" for a b
    using mult_right_mono [OF that assms(1)] assms(3,4) by (simp add: field_simps)
  have "x * y \<le> x * y'" using assms by simp
  moreover have "max x y' * y \<le> max x y * y'"
    using assms by (auto simp: max_def mult.commute mult_le_cancel_left intro: mult_mono)
  ultimately show ?thesis by (auto simp: bw_demand_def intro!: scale)
qed

text \<open>C18. Utility is monotone in bandwidth: for a user the estimator can answer for, a larger target
  bandwidth at the same cache size never gets a smaller estimate.\<close>

theorem get_estimation_mono_bandwidth:
  assumes ready: "est_ready env u" and le: "b \<le> b'"
    and v: "get_estimation env u c b = Inr v" and v': "get_estimation env u c b' = Inr v'"
  shows "v \<le> v'"
proof (cases rule: get_estimation_cases [of env u c])
  case (estimated d a bw cur tar)
  define alloc :: rat where "alloc = of_int (d_mem_bw a)"
  have alloc: "0 < alloc" using ready estimated(1,2) by (simp add: est_ready_def alloc_def)
  define D where "D y = bw_demand (tar / cur) (max 1 bw) y alloc" for y
  define S where "S y = (1 + tar * 100 * max 1 (D y / y)) / (1 + cur * 100 * max 1 (D y / alloc))" for y
  have eq: "get_estimation env u c b = Inr (1 / max (1 / 10000) (S (max 1 (b * 1024))))" for b
    using estimated(6) [of b] estimate_slow_down_eq [OF estimated(3) alloc]
    by (simp add: alloc_def S_def D_def Let_def)
  have "S y' \<le> S y" if "1 \<le> y" "y \<le> y'" for y y'
  proof -
    have "D y' / y' \<le> D y / y" "D y / alloc \<le> D y' / alloc"
      using estimated(3,4) that alloc
      by (auto simp: D_def intro!: bw_demand_share_antimono bw_demand_mono divide_right_mono)
    then have "1 + tar * 100 * max 1 (D y' / y') \<le> 1 + tar * 100 * max 1 (D y / y)"
      "1 + cur * 100 * max 1 (D y / alloc) \<le> 1 + cur * 100 * max 1 (D y' / alloc)"
      using estimated(3,4) by (auto intro!: mult_left_mono max.mono)
    moreover have "0 < 1 + cur * 100 * max 1 z" "0 \<le> 1 + tar * 100 * max 1 z" for z
      using estimated(3,4) by (auto intro!: add_pos_nonneg add_nonneg_nonneg mult_nonneg_nonneg)
    ultimately show ?thesis unfolding S_def by (intro frac_le)
  qed
  then have "S (max 1 (b' * 1024)) \<le> S (max 1 (b * 1024))" using le by (simp add: max.coboundedI2)
  then have "max (1 / 10000) (S (max 1 (b' * 1024))) \<le> max (1 / 10000) (S (max 1 (b * 1024)))"
    by (rule max.mono [OF order_refl])
  then have "1 / max (1 / 10000) (S (max 1 (b * 1024))) \<le> 1 / max (1 / 10000) (S (max 1 (b' * 1024)))"
    by (intro divide_left_mono) (auto intro!: mult_pos_pos simp: less_max_iff_disj)
  then show ?thesis using v v' eq by simp
qed (use v v' in auto)

theorem get_estimation_mono_bandwidth_witness:
  "est_ready thrash_env 1 \<and> get_estimation thrash_env 1 1000 (100 / 1024) = Inr 1 \<and>
   get_estimation thrash_env 1 1000 (1000 / 1024) = Inr (501 / 51) \<and> 1 \<le> (501 / 51 :: rat)"
proof (intro conjI)
  show *: "est_ready thrash_env 1" by (simp add: est_ready_def thrash_env_def)
  show v: "get_estimation thrash_env 1 1000 (100 / 1024) = Inr 1" by (simp add: thrash_simps)
  show v': "get_estimation thrash_env 1 1000 (1000 / 1024) = Inr (501 / 51)" by (rule thrash_estimates)
  show "1 \<le> (501 / 51 :: rat)" by (rule get_estimation_mono_bandwidth [OF * _ v v']) simp
qed

text \<open>The estimate is relative to the deployed allocation: asked for exactly the cache and bandwidth that a
  user has now, it answers 1 (the performance does not change), or the marker \<open>-1\<close>.\<close>

lemma get_estimation_current:
  assumes "env_alloc env = Some (Some d)" and "map_of d u = Some a" and "1 \<le> d_mem_bw a"
    and "get_estimation env u (of_int (d_cache a)) (of_int (d_mem_bw a) / 1024) = Inr v"
  shows "v = 1 \<or> v = - 1"
proof (cases rule: get_estimation_cases [of env u "of_int (d_cache a)"])
  case (estimated d' a' bw cur tar)
  have [simp]: "a' = a" using estimated(1,2) assms(1,2) by simp
  have [simp]: "tar = cur" using estimated(5) by simp
  have bw: "(0::rat) < of_int (d_mem_bw a)" "max (1::rat) (of_int (d_mem_bw a)) = of_int (d_mem_bw a)"
    using assms(3) by auto
  have pos: "1 + cur * 100 * max 1 z \<noteq> 0" for z
  proof -
    have "0 < cur * 100 * max 1 z" using estimated(3) by (intro mult_pos_pos) auto
    then show ?thesis by linarith
  qed
  have "of_int (d_mem_bw a) / 1024 * 1024 = (of_int (d_mem_bw a) :: rat)" by simp
  then have "get_estimation env u (of_int (d_cache a)) (of_int (d_mem_bw a) / 1024) =
      Inr (1 / max (1 / 10000) 1)"
    unfolding estimated(6) \<open>a' = a\<close> \<open>tar = cur\<close>
    by (simp only: estimate_slow_down_eq [OF estimated(3) bw(1)] bw(2) Let_def rbind_Inr prod.case
        divide_self [OF pos])
  then show ?thesis using assms(4) by simp
qed (use assms in auto)

text \<open>The estimate is not monotone in cache: for a saturated user whose curve is decreasing, at the same
  target bandwidth, doubling the cache lowers the estimated utility.\<close>

lemma get_estimation_cache_not_monotone:
  "\<exists>env m us u c c' b v v'. env_monitor env = Some (m, us) \<and> wf_mrc (m u) \<and> decreasing (m u) \<and>
     c < c' \<and> get_estimation env u c b = Inr v \<and> get_estimation env u c' b = Inr v' \<and> v' < v"
proof -
  have "env_monitor thrash_env = Some (\<lambda>_. [(1000, 1 / 2), (2000, 1 / 20)],
      \<lambda>_. Some \<lparr>u_cache = 1000, u_mem_bw = 100\<rparr>)"
    by (simp add: thrash_env_def)
  moreover have "wf_mrc [(1000, 1 / 2), (2000, 1 / 20)]" "decreasing [(1000, 1 / 2), (2000, 1 / 20)]"
    by (simp_all add: wf_mrc_def)
  moreover have "(1000::rat) < 2000" "(51 / 6 :: rat) < 501 / 51" by simp_all
  ultimately show ?thesis using thrash_estimates by blast
qed

text \<open>C24. The search does not raise with the runtime estimator: for a user the estimator can answer for,
  positive prices, chunk size and totals, and a last allocation with positive amounts for the user, if
  there is one, \<open>ptas_algorithm\<close> returns.\<close>

theorem ptas_total:
  assumes "est_ready env u" and "0 < epsilon" and "0 < p_cache pv" and "0 < p_mem_bw pv"
    and "0 < rs_cache rs" and "0 < rs_mem_bw rs"
    and "\<forall>d. la = Some d \<longrightarrow> (\<exists>a. map_of d u = Some a \<and> 0 < cache a \<and> 0 < mem_bw a)"
  shows "\<exists>r n l. ptas_algorithm (get_estimation env) u epsilon budget pv la sta rs rng = Inr (r, n, l)"
  using rt.ptas_returns [of env u epsilon pv rs la budget sta rng] assms by (auto simp: returns_def)

theorem ptas_total_witness:
  "\<exists>r n l. ptas_algorithm (get_estimation thrash_env) 1 (1 / 4) (1 / 2) sample_price sample_last sample_last
     sample_scale sample_range = Inr (r, n, l)"
  by (rule ptas_total) (simp_all add: est_ready_def thrash_env_def sample_price_def sample_scale_def)

end
