(* ===== verification/Allocator.thy ===== *)
theory Allocator
  imports Estimator
begin

text \<open>
  \<open>src/res_allocation/allocators/allocator_base.py\<close>: what the allocators share.  Every allocator
  overrides \<open>allocate_and_parse\<close>; the base class calls it once per round and deploys what it returns.
  The theory has the inputs of a round, the equal shares that every allocator starts from, what it means
  for a deployment to fit the VMs, and the contract \<open>vm_allocator\<close> of an overriding method, with what
  follows for all rounds of a run.
\<close>

section \<open>The inputs of a round\<close>

text \<open>What an allocator reads in a round: the estimator's configuration (application ids and number of
  VMs), the monitor's mapping of VMs to applications and its record counts (\<open>None\<close> for a user without
  collected data), and what \<open>get_estimation\<close> sees.\<close>

type_synonym vm_map = "(int, int list) dict"

record round_input =
  ri_estimator :: estimator
  ri_vm_map :: vm_map
  ri_total_record :: "int \<Rightarrow> nat option"
  ri_env :: est_env
  ri_skip_monitoring :: bool

text \<open>\<open>[app_id for app_id in app_ids if app_id in users]\<close>\<close>

definition vm_users :: "int list \<Rightarrow> int list \<Rightarrow> int list" where
  "vm_users users app_ids = filter (\<lambda>a. a \<in> set users) app_ids"

definition mapped_apps :: "vm_map \<Rightarrow> int list" where
  "mapped_apps m = concat (map snd m)"

section \<open>Equal shares\<close>

text \<open>An equal share among \<open>n\<close> users, in MB and Mbps.\<close>

definition equal_share :: "resource_scale \<Rightarrow> int \<Rightarrow> deployed res" where
  "equal_share rs n =
     rbind (fdiv (rs_cache rs) (of_int n)) (\<lambda>c.
     rbind (fdiv (rs_mem_bw rs) (of_int n)) (\<lambda>b.
     Inr \<lparr>d_cache = py_int c, d_mem_bw = py_int (b * 1024)\<rparr>))"

text \<open>Without a VM mapping the users are cut into groups of \<open>users_per_vm\<close>, by their position: the number
  of users in the group of position \<open>idx\<close>.\<close>

definition users_in_this_vm :: "nat \<Rightarrow> int \<Rightarrow> nat \<Rightarrow> int" where
  "users_in_this_vm num_users num_vms idx =
    (let users_per_vm = max 1 (int num_users div num_vms);
         vm_idx = int idx div users_per_vm
     in if vm_idx < num_vms then users_per_vm else int num_users - vm_idx * users_per_vm)"

section \<open>Fitting a VM\<close>

definition cache_of :: "deployment \<Rightarrow> int \<Rightarrow> int" where
  "cache_of d u = (case map_of d u of None \<Rightarrow> 0 | Some a \<Rightarrow> d_cache a)"

definition mem_bw_of :: "deployment \<Rightarrow> int \<Rightarrow> int" where
  "mem_bw_of d u = (case map_of d u of None \<Rightarrow> 0 | Some a \<Rightarrow> d_mem_bw a)"

text \<open>The applications of one VM get at most the VM's cache and bandwidth, up to a relative slack.\<close>

definition vm_fits :: "resource_scale \<Rightarrow> rat \<Rightarrow> int list \<Rightarrow> deployment \<Rightarrow> bool" where
  "vm_fits rs slack apps d \<longleftrightarrow>
     (\<Sum>u\<leftarrow>apps. of_int (cache_of d u)) \<le> (1 + slack) * rs_cache rs \<and>
     (\<Sum>u\<leftarrow>apps. of_int (mem_bw_of d u)) \<le> (1 + slack) * (rs_mem_bw rs * 1024)"

definition fits :: "resource_scale \<Rightarrow> rat \<Rightarrow> int list \<Rightarrow> vm_map \<Rightarrow> deployment \<Rightarrow> bool" where
  "fits rs slack users m d \<longleftrightarrow> (\<forall>(vm, apps) \<in> set m. vm_fits rs slack (vm_users users apps) d)"

text \<open>A mapping in which no application is listed twice, in one VM or in two.\<close>

definition wf_vm_map :: "vm_map \<Rightarrow> bool" where
  "wf_vm_map m \<longleftrightarrow> wf_dict m \<and> distinct (mapped_apps m)"

section \<open>Rounds\<close>

lemma list_all2_promise: "list_all2 (\<lambda>_. P) xs ys \<longleftrightarrow> length xs = length ys \<and> (\<forall>y \<in> set ys. P y)"
  by (induction xs arbitrary: ys) (auto simp: list_all2_Cons1 length_Suc_conv Suc_length_conv)

text \<open>Successive calls of \<open>allocate_and_parse\<close>, one for each input, with what each returns.\<close>

fun rounds :: "('i \<Rightarrow> 's \<Rightarrow> ('s \<times> deployment) res) \<Rightarrow> 'i list \<Rightarrow> 's \<Rightarrow> ('s \<times> deployment list) res" where
  "rounds step [] s = Inr (s, [])"
| "rounds step (i # is) s =
     rbind (step i s) (\<lambda>(s', d).
     rbind (rounds step is s') (\<lambda>(s'', ds).
     Inr (s'', d # ds)))"

text \<open>The contract of an allocator: on inputs it is made for, every round keeps its invariant and returns
  a deployment with the property promised for the input.\<close>

locale vm_allocator =
  fixes step :: "'i \<Rightarrow> 's \<Rightarrow> ('s \<times> deployment) res"
    and good_input :: "'i \<Rightarrow> bool"
    and inv :: "'s \<Rightarrow> bool"
    and promise :: "'i \<Rightarrow> deployment \<Rightarrow> bool"
  assumes step_inv: "good_input i \<Longrightarrow> inv s \<Longrightarrow> step i s = Inr (s', d) \<Longrightarrow> inv s'"
    and step_promise: "good_input i \<Longrightarrow> inv s \<Longrightarrow> step i s = Inr (s', d) \<Longrightarrow> promise i d"
begin

lemma rounds_promise:
  assumes "rounds step is s = Inr (s', ds)" and "inv s" and "\<forall>i \<in> set is. good_input i"
  shows "inv s' \<and> list_all2 promise is ds"
  using assms
proof (induction "is" arbitrary: s ds)
  case (Cons i "is")
  from Cons.prems(1) obtain t d es where *:
    "step i s = Inr (t, d)" "rounds step is t = Inr (s', es)" "ds = d # es"
    by (auto simp: rbind_eq_Inr)
  then have "inv t" "promise i d" using Cons.prems(2,3) step_inv [OF _ _ *(1)] step_promise [OF _ _ *(1)] by simp_all
  then show ?case using Cons.IH [OF *(2)] Cons.prems(3) *(3) by simp
qed simp

end

text \<open>An allocator that, moreover, does not raise on those inputs.\<close>

locale total_allocator = vm_allocator +
  assumes step_returns: "good_input i \<Longrightarrow> inv s \<Longrightarrow> returns (step i s)"
begin

lemma rounds_return:
  assumes "inv s" and "\<forall>i \<in> set is. good_input i"
  shows "returns (rounds step is s)"
  using assms
proof (induction "is" arbitrary: s)
  case (Cons i "is")
  then obtain t d where step: "step i s = Inr (t, d)"
    using step_returns [of i s] by (auto simp: returns_def)
  moreover have "returns (rounds step is t)"
    using Cons.IH Cons.prems step_inv [OF _ _ step] by simp
  ultimately show ?case by (auto simp: returns_def)
qed simp

end

section \<open>Lemmas on shares\<close>

lemma equal_share_eq:
  "0 < n \<Longrightarrow> equal_share rs n =
     Inr \<lparr>d_cache = py_int (rs_cache rs / of_int n), d_mem_bw = py_int (rs_mem_bw rs / of_int n * 1024)\<rparr>"
  by (simp add: equal_share_def)

text \<open>\<open>n\<close> truncated equal parts do not add up to more than the whole.\<close>

lemma equal_parts_le:
  assumes "0 \<le> S" and "0 < n"
  shows "of_nat n * of_int (py_int (S / of_nat n)) \<le> S"
proof -
  have "of_nat n * of_int (py_int (S / of_nat n)) \<le> of_nat n * (S / of_nat n)"
    using py_int_le [of "S / of_nat n"] assms by (intro mult_left_mono) auto
  then show ?thesis using assms(2) by simp
qed

lemma sum_list_const_on:
  assumes "\<And>u. u \<in> set us \<Longrightarrow> f u = c"
  shows "(\<Sum>u\<leftarrow>us. f u) = of_nat (length us) * (c :: rat)"
  using assms by (induction us) (auto simp: distrib_right)

lemma vm_fits_equal:
  assumes "0 \<le> rs_cache rs" and "0 \<le> rs_mem_bw rs" and "us \<noteq> []"
    and "\<And>u. u \<in> set us \<Longrightarrow> map_of d u = Some s"
    and "equal_share rs (int (length us)) = Inr s"
  shows "vm_fits rs 0 us d"
proof -
  let ?n = "length us"
  have n: "0 < ?n" using assms(3) by simp
  have s: "d_cache s = py_int (rs_cache rs / of_nat ?n)" "d_mem_bw s = py_int (rs_mem_bw rs * 1024 / of_nat ?n)"
    using assms(5) n by (auto simp: equal_share_eq)
  have "(\<Sum>u\<leftarrow>us. of_int (cache_of d u)) = of_nat ?n * (of_int (d_cache s) :: rat)"
    "(\<Sum>u\<leftarrow>us. of_int (mem_bw_of d u)) = of_nat ?n * (of_int (d_mem_bw s) :: rat)"
    using assms(4) by (auto intro!: sum_list_const_on simp: cache_of_def mem_bw_of_def)
  then have "(\<Sum>u\<leftarrow>us. of_int (cache_of d u)) \<le> rs_cache rs"
    "(\<Sum>u\<leftarrow>us. of_int (mem_bw_of d u)) \<le> rs_mem_bw rs * 1024"
    using equal_parts_le [OF assms(1) n] equal_parts_le [of "rs_mem_bw rs * 1024", OF _ n] assms(2)
    unfolding s by simp_all
  then show ?thesis unfolding vm_fits_def by simp
qed

lemma div_mult_le_int: "0 < k \<Longrightarrow> n div k * k \<le> n" for k n :: int
  using div_mult_mod_eq [of n k] pos_mod_sign [of k n] by linarith

lemma users_in_this_vm_pos: "idx < n \<Longrightarrow> 0 < users_in_this_vm n num_vms idx"
proof -
  assume "idx < n"
  let ?u = "max 1 (int n div num_vms)"
  have "int idx div ?u * ?u \<le> int idx" by (rule div_mult_le_int) simp
  then show ?thesis using \<open>idx < n\<close> by (simp add: users_in_this_vm_def Let_def less_max_iff_disj)
qed

lemma users_in_this_vm_even:
  assumes "0 < num_vms" and "num_vms dvd int n" and "idx < n"
  shows "users_in_this_vm n num_vms idx = int n div num_vms"
proof -
  obtain k where k: "int n = num_vms * k" using assms(2) by auto
  moreover have "0 < int n" using assms(3) by simp
  ultimately have "0 < k" using assms(1) by (simp add: zero_less_mult_iff)
  have "k * (int idx div k) \<le> int idx" using div_mult_le_int [OF \<open>0 < k\<close>] by (simp add: mult.commute)
  also have "\<dots> < k * num_vms" using k assms(3) by (simp add: mult.commute)
  finally have "int idx div k < num_vms" using \<open>0 < k\<close> by simp
  then show ?thesis using k assms(1) \<open>0 < k\<close> by (simp add: users_in_this_vm_def Let_def)
qed

end
