(* ===== verification/Spirit.thy ===== *)
theory Spirit
  imports Allocator "HOL-Library.Multiset"
begin

text \<open>
  \<open>src/res_allocation/allocators/spirit_allocator.py\<close>: a market for each VM.  Every application has the
  same budget; \<open>allocate\<close> searches, by bisection, for the prices of cache and bandwidth at which the
  allocations that \<open>ptas_algorithm\<close> finds for the users together fit the VM, and falls back to the last
  allocation when it finds none within its bound of iterations.

  The estimator's \<open>get_estimation\<close> is the parameter \<open>est\<close>.  Run times, prints and log messages are left
  out, as are the arguments that only pass through (\<open>gaussian_err_stddev\<close>, \<open>guide_factors\<close>); keyword
  arguments that no caller sets have their default values.
\<close>

section \<open>State and parameters\<close>

record spirit_params =
  init_phase_interval :: nat
  search_granularity :: rat
  search_range :: rat
  adaptive_iter :: bool
  min_iter_bound :: int
  max_iter_bound :: int

definition default_params :: "nat \<Rightarrow> spirit_params" where
  "default_params init_phase =
     \<lparr>init_phase_interval = init_phase, search_granularity = 1 / 200, search_range = 1 / 200 * 5,
      adaptive_iter = False, min_iter_bound = 5, max_iter_bound = 25\<rparr>"

record spirit =
  last_allocation :: "allocs option"
  last_static_allocation :: "allocs option"
  num_conflict :: int
  max_iteration :: int

definition init_spirit :: spirit where
  "init_spirit =
     \<lparr>last_allocation = None, last_static_allocation = None, num_conflict = 0, max_iteration = 20\<rparr>"

definition num_conflict_resolve_th :: int where
  "num_conflict_resolve_th = 3"

section \<open>One price\<close>

definition compute_resource_usage :: "allocs \<Rightarrow> rat \<times> rat" where
  "compute_resource_usage allocation =
     (sum_list (map (\<lambda>(_, a). cache a) allocation), sum_list (map (\<lambda>(_, a). mem_bw a) allocation))"

text \<open>One user of \<open>find_best_allocation_per_user\<close>; the state is the allocations, the numbers of checked
  points and the limits so far.\<close>

definition find_best_user ::
  "estimation \<Rightarrow> resource_scale \<Rightarrow> spirit \<Rightarrow> price_vector \<Rightarrow> nat \<Rightarrow> (int, rat) dict \<Rightarrow> rat \<Rightarrow> rat \<Rightarrow> int \<Rightarrow>
   allocs \<times> nat list \<times> resource_limited \<Rightarrow> (allocs \<times> nat list \<times> resource_limited) res" where
  "find_best_user est rs self pv num_users weights granularity rng user_id st =
    (case st of (allocations, num_iter_list, res_lim) \<Rightarrow>
     case last_allocation self of
       None \<Rightarrow> Inl TypeError
     | Some la \<Rightarrow>
         rbind (dict_get la user_id) (\<lambda>cur.
         rbind (dict_get weights user_id) (\<lambda>budget.
         rbind (ptas_algorithm est user_id granularity budget pv (Some la) (last_static_allocation self) rs
                  (get_search_dict cur rng)) (\<lambda>(result, num_iter, res_lim_new).
         rbind (case result of Some a \<Rightarrow> Inr a | None \<Rightarrow> get_static_allocation (int num_users)) (\<lambda>a.
         Inr (dict_set user_id a allocations, num_iter_list @ [num_iter],
              update_limited res_lim res_lim_new))))))"

definition find_best_allocation_per_user ::
  "estimation \<Rightarrow> resource_scale \<Rightarrow> spirit \<Rightarrow> price_vector \<Rightarrow> int list \<Rightarrow> (int, rat) dict \<Rightarrow> rat \<Rightarrow> rat \<Rightarrow>
   (allocs \<times> nat list \<times> resource_limited) res" where
  "find_best_allocation_per_user est rs self pv user_ids weights granularity rng =
     rbind (rfold (find_best_user est rs self pv (length user_ids) weights granularity rng) user_ids
              ([], [], not_limited)) (\<lambda>st.
     if user_ids = [] then Inl ZeroDivisionError else Inr st)"

section \<open>Moving the price\<close>

datatype search_method = Linear | Binary | Other_Method

definition float_precision :: rat where
  "float_precision = 1 / 100000"

definition clipping_res_decrease_ratio :: rat where
  "clipping_res_decrease_ratio = 1 / 4"

definition maximum_retry :: int where
  "maximum_retry = 3"

definition over :: "rat \<Rightarrow> bool" where
  "over used \<longleftrightarrow> used > 1 + float_precision"

definition compute_and_update_mid :: "price_vector \<Rightarrow> price_vector res" where
  "compute_and_update_mid pv =
    (case ends pv of
       None \<Rightarrow> Inl KeyError
     | Some (left, right) \<Rightarrow>
         Inr (pv\<lparr>p_cache := (p_cache left + p_cache right) / 2,
                 p_mem_bw := (p_mem_bw left + p_mem_bw right) / 2\<rparr>))"

text \<open>\<open>e + (mid - e) * clipping_res_decrease_ratio\<close>, for an end \<open>e\<close> of the interval.\<close>

definition toward_mid :: "price_vector \<Rightarrow> price \<Rightarrow> price" where
  "toward_mid pv e =
     \<lparr>p_cache = p_cache e + (p_cache pv - p_cache e) * clipping_res_decrease_ratio,
      p_mem_bw = p_mem_bw e + (p_mem_bw pv - p_mem_bw e) * clipping_res_decrease_ratio\<rparr>"

definition mid_price :: "price_vector \<Rightarrow> price" where
  "mid_price pv = \<lparr>p_cache = p_cache pv, p_mem_bw = p_mem_bw pv\<rparr>"

text \<open>\<open>None\<close> is the \<open>break\<close> of the converged case.\<close>

definition update_price_binary ::
  "rat \<times> rat \<Rightarrow> resource_limited \<Rightarrow> price_vector \<Rightarrow> price_vector option res" where
  "update_price_binary sum_alloc res_lim pv =
    (case ends pv of
       None \<Rightarrow> Inl KeyError
     | Some (left, right) \<Rightarrow>
         if is_resource_limited res_lim then
           if mem_bw_max_limit res_lim \<or> mem_bw_min_limit res_lim then
             if over (fst sum_alloc)
             then Inr (Some (pv\<lparr>ends := Some (left, toward_mid pv right)\<rparr>))
             else Inr (Some (pv\<lparr>ends := Some (toward_mid pv left, right)\<rparr>))
           else
             if over (snd sum_alloc)
             then Inr (Some (pv\<lparr>ends := Some (toward_mid pv left, right)\<rparr>))
             else Inr (Some (pv\<lparr>ends := Some (left, toward_mid pv right)\<rparr>))
         else if over (fst sum_alloc) then Inr (Some (pv\<lparr>ends := Some (left, mid_price pv)\<rparr>))
         else if over (snd sum_alloc) then Inr (Some (pv\<lparr>ends := Some (mid_price pv, right)\<rparr>))
         else Inr None)"

text \<open>The linear search also carries the step of the price and the prices it has seen.\<close>

definition update_price_linear ::
  "rat \<times> rat \<Rightarrow> price_vector \<Rightarrow> rat \<Rightarrow> (rat \<times> rat) list \<Rightarrow> price_vector \<times> rat \<times> (rat \<times> rat) list" where
  "update_price_linear sum_alloc pv coef searched =
    (let (pv', reduce_coeff) =
       (if over (fst sum_alloc) then (pv\<lparr>p_cache := p_cache pv + coef, p_mem_bw := p_mem_bw pv - coef\<rparr>, False)
        else if over (snd sum_alloc)
             then (pv\<lparr>p_cache := p_cache pv - coef, p_mem_bw := p_mem_bw pv + coef\<rparr>, False)
             else (pv, True))
     in if (p_cache pv', p_mem_bw pv') \<in> set searched \<or> reduce_coeff
        then (pv', coef / 2, []) else (pv', coef, searched))"

section \<open>The search for a price\<close>

text \<open>What an iteration hands to the next: the price, the step and the seen prices of the linear search,
  and the numbers of checked points.\<close>

record price_state =
  ps_price :: price_vector
  ps_coef :: rat
  ps_searched :: "(rat \<times> rat) list"
  ps_num_iter :: "nat list"

text \<open>How the loop ends: the allocations, whether they are the object \<open>self.last_allocation\<close> itself, and
  \<open>is_converged\<close>.\<close>

datatype iteration_result =
    Again price_state
  | Done spirit allocs bool bool price_state

text \<open>The end of an iteration, after the price has moved.\<close>

definition check_iteration ::
  "spirit_params \<Rightarrow> int \<Rightarrow> int \<Rightarrow> spirit \<Rightarrow> allocs \<Rightarrow> price_state \<Rightarrow> iteration_result res" where
  "check_iteration par maximum_iteration iteration self cur_alloc ps =
    (let sum_alloc = compute_resource_usage cur_alloc in
     if p_cache (ps_price ps) < float_precision \<and> p_mem_bw (ps_price ps) < float_precision then
       Inr (Done
         (if adaptive_iter par
          then self\<lparr>max_iteration := max (py_int (of_int (max_iteration self) / (3 / 2))) (min_iter_bound par)\<rparr>
          else self)
         cur_alloc False False ps)
     else if iteration \<ge> maximum_iteration then
       if over (fst sum_alloc) \<or> over (snd sum_alloc) then
         if iteration \<le> maximum_iteration + maximum_retry then Inr (Again ps)
         else
           let self1 = (if adaptive_iter par
                        then self\<lparr>max_iteration :=
                               min (py_int (of_int (max_iteration self) * (3 / 2))) (max_iter_bound par)\<rparr>
                        else self);
               self2 = (if num_conflict self1 + 1 > num_conflict_resolve_th
                        then self1\<lparr>num_conflict := 0\<rparr>
                        else self1\<lparr>num_conflict := num_conflict self1 + 1\<rparr>)
           in (case last_allocation self of
                 None \<Rightarrow> Inl AttributeError
               | Some la \<Rightarrow> Inr (Done self2 la True False ps))
       else Inr (Done self cur_alloc False True ps)
     else Inr (Again ps))"

definition price_iteration ::
  "spirit_params \<Rightarrow> estimation \<Rightarrow> resource_scale \<Rightarrow> search_method \<Rightarrow> int list \<Rightarrow> (int, rat) dict \<Rightarrow> int \<Rightarrow>
   spirit \<Rightarrow> int \<Rightarrow> price_state \<Rightarrow> iteration_result res" where
  "price_iteration par est rs search users weights maximum_iteration self iteration ps =
     rbind (if search = Binary then compute_and_update_mid (ps_price ps) else Inr (ps_price ps)) (\<lambda>pv.
     let searched = (p_cache pv, p_mem_bw pv) # ps_searched ps in
     rbind (find_best_allocation_per_user est rs self pv users weights (search_granularity par)
              (search_range par)) (\<lambda>(cur_alloc, num_iter, res_lim_new).
     let res_lim = update_limited not_limited res_lim_new;
         num_iter_list = ps_num_iter ps @ num_iter;
         sum_alloc = compute_resource_usage cur_alloc
     in
     if search = Binary then
       rbind (update_price_binary sum_alloc res_lim pv) (\<lambda>moved.
       case moved of
         None \<Rightarrow>
           Inr (Done (self\<lparr>num_conflict := 0\<rparr>) cur_alloc False True
             \<lparr>ps_price = pv, ps_coef = ps_coef ps, ps_searched = searched, ps_num_iter = num_iter_list\<rparr>)
       | Some pv' \<Rightarrow>
           check_iteration par maximum_iteration iteration self cur_alloc
             \<lparr>ps_price = pv', ps_coef = ps_coef ps, ps_searched = searched, ps_num_iter = num_iter_list\<rparr>)
     else
       (case update_price_linear sum_alloc pv (ps_coef ps) searched of (pv', coef, searched') \<Rightarrow>
         check_iteration par maximum_iteration iteration self cur_alloc
           \<lparr>ps_price = pv', ps_coef = coef, ps_searched = searched', ps_num_iter = num_iter_list\<rparr>)))"

text \<open>An iteration goes on only while the counter is within the bound and its retries.\<close>

lemma check_iteration_Again:
  "check_iteration par mx it self cur ps = Inr (Again ps') \<Longrightarrow> it \<le> mx + maximum_retry \<and> ps' = ps"
  by (auto simp: check_iteration_def Let_def maximum_retry_def split: if_splits option.splits)

lemma price_iteration_Again:
  "price_iteration par est rs search users weights mx self it ps = Inr (Again ps') \<Longrightarrow> it \<le> mx + maximum_retry"
  by (auto simp: price_iteration_def Let_def rbind_eq_Inr case_prod_unfold
      split: if_splits option.splits dest!: check_iteration_Again)

function price_loop ::
  "spirit_params \<Rightarrow> estimation \<Rightarrow> resource_scale \<Rightarrow> search_method \<Rightarrow> int list \<Rightarrow> (int, rat) dict \<Rightarrow> int \<Rightarrow>
   spirit \<Rightarrow> int \<Rightarrow> price_state \<Rightarrow> (spirit \<times> allocs \<times> bool \<times> bool \<times> price_state) res" where
  "price_loop par est rs search users weights maximum_iteration self iteration ps =
    (case price_iteration par est rs search users weights maximum_iteration self (iteration + 1) ps of
       Inl e \<Rightarrow> Inl e
     | Inr (Again ps') \<Rightarrow> price_loop par est rs search users weights maximum_iteration self (iteration + 1) ps'
     | Inr (Done self' cur_alloc reused converged ps') \<Rightarrow> Inr (self', cur_alloc, reused, converged, ps'))"
  by pat_completeness auto
termination
  by (relation "measure (\<lambda>(par, est, rs, search, users, weights, mx, self, it, ps). nat (mx + maximum_retry - it))")
    (auto dest: price_iteration_Again)

declare price_loop.simps [simp del]

section \<open>Allocating one VM\<close>

definition tag_price :: "price_vector \<Rightarrow> int \<Rightarrow> allocs \<Rightarrow> allocs res" where
  "tag_price pv user_id cur_alloc =
     rbind (dict_get cur_alloc user_id) (\<lambda>a. Inr (dict_set user_id (a\<lparr>price_tag := Some pv\<rparr>) cur_alloc))"

text \<open>The bisection's price has no \<open>cache\<close> and \<open>mem_bw\<close> before the first midpoint; they are 0 here and not
  read.  When the last allocation is reused, the price is written into \<open>self.last_allocation\<close>.\<close>

definition allocate ::
  "spirit_params \<Rightarrow> estimation \<Rightarrow> resource_scale \<Rightarrow> search_method \<Rightarrow> int list \<Rightarrow> (int, rat) dict \<Rightarrow> spirit \<Rightarrow>
   (spirit \<times> allocs \<times> nat list \<times> bool) res" where
  "allocate par est rs search users weights self =
    (if search = Other_Method then Inl ValueError
     else
       let pv = (if search = Linear then \<lparr>p_cache = 1 / 2, p_mem_bw = 1 / 2, ends = None\<rparr>
                 else \<lparr>p_cache = 0, p_mem_bw = 0,
                       ends = Some (\<lparr>p_cache = 1, p_mem_bw = 0\<rparr>, \<lparr>p_cache = 0, p_mem_bw = 1\<rparr>)\<rparr>)
       in
       rbind (price_loop par est rs search users weights (max_iteration self) self 0
                \<lparr>ps_price = pv, ps_coef = 5 / 100, ps_searched = [], ps_num_iter = []\<rparr>)
         (\<lambda>(self', cur_alloc, reused, converged, ps).
       rbind (rfold (tag_price (ps_price ps)) users cur_alloc) (\<lambda>tagged.
       Inr (if reused then self'\<lparr>last_allocation := Some tagged\<rparr> else self', tagged, ps_num_iter ps, converged))))"

section \<open>A round\<close>

definition spirit_users :: "int list \<Rightarrow> int list \<Rightarrow> int list" where
  "spirit_users users app_ids = sort (vm_users users app_ids)"

text \<open>Whether the round uses equal shares; only the data of user 1 is looked at.\<close>

definition use_static :: "spirit_params \<Rightarrow> round_input \<Rightarrow> int list \<Rightarrow> spirit \<Rightarrow> bool" where
  "use_static par i users self =
    (if ri_skip_monitoring i then last_static_allocation self = None
     else users = [] \<or>
          (case ri_total_record i 1 of None \<Rightarrow> True | Some n \<Rightarrow> n < init_phase_interval par))"

definition is_complete_vm_map :: "int list \<Rightarrow> vm_map \<Rightarrow> bool" where
  "is_complete_vm_map users m \<longleftrightarrow> m \<noteq> [] \<and> set users \<subseteq> set (mapped_apps m)"

definition give_share ::
  "resource_scale \<Rightarrow> int \<Rightarrow> int \<Rightarrow> deployment \<times> allocs \<Rightarrow> (deployment \<times> allocs) res" where
  "give_share rs n user st =
     rbind (equal_share rs n) (\<lambda>s.
     Inr (dict_set user s (fst st), dict_set user (mk_alloc (1 / of_int n) (1 / of_int n)) (snd st)))"

definition spirit_flat :: "resource_scale \<Rightarrow> int list \<Rightarrow> int \<Rightarrow> (deployment \<times> allocs) res" where
  "spirit_flat rs users num_vms =
    (if num_vms = 0 then Inl ZeroDivisionError
     else rfold (\<lambda>(idx, user). give_share rs (users_in_this_vm (length users) num_vms idx) user)
            (enumerate 0 users) ([], []))"

definition spirit_static_vm ::
  "resource_scale \<Rightarrow> int list \<Rightarrow> int \<times> int list \<Rightarrow> deployment \<times> allocs \<Rightarrow> (deployment \<times> allocs) res" where
  "spirit_static_vm rs users entry st =
    (let vm_apps = spirit_users users (snd entry) in
     if vm_apps = [] then Inr st else rfold (give_share rs (int (length vm_apps))) vm_apps st)"

definition static_round ::
  "resource_scale \<Rightarrow> round_input \<Rightarrow> int list \<Rightarrow> spirit \<Rightarrow> (spirit \<times> deployment) res" where
  "static_round rs i users self =
     rbind (if \<not> is_complete_vm_map users (ri_vm_map i)
            then spirit_flat rs users (get_num_vms (ri_estimator i))
            else rfold (spirit_static_vm rs users) (ri_vm_map i) ([], [])) (\<lambda>(allocation, la).
     Inr (self\<lparr>last_allocation := Some la, last_static_allocation := Some la\<rparr>, allocation))"

text \<open>\<open>self.last_allocation[user].update(vm_cur_alloc[user])\<close>: a price is kept when the new entry has none.\<close>

definition alloc_update :: "alloc option \<Rightarrow> alloc \<Rightarrow> alloc" where
  "alloc_update old a =
    (case (price_tag a, old) of (None, Some o') \<Rightarrow> a\<lparr>price_tag := price_tag o'\<rparr> | _ \<Rightarrow> a)"

definition to_deployed :: "resource_scale \<Rightarrow> alloc \<Rightarrow> deployed" where
  "to_deployed rs a =
     \<lparr>d_cache = py_int (cache a * rs_cache rs), d_mem_bw = py_int (mem_bw a * rs_mem_bw rs * 1024)\<rparr>"

definition record_user ::
  "resource_scale \<Rightarrow> int \<times> alloc \<Rightarrow> allocs \<times> deployment \<Rightarrow> allocs \<times> deployment" where
  "record_user rs entry st =
    (case (entry, st) of ((user, a), (la, allocation)) \<Rightarrow>
       (dict_set user (alloc_update (map_of la user) a) la, dict_set user (to_deployed rs a) allocation))"

text \<open>One VM of the dynamic phase.  \<open>allocate\<close> returns a dictionary whenever it returns (its loop over
  \<open>cur_alloc.items()\<close> raises on anything else), so the branch for other results is never reached and is
  left out.\<close>

definition dynamic_vm ::
  "spirit_params \<Rightarrow> estimation \<Rightarrow> resource_scale \<Rightarrow> int list \<Rightarrow> int \<times> int list \<Rightarrow> spirit \<times> deployment \<Rightarrow>
   (spirit \<times> deployment) res" where
  "dynamic_vm par est rs users entry st =
    (let vm_apps = spirit_users users (snd entry) in
     if vm_apps = [] then Inr st
     else
       rbind (allocate par est rs Binary vm_apps (map (\<lambda>u. (u, 1 / of_nat (length vm_apps))) vm_apps) (fst st))
         (\<lambda>(self, vm_cur_alloc, num_iter_list, vm_converged).
       case last_allocation self of
         None \<Rightarrow> Inl TypeError
       | Some la \<Rightarrow>
           (case fold (record_user rs) vm_cur_alloc (la, snd st) of (la', allocation) \<Rightarrow>
              Inr (self\<lparr>last_allocation := Some la'\<rparr>, allocation))))"

definition spirit_allocate_and_parse ::
  "spirit_params \<Rightarrow> resource_scale \<Rightarrow> round_input \<Rightarrow> spirit \<Rightarrow> (spirit \<times> deployment) res" where
  "spirit_allocate_and_parse par rs i self =
     rbind (get_app_ids (ri_estimator i)) (\<lambda>users.
     if use_static par i users self \<or> \<not> is_complete_vm_map users (ri_vm_map i)
     then static_round rs i users self
     else rfold (dynamic_vm par (get_estimation (ri_env i)) rs users) (ri_vm_map i) (self, []))"

end
