(* ===== verification/Spirit_Search.thy ===== *)
theory Spirit_Search
  imports Spirit
begin

text \<open>
  Facts on the price search of the theory \<open>Spirit\<close>: the bisection keeps a shrinking interval of prices on
  the simplex, the loop ends within its bound, what \<open>allocate\<close> returns, and that it does not raise with
  any estimator that answers for the users (the interface \<open>utility_estimator\<close>).
\<close>

section \<open>The bisection\<close>

text \<open>The prices of the two ends and of the middle add up to 1, and the ends bracket the price of cache.\<close>

definition on_simplex :: "'a price_scheme \<Rightarrow> bool" where
  "on_simplex p \<longleftrightarrow> p_cache p + p_mem_bw p = 1"

definition bracket :: "price_vector \<Rightarrow> bool" where
  "bracket pv \<longleftrightarrow>
    (case ends pv of None \<Rightarrow> False
     | Some (l, r) \<Rightarrow> on_simplex l \<and> on_simplex r \<and> 0 \<le> p_cache r \<and> p_cache r < p_cache l \<and> p_cache l \<le> 1)"

definition width :: "price_vector \<Rightarrow> rat" where
  "width pv = (case ends pv of None \<Rightarrow> 0 | Some (l, r) \<Rightarrow> p_cache l - p_cache r)"

definition mid_of_ends :: "price_vector \<Rightarrow> bool" where
  "mid_of_ends pv \<longleftrightarrow>
    (case ends pv of None \<Rightarrow> False
     | Some (l, r) \<Rightarrow> p_cache pv = (p_cache l + p_cache r) / 2 \<and> on_simplex pv)"

lemmas bisection_defs = on_simplex_def bracket_def width_def mid_of_ends_def

lemma mid_bracket:
  assumes "bracket pv" and "compute_and_update_mid pv = Inr pv'"
  shows "bracket pv'" "mid_of_ends pv'" "width pv' = width pv"
  using assms by (auto simp: bisection_defs compute_and_update_mid_def field_simps split: option.splits)

lemma mid_positive:
  assumes "bracket pv" and "mid_of_ends pv"
  shows "0 < p_cache pv" "0 < p_mem_bw pv" "on_simplex pv"
  using assms by (auto simp: bisection_defs field_simps split: option.splits)

lemma compute_mid_returns [returns_intros]: "bracket pv \<Longrightarrow> returns (compute_and_update_mid pv)"
  by (auto simp: bisection_defs compute_and_update_mid_def split: option.splits)

lemma update_binary_returns [returns_intros]: "bracket pv \<Longrightarrow> returns (update_price_binary s l pv)"
  by (auto simp: bisection_defs update_price_binary_def split: option.splits)

lemma update_binary_bracket:
  assumes "bracket pv" and "mid_of_ends pv" and "update_price_binary s rl pv = Inr (Some pv')"
  shows "bracket pv'" "on_simplex pv'" "width pv' \<le> 7 / 8 * width pv" "p_cache pv' = p_cache pv"
proof -
  obtain l r where e: "ends pv = Some (l, r)" using assms(1) by (auto simp: bracket_def split: option.splits)
  have b: "p_mem_bw l = 1 - p_cache l" "p_mem_bw r = 1 - p_cache r" "0 \<le> p_cache r" "p_cache r < p_cache l"
    "p_cache l \<le> 1" "p_cache pv = (p_cache l + p_cache r) / 2" "p_mem_bw pv = 1 - p_cache pv"
    using assms(1,2) e by (auto simp: bisection_defs)
  consider "pv' = pv\<lparr>ends := Some (l, toward_mid pv r)\<rparr>" | "pv' = pv\<lparr>ends := Some (toward_mid pv l, r)\<rparr>"
    | "pv' = pv\<lparr>ends := Some (l, mid_price pv)\<rparr>" | "pv' = pv\<lparr>ends := Some (mid_price pv, r)\<rparr>"
    using assms(3) e by (auto simp: update_price_binary_def split: if_splits)
  then have "bracket pv' \<and> on_simplex pv' \<and> width pv' \<le> 7 / 8 * width pv \<and> p_cache pv' = p_cache pv"
    by cases (use b e in \<open>auto simp: bisection_defs toward_mid_def mid_price_def
        clipping_res_decrease_ratio_def field_simps\<close>)
  then show "bracket pv'" "on_simplex pv'" "width pv' \<le> 7 / 8 * width pv" "p_cache pv' = p_cache pv" by auto
qed

lemma update_binary_None:
  assumes "update_price_binary s rl pv = Inr None"
  shows "\<not> over (fst s)" "\<not> over (snd s)" "\<not> is_resource_limited rl"
  using assms by (auto simp: update_price_binary_def split: option.splits if_splits)

text \<open>The exit for vanishing prices is never taken: the two prices add up to 1.\<close>

lemma on_simplex_not_floor:
  "on_simplex p \<Longrightarrow> \<not> (p_cache p < float_precision \<and> p_mem_bw p < float_precision)"
  by (auto simp: on_simplex_def float_precision_def)

section \<open>Rules for the loop\<close>

lemma price_loop_rule:
  assumes "price_loop par est rs search users weights mx self it ps = Inr (self', cur, reused, conv, psf)"
    and "P it ps"
    and "\<And>it ps ps'. P it ps \<Longrightarrow>
      price_iteration par est rs search users weights mx self (it + 1) ps = Inr (Again ps') \<Longrightarrow> P (it + 1) ps'"
  shows "\<exists>it' ps'. P it' ps' \<and>
    price_iteration par est rs search users weights mx self (it' + 1) ps' = Inr (Done self' cur reused conv psf)"
  using assms
proof (induction par est rs search users weights mx self it ps rule: price_loop.induct)
  case (1 par est rs search users weights mx self it ps)
  show ?case
  proof (cases "price_iteration par est rs search users weights mx self (it + 1) ps")
    case (Inl e)
    then show ?thesis using 1(2) by (simp add: price_loop.simps)
  next
    case (Inr r)
    show ?thesis
    proof (cases r)
      case (Again ps')
      have run: "price_loop par est rs search users weights mx self (it + 1) ps' = Inr (self', cur, reused, conv, psf)"
        using 1(2) Inr Again by (subst (asm) price_loop.simps) simp
      have "P (it + 1) ps'" using 1(4) [OF 1(3)] Inr Again by simp
      then show ?thesis using 1(1) [OF Inr Again run _ 1(4)] by simp
    next
      case (Done s c re co p)
      then have "s = self'" "c = cur" "re = reused" "co = conv" "p = psf"
        using 1(2) Inr by (subst (asm) price_loop.simps, simp)+
      then show ?thesis using 1(3) Inr Done by blast
    qed
  qed
qed

lemma price_loop_returns:
  assumes "P it ps"
    and "\<And>it ps. P it ps \<Longrightarrow> returns (price_iteration par est rs search users weights mx self (it + 1) ps)"
    and "\<And>it ps ps'. P it ps \<Longrightarrow>
      price_iteration par est rs search users weights mx self (it + 1) ps = Inr (Again ps') \<Longrightarrow> P (it + 1) ps'"
  shows "returns (price_loop par est rs search users weights mx self it ps)"
  using assms
proof (induction par est rs search users weights mx self it ps rule: price_loop.induct)
  case (1 par est rs search users weights mx self it ps)
  obtain r where r: "price_iteration par est rs search users weights mx self (it + 1) ps = Inr r"
    using 1(3) [OF 1(2)] by (auto simp: returns_def)
  show ?case
  proof (cases r)
    case (Again ps')
    have "returns (price_loop par est rs search users weights mx self (it + 1) ps')"
      using 1(1) [OF r Again 1(4) [OF 1(2)]] 1(3,4) r Again by blast
    then show ?thesis using r Again by (subst price_loop.simps) simp
  qed (use r in \<open>simp add: price_loop.simps\<close>)
qed

section \<open>One price for all users\<close>

text \<open>\<open>a\<close> is what \<open>find_best_allocation_per_user\<close> takes for user \<open>u\<close> at a price, after \<open>k\<close> checked points.\<close>

definition best_for ::
  "estimation \<Rightarrow> resource_scale \<Rightarrow> spirit \<Rightarrow> price_vector \<Rightarrow> nat \<Rightarrow> (int, rat) dict \<Rightarrow> rat \<Rightarrow> rat \<Rightarrow> int \<Rightarrow> alloc \<Rightarrow>
   nat \<Rightarrow> bool" where
  "best_for est rs self pv num_users weights g rng u a k \<longleftrightarrow>
    (\<exists>la cur budget r l. last_allocation self = Some la \<and> map_of la u = Some cur \<and> map_of weights u = Some budget \<and>
       ptas_algorithm est u g budget pv (Some la) (last_static_allocation self) rs (get_search_dict cur rng)
         = Inr (r, k, l) \<and>
       (case r of Some a' \<Rightarrow> a = a' | None \<Rightarrow> get_static_allocation (int num_users) = Inr a))"

lemma find_best_user_InrE:
  assumes "find_best_user est rs self pv n weights g rng u (d, ks, l) = Inr st"
  obtains a k l' where "st = (dict_set u a d, ks @ [k], update_limited l l')"
    "best_for est rs self pv n weights g rng u a k"
proof -
  obtain la where la: "last_allocation self = Some la"
    using assms by (auto simp: find_best_user_def split: option.splits)
  then obtain cur budget r k l' a where
    "map_of la u = Some cur" "map_of weights u = Some budget"
    "ptas_algorithm est u g budget pv (Some la) (last_static_allocation self) rs (get_search_dict cur rng)
       = Inr (r, k, l')"
    "(case r of Some a \<Rightarrow> Inr a | None \<Rightarrow> get_static_allocation (int n)) = Inr a"
    "st = (dict_set u a d, ks @ [k], update_limited l l')"
    using assms by (auto simp: find_best_user_def rbind_eq_Inr)
  then show thesis using that [of a k l'] la by (auto simp: best_for_def split: option.splits)
qed

lemma find_best_fold:
  assumes "rfold (find_best_user est rs self pv n weights g rng) us (d, ks, l) = Inr (d', ks', l')"
    and "distinct us" and "set us \<inter> set (keys d) = {}"
  shows "\<exists>as js. d' = d @ zip us as \<and> ks' = ks @ js \<and> length as = length us \<and> length js = length us \<and>
    (\<forall>i < length us. best_for est rs self pv n weights g rng (us ! i) (as ! i) (js ! i))"
  using assms
proof (induction us arbitrary: d ks l)
  case (Cons u us)
  from Cons.prems(1) obtain st where st: "find_best_user est rs self pv n weights g rng u (d, ks, l) = Inr st"
    "rfold (find_best_user est rs self pv n weights g rng) us st = Inr (d', ks', l')"
    by (auto elim: rbind_eq_InrE)
  from st(1) obtain a k l1 where a: "st = (dict_set u a d, ks @ [k], update_limited l l1)"
    "best_for est rs self pv n weights g rng u a k"
    by (rule find_best_user_InrE)
  have new: "dict_set u a d = d @ [(u, a)]" using Cons.prems(3) by (intro dict_set_new) auto
  from Cons.IH [of "d @ [(u, a)]" "ks @ [k]"] st(2) a(1) Cons.prems(2,3) new
  obtain as js where *: "d' = (d @ [(u, a)]) @ zip us as" "ks' = (ks @ [k]) @ js" "length as = length us"
    "length js = length us"
    "\<forall>i < length us. best_for est rs self pv n weights g rng (us ! i) (as ! i) (js ! i)"
    by fastforce
  have "best_for est rs self pv n weights g rng ((u # us) ! i) ((a # as) ! i) ((k # js) ! i)"
    if "i < length (u # us)" for i
    using that a(2) *(5) by (cases i) auto
  then show ?case using * by (intro exI [of _ "a # as"] exI [of _ "k # js"]) simp
qed simp

lemma find_best_InrE:
  assumes "find_best_allocation_per_user est rs self pv us weights g rng = Inr (d, ks, l)" and "distinct us"
  obtains as where "d = zip us as" "length as = length us" "length ks = length us" "us \<noteq> []"
    "\<And>i. i < length us \<Longrightarrow> best_for est rs self pv (length us) weights g rng (us ! i) (as ! i) (ks ! i)"
proof -
  have "rfold (find_best_user est rs self pv (length us) weights g rng) us ([], [], not_limited) = Inr (d, ks, l)"
    "us \<noteq> []"
    using assms(1) by (auto simp: find_best_allocation_per_user_def rbind_eq_Inr split: if_splits)
  with find_best_fold [OF this(1) assms(2)] show thesis using that by force
qed

section \<open>Tagging with the price\<close>

text \<open>An allocation without its price.\<close>

definition amounts :: "allocs \<Rightarrow> (int \<times> rat \<times> rat) list" where
  "amounts d = map (\<lambda>(u, a). (u, cache a, mem_bw a)) d"

lemma amounts_usage: "amounts d = amounts d' \<Longrightarrow> compute_resource_usage d = compute_resource_usage d'"
proof -
  assume *: "amounts d = amounts d'"
  have "compute_resource_usage d = (sum_list (map (fst \<circ> snd) (amounts d)), sum_list (map (snd \<circ> snd) (amounts d)))" for d
    by (simp add: compute_resource_usage_def amounts_def comp_def case_prod_unfold)
  then show ?thesis using * by simp
qed

lemma amounts_keys: "amounts d = amounts d' \<Longrightarrow> keys d = keys d'"
proof -
  assume *: "amounts d = amounts d'"
  have "keys d = map fst (amounts d)" for d by (simp add: amounts_def comp_def case_prod_unfold)
  then show ?thesis using * by metis
qed

lemma amounts_dict_set:
  "map_of d u = Some a \<Longrightarrow> cache b = cache a \<Longrightarrow> mem_bw b = mem_bw a \<Longrightarrow> amounts (dict_set u b d) = amounts d"
  by (induction d) (auto simp: amounts_def)

lemma amounts_map_of:
  "amounts d = amounts d' \<Longrightarrow> map_of d u = Some a \<Longrightarrow> \<exists>b. map_of d' u = Some b \<and> cache b = cache a \<and> mem_bw b = mem_bw a"
proof -
  assume *: "amounts d = amounts d'" "map_of d u = Some a"
  have "map_of (amounts d) u = map_option (\<lambda>a. (cache a, mem_bw a)) (map_of d u)" for d
    by (simp add: amounts_def map_of_map)
  then have "map_option (\<lambda>a. (cache a, mem_bw a)) (map_of d u) = map_option (\<lambda>a. (cache a, mem_bw a)) (map_of d' u)"
    using *(1) by metis
  then show ?thesis using *(2) by (cases "map_of d' u") auto
qed

lemma tag_price_Some:
  "map_of d u = Some a \<Longrightarrow> tag_price pv u d = Inr (dict_set u (a\<lparr>price_tag := Some pv\<rparr>) d)"
  by (simp add: tag_price_def dict_get_Some)

lemma tag_price_InrE:
  assumes "tag_price pv u d = Inr d'"
  obtains a where "map_of d u = Some a" "d' = dict_set u (a\<lparr>price_tag := Some pv\<rparr>) d"
  using assms by (auto simp: tag_price_def rbind_eq_Inr)

lemma tag_all:
  assumes "rfold (tag_price pv) us d = Inr d'"
  shows "amounts d' = amounts d \<and> (\<forall>u. price_tag (the (map_of d' u)) = 
    (if u \<in> set us then Some pv else price_tag (the (map_of d u)))) \<and> set us \<subseteq> set (keys d)"
  using assms
proof (induction us arbitrary: d)
  case (Cons u us)
  from Cons.prems obtain a where a: "map_of d u = Some a"
    "rfold (tag_price pv) us (dict_set u (a\<lparr>price_tag := Some pv\<rparr>) d) = Inr d'"
    by (auto elim!: rbind_eq_InrE tag_price_InrE)
  have "amounts (dict_set u (a\<lparr>price_tag := Some pv\<rparr>) d) = amounts d"
    using a(1) by (intro amounts_dict_set) auto
  moreover have "u \<in> set (keys d)" using a(1) has_key_iff [of d u] by (simp add: has_key_def)
  ultimately show ?case using Cons.IH [OF a(2)] amounts_keys [of "dict_set u (a\<lparr>price_tag := Some pv\<rparr>) d" d]
    by auto
qed simp

lemma tag_returns:
  assumes "set us \<subseteq> set (keys d)"
  shows "returns (rfold (tag_price pv) us d)"
  using assms
proof (induction us arbitrary: d)
  case (Cons u us)
  then obtain a where a: "map_of d u = Some a" using has_key_iff [of d u] by (auto simp: has_key_def)
  have "set (keys d) \<subseteq> set (keys (dict_set u b d))" for b by (metis set_keys_dict_set subset_insertI)
  then have "returns (rfold (tag_price pv) us (dict_set u (a\<lparr>price_tag := Some pv\<rparr>) d))"
    using Cons by (meson dual_order.trans set_subset_Cons)
  then show ?case using a by (simp add: tag_price_Some)
qed simp

section \<open>The result of the search for a price\<close>

lemma price_iteration_BinaryE:
  assumes "price_iteration par est rs Binary users weights mx self it ps = Inr r"
  obtains pv cur ks l where
    "compute_and_update_mid (ps_price ps) = Inr pv"
    "find_best_allocation_per_user est rs self pv users weights (search_granularity par) (search_range par)
       = Inr (cur, ks, l)"
    "(\<exists>ps'. update_price_binary (compute_resource_usage cur) (update_limited not_limited l) pv = Inr None \<and>
        r = Done (self\<lparr>num_conflict := 0\<rparr>) cur False True ps' \<and> ps_price ps' = pv \<and>
        ps_num_iter ps' = ps_num_iter ps @ ks) \<or>
     (\<exists>pv' ps'. update_price_binary (compute_resource_usage cur) (update_limited not_limited l) pv = Inr (Some pv') \<and>
        check_iteration par mx it self cur ps' = Inr r \<and> ps_price ps' = pv' \<and> ps_num_iter ps' = ps_num_iter ps @ ks)"
proof -
  from assms obtain pv cur ks l where *:
    "compute_and_update_mid (ps_price ps) = Inr pv"
    "find_best_allocation_per_user est rs self pv users weights (search_granularity par) (search_range par)
       = Inr (cur, ks, l)"
    unfolding price_iteration_def Let_def by (auto elim!: rbind_eq_InrE)
  obtain m where "update_price_binary (compute_resource_usage cur) (update_limited not_limited l) pv = Inr m"
    using assms * by (auto simp: price_iteration_def Let_def elim: rbind_eq_InrE)
  then show thesis using assms that [OF *] * by (cases m) (force simp: price_iteration_def Let_def)+
qed

text \<open>The state after a fallback: only the two counters change.\<close>

definition counters_only :: "spirit \<Rightarrow> spirit \<Rightarrow> bool" where
  "counters_only s s' \<longleftrightarrow>
     last_allocation s' = last_allocation s \<and> last_static_allocation s' = last_static_allocation s \<and>
     (0 \<le> num_conflict s \<and> num_conflict s \<le> num_conflict_resolve_th \<longrightarrow>
      0 \<le> num_conflict s' \<and> num_conflict s' \<le> num_conflict_resolve_th)"

lemma counters_only_refl: "counters_only s s" by (simp add: counters_only_def)

lemma check_iteration_cases:
  assumes "check_iteration par mx it self cur ps = Inr r" and "on_simplex (ps_price ps)"
  obtains "r = Again ps" "it \<le> mx + maximum_retry"
  | "r = Done self cur False True ps" "\<not> over (fst (compute_resource_usage cur))"
      "\<not> over (snd (compute_resource_usage cur))"
  | self' la where "r = Done self' la True False ps" "last_allocation self = Some la" "counters_only self self'"
proof -
  consider "it < mx" | "mx \<le> it" "\<not> over (fst (compute_resource_usage cur))" "\<not> over (snd (compute_resource_usage cur))"
    | "mx \<le> it" "over (fst (compute_resource_usage cur)) \<or> over (snd (compute_resource_usage cur))"
      "it \<le> mx + maximum_retry"
    | "mx \<le> it" "over (fst (compute_resource_usage cur)) \<or> over (snd (compute_resource_usage cur))"
      "\<not> it \<le> mx + maximum_retry"
    by linarith
  then show thesis
  proof cases
    case 4
    then show thesis
      using assms(1) on_simplex_not_floor [OF assms(2)] that(3)
      by (auto simp: check_iteration_def Let_def counters_only_def num_conflict_resolve_th_def split: option.splits)
  qed (use assms(1) on_simplex_not_floor [OF assms(2)] that in
      \<open>auto simp: check_iteration_def Let_def maximum_retry_def\<close>)
qed

text \<open>What one iteration of the bisection gives.\<close>

lemma binary_iteration_cases:
  assumes "price_iteration par est rs Binary users weights mx self it ps = Inr r" and "bracket (ps_price ps)"
  obtains pv cur ks l ps' where
    "bracket pv" "mid_of_ends pv" "width pv = width (ps_price ps)"
    "find_best_allocation_per_user est rs self pv users weights (search_granularity par) (search_range par)
       = Inr (cur, ks, l)"
    "bracket (ps_price ps')" "p_cache (ps_price ps') = p_cache pv" "on_simplex (ps_price ps')"
    "ps_num_iter ps' = ps_num_iter ps @ ks"
    "(r = Again ps' \<and> it \<le> mx + maximum_retry \<and> width (ps_price ps') \<le> 7 / 8 * width (ps_price ps)) \<or>
     (\<exists>self'. r = Done self' cur False True ps' \<and> counters_only self self' \<and>
        \<not> over (fst (compute_resource_usage cur)) \<and> \<not> over (snd (compute_resource_usage cur))) \<or>
     (\<exists>self' la. r = Done self' la True False ps' \<and> last_allocation self = Some la \<and> counters_only self self')"
  using assms(1)
proof (rule price_iteration_BinaryE)
  fix pv cur ks l
  assume mid: "compute_and_update_mid (ps_price ps) = Inr pv"
    and fb: "find_best_allocation_per_user est rs self pv users weights (search_granularity par) (search_range par)
       = Inr (cur, ks, l)"
    and r: "(\<exists>ps'. update_price_binary (compute_resource_usage cur) (update_limited not_limited l) pv = Inr None \<and>
        r = Done (self\<lparr>num_conflict := 0\<rparr>) cur False True ps' \<and> ps_price ps' = pv \<and>
        ps_num_iter ps' = ps_num_iter ps @ ks) \<or>
     (\<exists>pv' ps'. update_price_binary (compute_resource_usage cur) (update_limited not_limited l) pv = Inr (Some pv') \<and>
        check_iteration par mx it self cur ps' = Inr r \<and> ps_price ps' = pv' \<and> ps_num_iter ps' = ps_num_iter ps @ ks)"
  note pv = mid_bracket [OF assms(2) mid]
  note res = that [OF pv fb]
  from r show thesis
  proof (elim disjE exE conjE)
    fix ps'
    assume u: "update_price_binary (compute_resource_usage cur) (update_limited not_limited l) pv = Inr None"
      and *: "r = Done (self\<lparr>num_conflict := 0\<rparr>) cur False True ps'" "ps_price ps' = pv"
        "ps_num_iter ps' = ps_num_iter ps @ ks"
    have "counters_only self (self\<lparr>num_conflict := 0\<rparr>)"
      by (simp add: counters_only_def num_conflict_resolve_th_def)
    then show thesis using res [of ps'] * pv mid_positive(3) [OF pv(1,2)] update_binary_None [OF u] by blast
  next
    fix pv' ps'
    assume u: "update_price_binary (compute_resource_usage cur) (update_limited not_limited l) pv = Inr (Some pv')"
      and c: "check_iteration par mx it self cur ps' = Inr r" and *: "ps_price ps' = pv'" "ps_num_iter ps' = ps_num_iter ps @ ks"
    note b = update_binary_bracket [OF pv(1,2) u]
    from c show thesis
      by (rule check_iteration_cases) (use res [of ps'] b * pv(3) counters_only_refl in auto)
  qed
qed


text \<open>The bound on the iterations, the price interval and the checked points, for all iterations.\<close>

definition loop_state :: "spirit_params \<Rightarrow> int list \<Rightarrow> int \<Rightarrow> int \<Rightarrow> price_state \<Rightarrow> bool" where
  "loop_state par users mx it ps \<longleftrightarrow>
     bracket (ps_price ps) \<and> 0 \<le> it \<and> it \<le> max 0 (mx + maximum_retry) \<and>
     width (ps_price ps) \<le> (7 / 8) ^ nat it \<and> length (ps_num_iter ps) = nat it * length users \<and>
     (\<forall>k \<in> set (ps_num_iter ps). k \<le> nat (py_int (1 / search_granularity par)))"

lemma ptas_checked_points:
  assumes "ptas_algorithm est u g budget pv la sta rs rng = Inr (r, k, l)"
  shows "k \<le> nat (py_int (1 / g))"
  using assms
proof (cases rule: ptas_algorithmE)
  case (1 best0 util0 last_alloc util1 s)
  from checked_point_rloop [OF 1(4)] show ?thesis using 1(7) by simp
qed

lemma loop_state_step:
  assumes "loop_state par users mx it ps" and "distinct users"
    and "price_iteration par est rs Binary users weights mx self (it + 1) ps = Inr (Again ps')"
  shows "loop_state par users mx (it + 1) ps'"
proof -
  have ps: "bracket (ps_price ps)" "0 \<le> it" using assms(1) by (simp_all add: loop_state_def)
  from assms(3) ps(1) show ?thesis
  proof (cases rule: binary_iteration_cases)
    case (1 pv cur ks l ps1)
    then have [simp]: "ps1 = ps'" by auto
    have w: "width (ps_price ps') \<le> 7 / 8 * width (ps_price ps)" "it + 1 \<le> mx + maximum_retry" using 1(9) by auto
    have "7 / 8 * width (ps_price ps) \<le> (7 / 8) ^ nat (it + 1)"
      using assms(1) ps(2) by (simp add: loop_state_def nat_add_distrib)
    moreover obtain as where as: "length ks = length users"
      "\<And>i. i < length users \<Longrightarrow> best_for est rs self pv (length users) weights (search_granularity par)
         (search_range par) (users ! i) (as ! i) (ks ! i)"
      using find_best_InrE [OF 1(4) assms(2)] by blast
    moreover have "k \<le> nat (py_int (1 / search_granularity par))" if "k \<in> set ks" for k
      using that as unfolding in_set_conv_nth best_for_def by (auto dest: ptas_checked_points)
    ultimately show ?thesis
      using assms(1) w 1(5,8) ps(2) by (auto simp: loop_state_def nat_add_distrib)
  qed
qed

lemma loop_state_init:
  "loop_state par users mx 0
     \<lparr>ps_price = \<lparr>p_cache = 0, p_mem_bw = 0,
        ends = Some (\<lparr>p_cache = 1, p_mem_bw = 0\<rparr>, \<lparr>p_cache = 0, p_mem_bw = 1\<rparr>)\<rparr>,
      ps_coef = 5 / 100, ps_searched = [], ps_num_iter = []\<rparr>"
  by (simp add: loop_state_def bisection_defs)

text \<open>The whole of \<open>allocate\<close>, for the bisection: the price of the last iteration, and allocations that fit
  or the last allocation again.\<close>

lemma allocateE:
  assumes "allocate par est rs Binary users weights self = Inr (self', cur, ks, conv)" and "distinct users"
  obtains it pv pvf where
    "0 \<le> it" "it \<le> max 0 (max_iteration self + maximum_retry)" "bracket pv" "mid_of_ends pv" "width pv \<le> (7 / 8) ^ nat it"
    "bracket pvf" "on_simplex pvf" "p_cache pvf = p_cache pv"
    "\<And>u. u \<in> set users \<Longrightarrow> price_tag (the (map_of cur u)) = Some pvf"
    "length ks = nat (it + 1) * length users" "\<And>k. k \<in> set ks \<Longrightarrow> k \<le> nat (py_int (1 / search_granularity par))"
    "users \<noteq> []" "set users \<subseteq> set (keys cur)"
    "(\<exists>as. conv \<and> amounts cur = amounts (zip users as) \<and> length as = length users \<and>
        (\<forall>i < length users. \<exists>k. best_for est rs self pv (length users) weights (search_granularity par)
           (search_range par) (users ! i) (as ! i) k) \<and>
        \<not> over (fst (compute_resource_usage cur)) \<and> \<not> over (snd (compute_resource_usage cur)) \<and>
        counters_only self self') \<or>
     (\<exists>la. \<not> conv \<and> last_allocation self = Some la \<and> amounts cur = amounts la \<and>
        counters_only (self\<lparr>last_allocation := Some cur\<rparr>) self')"
proof -
  let ?ps0 = "\<lparr>ps_price = \<lparr>p_cache = 0, p_mem_bw = 0,
        ends = Some (\<lparr>p_cache = 1, p_mem_bw = 0\<rparr>, \<lparr>p_cache = 0, p_mem_bw = 1\<rparr>)\<rparr>,
      ps_coef = 5 / 100, ps_searched = [], ps_num_iter = []\<rparr>"
  let ?mx = "max_iteration self"
  obtain s1 cur1 reused psf where run:
    "price_loop par est rs Binary users weights ?mx self 0 ?ps0 = Inr (s1, cur1, reused, conv, psf)"
    "rfold (tag_price (ps_price psf)) users cur1 = Inr cur" "ks = ps_num_iter psf"
    "self' = (if reused then s1\<lparr>last_allocation := Some cur\<rparr> else s1)"
    using assms(1) by (auto simp: allocate_def rbind_eq_Inr)
  obtain it ps where ps: "loop_state par users ?mx it ps"
    "price_iteration par est rs Binary users weights ?mx self (it + 1) ps = Inr (Done s1 cur1 reused conv psf)"
    using price_loop_rule [where P = "loop_state par users ?mx", OF run(1) loop_state_init]
      loop_state_step [OF _ assms(2)] by blast
  have b: "bracket (ps_price ps)" using ps(1) by (simp add: loop_state_def)
  note tag = tag_all [OF run(2)]
  from ps(2) b show thesis
  proof (cases rule: binary_iteration_cases)
    case (1 pv cur0 js l ps1)
    then have [simp]: "ps1 = psf" by auto
    obtain as where as: "cur0 = zip users as" "length as = length users" "length js = length users" "users \<noteq> []"
      "\<And>i. i < length users \<Longrightarrow> best_for est rs self pv (length users) weights (search_granularity par)
         (search_range par) (users ! i) (as ! i) (js ! i)"
      using find_best_InrE [OF 1(4) assms(2)] by blast
    have js: "k \<le> nat (py_int (1 / search_granularity par))" if "k \<in> set js" for k
      using that as unfolding in_set_conv_nth best_for_def by (auto dest: ptas_checked_points)
    have it: "0 \<le> it" "it \<le> max 0 (?mx + maximum_retry)" "width pv \<le> (7 / 8) ^ nat it"
      "length (ps_num_iter ps) = nat it * length users"
      "\<And>k. k \<in> set (ps_num_iter ps) \<Longrightarrow> k \<le> nat (py_int (1 / search_granularity par))"
      using ps(1) 1(3) by (auto simp: loop_state_def)
    have ks: "length ks = nat (it + 1) * length users" "\<And>k. k \<in> set ks \<Longrightarrow> k \<le> nat (py_int (1 / search_granularity par))"
      using it run(3) 1(8) as(3) js by (auto simp: nat_add_distrib)
    have keys: "set users \<subseteq> set (keys cur)" using tag amounts_keys [of cur cur1] by simp
    note res = that [OF it(1,2) 1(1,2) it(3) 1(5) 1(7) 1(6) _ ks as(4) keys]
    have tagged: "price_tag (the (map_of cur u)) = Some (ps_price ps1)" if "u \<in> set users" for u
      using tag that by simp
    have usage: "compute_resource_usage cur = compute_resource_usage cur1" using tag amounts_usage by blast
    show thesis
    proof (rule res [OF tagged])
      from 1(9) show "(\<exists>as. conv \<and> amounts cur = amounts (zip users as) \<and> length as = length users \<and>
        (\<forall>i < length users. \<exists>k. best_for est rs self pv (length users) weights (search_granularity par)
           (search_range par) (users ! i) (as ! i) k) \<and>
        \<not> over (fst (compute_resource_usage cur)) \<and> \<not> over (snd (compute_resource_usage cur)) \<and>
        counters_only self self') \<or>
       (\<exists>la. \<not> conv \<and> last_allocation self = Some la \<and> amounts cur = amounts la \<and>
          counters_only (self\<lparr>last_allocation := Some cur\<rparr>) self')"
        using as(1,2,5) tag usage run(4) by (auto simp: counters_only_def)
    qed
  qed
qed

section \<open>Positive allocations\<close>

text \<open>A scale as the configuration gives it: all limits set, minima above zero, and no application may have
  the whole cache of a VM.\<close>

definition good_scale :: "resource_scale \<Rightarrow> bool" where
  "good_scale rs \<longleftrightarrow>
     0 < rs_cache rs \<and> 0 < rs_mem_bw rs \<and>
     (case (rs_min_cache rs, rs_max_cache rs, rs_min_mem_bw rs, rs_max_mem_bw rs) of
        (Some mc, Some xc, Some mb, Some xb) \<Rightarrow> 0 < mc \<and> xc < rs_cache rs \<and> 0 < mb
      | _ \<Rightarrow> False)"

definition positive :: "alloc \<Rightarrow> bool" where
  "positive a \<longleftrightarrow> 0 < cache a \<and> 0 < mem_bw a"

lemma good_scaleD:
  assumes "good_scale rs"
  shows "0 < rs_cache rs" "0 < rs_mem_bw rs" "0 < min_cache (fill_scale rs)" "0 < min_mem_bw (fill_scale rs)"
    "\<exists>x. max_cache (fill_scale rs) = Bounded x \<and> x < rs_cache rs"
  using assms by (auto simp: good_scale_def fill_scale_def lb_of_def ub_of_def split: option.splits)

lemma within_limits_positive:
  assumes "good_scale rs" and "within_limits (fill_scale rs) (cache a) (mem_bw a)"
  shows "positive a"
proof -
  have "0 < cache a * rs_cache rs" "0 < mem_bw a * rs_mem_bw rs"
    using assms(2) good_scaleD(3,4) [OF assms(1)] by (auto simp: within_limits_def)
  then show ?thesis using good_scaleD(1,2) [OF assms(1)] by (auto simp: positive_def zero_less_mult_iff)
qed

lemma affordable_positive: "affordable_mem_bw c budget e pv = Inr b \<Longrightarrow> 0 < e \<Longrightarrow> 0 < b"
  by (auto simp: affordable_mem_bw_def rbind_eq_Inr less_max_iff_disj)

lemma clamp_positive:
  "0 < c \<Longrightarrow> 0 < cache cur \<Longrightarrow> 0 \<le> rng \<Longrightarrow> 0 < clamp_to_range (get_search_dict cur rng) c"
  by (auto simp: clamp_to_range_def get_search_dict_def)

text \<open>The truncating repair is never taken when no application may have the whole cache.\<close>

lemma repair_rejected:
  assumes "good_scale rs"
  shows "exceeds (of_int n * rs_cache rs) (max_cache (fill_scale rs)) \<or>
         min_cache (fill_scale rs) > of_int n * rs_cache rs"
proof (cases "0 < n")
  case True
  then have "rs_cache rs \<le> of_int n * rs_cache rs" using good_scaleD(1) [OF assms] by simp
  then show ?thesis using good_scaleD(5) [OF assms] by auto
next
  case False
  then have "of_int n * rs_cache rs \<le> 0" using good_scaleD(1) [OF assms] by (simp add: mult_nonpos_nonneg)
  then show ?thesis using good_scaleD(3) [OF assms] by simp
qed

lemma static_candidate_positive:
  assumes "static_candidate st budget e pv (fill_scale rs) (get_search_dict cur rng) = Inr a"
    and "good_scale rs" and "0 < e" and "positive st" and "positive cur" and "0 \<le> rng"
  shows "positive a"
proof -
  let ?c = "clamp_to_range (get_search_dict cur rng) (cache st)"
  have c: "0 < ?c" using clamp_positive assms(4-6) by (simp add: positive_def)
  from assms(1) obtain b where b: "affordable_mem_bw ?c budget e pv = Inr b"
    by (auto simp: static_candidate_def Let_def elim: rbind_eq_InrE)
  show ?thesis
  proof (cases "exceeds (b * rs_mem_bw rs) (max_mem_bw (fill_scale rs)) \<or> min_mem_bw (fill_scale rs) > b * rs_mem_bw rs")
    case True
    then have "a = st"
      using assms(1) b repair_rejected [OF assms(2)]
      by (auto simp: static_candidate_def Let_def rbind_eq_Inr split: if_splits)
    then show ?thesis using assms(4) by simp
  next
    case False
    then have "a = st\<lparr>cache := ?c, mem_bw := b\<rparr>" using assms(1) b by (simp add: static_candidate_def Let_def)
    then show ?thesis using c affordable_positive [OF b assms(3)] by (simp add: positive_def)
  qed
qed

lemma ptas_positive:
  assumes "ptas_algorithm est u e budget pv la sta rs (get_search_dict cur rng) = Inr (Some a, k, l)"
    and "good_scale rs" and "0 < e" and "positive cur" and "0 \<le> rng"
    and "\<And>d st. sta = Some d \<Longrightarrow> map_of d u = Some st \<Longrightarrow> positive st"
  shows "positive a"
proof -
  obtain r where "origin est u e budget pv la sta rs (get_search_dict cur rng) a r"
    using assms(1) by (rule ptas_originE)
  then show ?thesis
    unfolding origin_def
  proof (elim disjE exE conjE)
    fix st w
    assume "Option.bind sta (\<lambda>d. map_of d u) = Some st"
      "static_candidate st budget e pv (fill_scale rs) (get_search_dict cur rng) = Inr a"
    then show ?thesis using static_candidate_positive assms(2-6) by (auto simp: bind_eq_Some_conv)
  next
    fix v
    assume "check_last_allocation u la (budget * margin_in_budget) e pv (fill_scale rs) est v = Inr (Some a, r)"
    then show ?thesis using check_last_allocation_Some(1) within_limits_positive [OF assms(2)] by blast
  next
    fix k c b
    assume "grid_point (search_ctx est u e budget pv la rs (get_search_dict cur rng)) k c b r" "a = mk_alloc c b"
    then show ?thesis using grid_point_within_limits within_limits_positive [OF assms(2), of a] by fastforce
  qed
qed

section \<open>The search does not raise\<close>

text \<open>What \<open>allocate\<close> needs of the last allocation and of the weights.\<close>

definition tradable :: "int list \<Rightarrow> (int, rat) dict \<Rightarrow> spirit \<Rightarrow> bool" where
  "tradable users weights s \<longleftrightarrow>
    (case last_allocation s of None \<Rightarrow> False
     | Some la \<Rightarrow> \<forall>u \<in> set users. map_of weights u \<noteq> None \<and> (\<exists>a. map_of la u = Some a \<and> positive a))"

lemma get_static_allocation_returns [returns_intros]: "0 < n \<Longrightarrow> returns (get_static_allocation n)"
  by (simp add: get_static_allocation_def)

context utility_estimator
begin

lemma find_best_returns:
  assumes "tradable users weights s" and "users \<noteq> []" and "\<forall>u \<in> set users. ready e u" and "good_scale rs"
    and "0 < g" and "0 < p_cache pv" and "0 < p_mem_bw pv"
  shows "returns (find_best_allocation_per_user (est e) rs s pv users weights g rng)"
proof -
  obtain la where la: "last_allocation s = Some la"
    "\<And>u. u \<in> set users \<Longrightarrow> map_of weights u \<noteq> None" "\<And>u. u \<in> set users \<Longrightarrow> \<exists>a. map_of la u = Some a \<and> positive a"
    using assms(1) by (auto simp: tradable_def split: option.splits)
  have "returns (find_best_user (est e) rs s pv (length users) weights g rng u st)" if "u \<in> set users" for u st
  proof -
    have "returns (ptas_algorithm (est e) u g budget pv (Some la) sta rs r)" for budget sta r
      using ptas_returns [of e u g pv rs "Some la"] assms(3-7) that la(3) [OF that] good_scaleD(1,2) [OF assms(4)]
      by (auto simp: positive_def)
    moreover have "map_of la u \<noteq> None" "map_of weights u \<noteq> None" using la(2,3) [OF that] by auto
    ultimately show ?thesis
      unfolding find_best_user_def la(1) option.case
      using assms(2) by (intro returns_intros) auto
  qed
  then show ?thesis
    unfolding find_best_allocation_per_user_def using assms(2) by (intro returns_intros) auto
qed

lemma price_iteration_returns:
  assumes "tradable users weights s" and "users \<noteq> []" and "\<forall>u \<in> set users. ready e u" and "good_scale rs"
    and "0 < search_granularity par" and "bracket (ps_price ps)"
  shows "returns (price_iteration par (est e) rs Binary users weights mx s it ps)"
proof -
  obtain la where la: "last_allocation s = Some la" using assms(1) by (auto simp: tradable_def split: option.splits)
  have check: "returns (check_iteration par mx it s cur ps')" for cur ps'
    unfolding check_iteration_def Let_def la option.case by (intro returns_intros)
  obtain pv where pv: "compute_and_update_mid (ps_price ps) = Inr pv"
    using compute_mid_returns [OF assms(6)] by (auto simp: returns_def)
  note b = mid_bracket [OF assms(6) pv] mid_positive [OF mid_bracket(1,2) [OF assms(6) pv]]
  obtain cur ks l where "find_best_allocation_per_user (est e) rs s pv users weights (search_granularity par)
      (search_range par) = Inr (cur, ks, l)"
    using find_best_returns [OF assms(1-5) b(4,5), of "search_range par"] by (auto simp: returns_def)
  then show ?thesis
    unfolding price_iteration_def Let_def using pv b(1)
    by (auto intro!: returns_rbind returns_case_option update_binary_returns check)
qed

lemma allocate_returns:
  assumes "tradable users weights s" and "users \<noteq> []" and "\<forall>u \<in> set users. ready e u" and "good_scale rs"
    and "0 < search_granularity par" and "distinct users"
  shows "returns (allocate par (est e) rs Binary users weights s)"
proof -
  let ?ps0 = "\<lparr>ps_price = \<lparr>p_cache = 0, p_mem_bw = 0,
        ends = Some (\<lparr>p_cache = 1, p_mem_bw = 0\<rparr>, \<lparr>p_cache = 0, p_mem_bw = 1\<rparr>)\<rparr>,
      ps_coef = 5 / 100, ps_searched = [], ps_num_iter = []\<rparr>"
  let ?P = "loop_state par users (max_iteration s)"
  have iter: "returns (price_iteration par (est e) rs Binary users weights (max_iteration s) s (it + 1) ps)"
    if "?P it ps" for it ps
    using price_iteration_returns [OF assms(1-5)] that by (simp add: loop_state_def)
  have loop: "returns (price_loop par (est e) rs Binary users weights (max_iteration s) s 0 ?ps0)"
    by (rule price_loop_returns [where P = ?P, OF loop_state_init iter loop_state_step [OF _ assms(6)]])
  then obtain s1 cur reused conv psf where run: 
    "price_loop par (est e) rs Binary users weights (max_iteration s) s 0 ?ps0 = Inr (s1, cur, reused, conv, psf)"
    by (auto simp: returns_def)
  obtain it ps where ps: "?P it ps"
    "price_iteration par (est e) rs Binary users weights (max_iteration s) s (it + 1) ps = Inr (Done s1 cur reused conv psf)"
    using price_loop_rule [where P = ?P, OF run loop_state_init] loop_state_step [OF _ assms(6)] by blast
  then have "bracket (ps_price ps)" by (simp add: loop_state_def)
  with ps(2) have "set users \<subseteq> set (keys cur)"
  proof (cases rule: binary_iteration_cases)
    case (1 pv cur0 js l ps1)
    obtain as where "cur0 = zip users as" "length as = length users"
      using find_best_InrE [OF 1(4) assms(6)] by blast
    then have "keys cur0 = users" by simp
    moreover have "set users \<subseteq> set (keys la)" if "last_allocation s = Some la" for la
      using assms(1) that has_key_iff [of la] by (fastforce simp: tradable_def has_key_def)
    ultimately show ?thesis using 1(9) by auto
  qed
  then have "returns (rfold (tag_price (ps_price psf)) users cur)" by (rule tag_returns)
  then show ?thesis unfolding allocate_def using run by (auto simp: Let_def returns_def)
qed

end

end
