(* ===== verification/Static_Alloc.thy ===== *)
theory Static_Alloc
  imports Allocator
begin

text \<open>
  \<open>src/res_allocation/allocators/static_allocator.py\<close>: every VM is divided equally among its
  applications.  The allocator keeps no state.
\<close>

section \<open>Model\<close>

definition share_all :: "resource_scale \<Rightarrow> int \<Rightarrow> int list \<Rightarrow> deployment \<Rightarrow> deployment res" where
  "share_all rs n us d = rfold (\<lambda>u d. rbind (equal_share rs n) (\<lambda>s. Inr (dict_set u s d))) us d"

definition flat_allocation :: "resource_scale \<Rightarrow> int list \<Rightarrow> int \<Rightarrow> deployment res" where
  "flat_allocation rs users num_vms =
    (if num_vms = 0 then Inl ZeroDivisionError
     else rfold (\<lambda>(idx, user) d.
            rbind (equal_share rs (users_in_this_vm (length users) num_vms idx)) (\<lambda>s.
            Inr (dict_set user s d))) (enumerate 0 users) [])"

definition static_vm :: "resource_scale \<Rightarrow> int list \<Rightarrow> int \<times> int list \<Rightarrow> deployment \<Rightarrow> deployment res" where
  "static_vm rs users entry d =
    (let vm_apps = vm_users users (snd entry) in
     if vm_apps = [] then Inr d else share_all rs (int (length vm_apps)) vm_apps d)"

text \<open>\<open>set(users) - set(...)\<close>; the order in which Python walks the set only decides the order of the new
  keys, and is that of the user list here.\<close>

definition unassigned_users :: "int list \<Rightarrow> vm_map \<Rightarrow> int list" where
  "unassigned_users users m = filter (\<lambda>u. u \<notin> set (mapped_apps m)) (remdups users)"

definition static_allocate_and_parse :: "resource_scale \<Rightarrow> round_input \<Rightarrow> deployment res" where
  "static_allocate_and_parse rs i =
    (let m = ri_vm_map i in
     rbind (get_app_ids (ri_estimator i)) (\<lambda>users.
     if m = [] then flat_allocation rs users (get_num_vms (ri_estimator i))
     else
       rbind (rfold (static_vm rs users) m []) (\<lambda>d.
       let un = unassigned_users users m in
       if un = [] then Inr d else share_all rs (int (length un)) un d)))"

definition static_step :: "resource_scale \<Rightarrow> round_input \<Rightarrow> unit \<Rightarrow> (unit \<times> deployment) res" where
  "static_step rs i s = rbind (static_allocate_and_parse rs i) (\<lambda>d. Inr ((), d))"

section \<open>Lemmas\<close>

lemma share_all_map_of:
  assumes "equal_share rs n = Inr s" and "share_all rs n us d = Inr d'"
  shows "map_of d' u = (if u \<in> set us then Some s else map_of d u)"
  using assms(2)
proof (induction us arbitrary: d)
  case (Cons v us)
  then have "share_all rs n us (dict_set v s d) = Inr d'" using assms(1) by (simp add: share_all_def)
  from Cons.IH [OF this] show ?case by auto
qed (simp add: share_all_def)

lemma share_all_returns [returns_intros]: "0 < n \<Longrightarrow> returns (share_all rs n us d)"
  unfolding share_all_def equal_share_def by (intro returns_intros) auto

lemma flat_allocation_map_of:
  assumes "num_vms \<noteq> 0" and "distinct users"
  shows "\<exists>d. flat_allocation rs users num_vms = Inr d \<and> keys d = users \<and>
    (\<forall>idx < length users. equal_share rs (users_in_this_vm (length users) num_vms idx) =
       Inr (the (map_of d (users ! idx))))"
proof -
  define g where "g idx = users_in_this_vm (length users) num_vms idx" for idx
  have g: "equal_share rs (g idx) = Inr (the (case equal_share rs (g idx) of Inr s \<Rightarrow> Some s | _ \<Rightarrow> None))"
    if "idx < length users" for idx
    using users_in_this_vm_pos [OF that, of num_vms] by (simp add: g_def equal_share_eq)
  define s where "s idx = the (case equal_share rs (g idx) of Inr s \<Rightarrow> Some s | _ \<Rightarrow> None)" for idx
  have loop: "rfold (\<lambda>(idx, user) d. rbind (equal_share rs (g idx)) (\<lambda>s. Inr (dict_set user s d)))
      (enumerate n us) d = Inr (d @ map (\<lambda>(i, u). (u, s i)) (enumerate n us))"
    if "distinct us" "set (keys d) \<inter> set us = {}" "n + length us \<le> length users" for n us d
    using that
  proof (induction us arbitrary: n d)
    case (Cons u us)
    have "u \<notin> set (keys d)" using Cons.prems(2) by auto
    then have d: "dict_set u (s n) d = d @ [(u, s n)]" by (induction d) auto
    have "equal_share rs (g n) = Inr (s n)" using g [of n] Cons.prems(3) by (simp add: s_def)
    then show ?case using Cons.IH [of "d @ [(u, s n)]" "Suc n"] Cons.prems d by simp
  qed simp
  let ?d = "map (\<lambda>(i, u). (u, s i)) (enumerate 0 users)"
  have "flat_allocation rs users num_vms = Inr ?d"
    using loop [of users "[]" 0] assms by (simp add: flat_allocation_def g_def)
  moreover have keys: "keys ?d = users" by (simp add: comp_def case_prod_beta enumerate_map_upt)
  moreover have "map_of ?d (users ! idx) = Some (s idx)" if "idx < length users" for idx
  proof (rule map_of_is_SomeI)
    show "wf_dict ?d" using keys assms(2) by simp
    have "(idx, users ! idx) \<in> set (enumerate 0 users)" using that by (simp add: in_set_enumerate_eq)
    then show "(users ! idx, s idx) \<in> set ?d" by force
  qed
  ultimately show ?thesis using g by (auto simp: s_def g_def)
qed


text \<open>The loop over the VMs: an application of some VM has the share of that VM.\<close>

lemma static_vms_map_of:
  assumes "rfold (static_vm rs users) m d = Inr d'" and "distinct (mapped_apps m)"
  shows "(\<forall>vm apps u. (vm, apps) \<in> set m \<longrightarrow> u \<in> set (vm_users users apps) \<longrightarrow>
      (\<exists>s. map_of d' u = Some s \<and> equal_share rs (int (length (vm_users users apps))) = Inr s)) \<and>
    (\<forall>u. u \<notin> set (mapped_apps m) \<longrightarrow> map_of d' u = map_of d u)"
  using assms
proof (induction m arbitrary: d)
  case (Cons e m)
  obtain vm0 apps0 where e: "e = (vm0, apps0)" by force
  let ?us = "vm_users users apps0"
  from Cons.prems(1) obtain d1 where d1: "static_vm rs users e d = Inr d1" "rfold (static_vm rs users) m d1 = Inr d'"
    by (auto elim: rbind_eq_InrE)
  have disj: "distinct (mapped_apps m)" "set apps0 \<inter> set (mapped_apps m) = {}"
    using Cons.prems(2) e by (auto simp: mapped_apps_def)
  have us: "set ?us \<subseteq> set apps0" by (auto simp: vm_users_def)
  have first: "(u \<in> set ?us \<longrightarrow> (\<exists>s. map_of d1 u = Some s \<and> equal_share rs (int (length ?us)) = Inr s)) \<and>
      (u \<notin> set ?us \<longrightarrow> map_of d1 u = map_of d u)" for u
  proof (cases "?us = []")
    case False
    then obtain s where s: "equal_share rs (int (length ?us)) = Inr s" by (simp add: equal_share_eq)
    with d1(1) e False share_all_map_of [OF s, of ?us d d1 u] show ?thesis by (simp add: static_vm_def Let_def)
  qed (use d1(1) e in \<open>simp add: static_vm_def\<close>)
  note IH = Cons.IH [OF d1(2) disj(1)]
  show ?case
  proof (intro conjI allI impI)
    fix vm apps u
    assume *: "(vm, apps) \<in> set (e # m)" "u \<in> set (vm_users users apps)"
    show "\<exists>s. map_of d' u = Some s \<and> equal_share rs (int (length (vm_users users apps))) = Inr s"
    proof (cases "(vm, apps) \<in> set m")
      case True
      then show ?thesis using IH *(2) by blast
    next
      case False
      then have "apps = apps0" using *(1) e by simp
      moreover have "map_of d' u = map_of d1 u" using IH calculation *(2) us disj(2) by blast
      ultimately show ?thesis using first [of u] *(2) by simp
    qed
  next
    fix u
    assume "u \<notin> set (mapped_apps (e # m))"
    then have "u \<notin> set (mapped_apps m)" "u \<notin> set ?us" using us e by (auto simp: mapped_apps_def)
    then show "map_of d' u = map_of d u" using first [of u] IH by simp
  qed
qed simp

lemma static_vm_returns [returns_intros]: "returns (static_vm rs users e d)"
  unfolding static_vm_def by (intro returns_intros) auto

lemma flat_allocation_returns [returns_intros]:
  assumes "num_vms \<noteq> 0"
  shows "returns (flat_allocation rs users num_vms)"
  unfolding flat_allocation_def
  using assms users_in_this_vm_pos
  by (auto intro!: returns_intros simp: equal_share_eq in_set_enumerate_eq)

lemma static_allocate_eq:
  assumes "get_app_ids (ri_estimator i) = Inr users" and "ri_vm_map i \<noteq> []"
  shows "static_allocate_and_parse rs i =
    rbind (rfold (static_vm rs users) (ri_vm_map i) []) (\<lambda>d.
       let un = unassigned_users users (ri_vm_map i) in
       if un = [] then Inr d else share_all rs (int (length un)) un d)"
  using assms by (simp add: static_allocate_and_parse_def Let_def)

lemma static_allocate_map_of:
  assumes "get_app_ids (ri_estimator i) = Inr users" and "ri_vm_map i \<noteq> []"
    and "static_allocate_and_parse rs i = Inr d" and "distinct (mapped_apps (ri_vm_map i))"
  shows "(vm, apps) \<in> set (ri_vm_map i) \<Longrightarrow> u \<in> set (vm_users users apps) \<Longrightarrow>
      \<exists>s. map_of d u = Some s \<and> equal_share rs (int (length (vm_users users apps))) = Inr s"
    and "u \<in> set users \<Longrightarrow> map_of d u \<noteq> None"
proof -
  let ?m = "ri_vm_map i"
  let ?un = "unassigned_users users ?m"
  obtain d0 where d0: "rfold (static_vm rs users) ?m [] = Inr d0"
    "(if ?un = [] then Inr d0 else share_all rs (int (length ?un)) ?un d0) = Inr d"
    using assms(3) unfolding static_allocate_eq [OF assms(1,2)] by (auto simp: rbind_eq_Inr Let_def)
  have un: "(v \<in> set ?un \<longrightarrow> map_of d v \<noteq> None) \<and> (v \<notin> set ?un \<longrightarrow> map_of d v = map_of d0 v)" for v
  proof (cases "?un = []")
    case False
    then obtain s where "equal_share rs (int (length ?un)) = Inr s" by (simp add: equal_share_eq)
    then show ?thesis using share_all_map_of d0(2) False by simp
  qed (use d0(2) in simp)
  have vm: "\<exists>s. map_of d u = Some s \<and> equal_share rs (int (length (vm_users users apps))) = Inr s"
    if "(vm, apps) \<in> set ?m" "u \<in> set (vm_users users apps)" for vm apps u
  proof -
    have "u \<in> set (mapped_apps ?m)" using that by (force simp: mapped_apps_def vm_users_def)
    then have "map_of d u = map_of d0 u" using un by (simp add: unassigned_users_def)
    then show ?thesis using static_vms_map_of [OF d0(1) assms(4)] that by simp
  qed
  then show "(vm, apps) \<in> set ?m \<Longrightarrow> u \<in> set (vm_users users apps) \<Longrightarrow>
      \<exists>s. map_of d u = Some s \<and> equal_share rs (int (length (vm_users users apps))) = Inr s" .
  show "map_of d u \<noteq> None" if "u \<in> set users"
  proof (cases "u \<in> set (mapped_apps ?m)")
    case True
    then obtain vm apps where "(vm, apps) \<in> set ?m" "u \<in> set apps" by (auto simp: mapped_apps_def)
    then show ?thesis using vm [of vm apps u] that by (auto simp: vm_users_def)
  next
    case False
    then have "u \<in> set ?un" using that by (simp add: unassigned_users_def)
    then show ?thesis using un [of u] by simp
  qed
qed

section \<open>The contract\<close>

definition static_input :: "resource_scale \<Rightarrow> int list \<Rightarrow> round_input \<Rightarrow> bool" where
  "static_input rs users i \<longleftrightarrow>
     0 \<le> rs_cache rs \<and> 0 \<le> rs_mem_bw rs \<and> get_app_ids (ri_estimator i) = Inr users \<and>
     wf_vm_map (ri_vm_map i) \<and> (ri_vm_map i = [] \<longrightarrow> get_num_vms (ri_estimator i) \<noteq> 0)"

lemma static_fits:
  assumes "static_input rs users i" and "static_allocate_and_parse rs i = Inr d"
  shows "fits rs 0 users (ri_vm_map i) d"
  unfolding fits_def
proof (intro ballI case_prodI2)
  fix e vm apps
  assume *: "e \<in> set (ri_vm_map i)" "e = (vm, apps)"
  let ?us = "vm_users users apps"
  show "vm_fits rs 0 ?us d"
  proof (cases "?us = []")
    case False
    then obtain s where s: "equal_share rs (int (length ?us)) = Inr s" by (simp add: equal_share_eq)
    have "ri_vm_map i \<noteq> []" using *(1) by auto
    with s show ?thesis
      using assms * static_allocate_map_of(1) [of i users rs d vm apps] False
      by (intro vm_fits_equal [of rs ?us d s]) (auto simp: static_input_def wf_vm_map_def)
  qed (use assms(1) in \<open>simp add: vm_fits_def static_input_def\<close>)
qed

lemma static_returns:
  assumes "static_input rs users i"
  shows "returns (static_allocate_and_parse rs i)"
proof (cases "ri_vm_map i = []")
  case True
  then show ?thesis using assms
    by (simp add: static_allocate_and_parse_def static_input_def flat_allocation_returns)
next
  case False
  have users: "get_app_ids (ri_estimator i) = Inr users" using assms by (simp add: static_input_def)
  show ?thesis unfolding static_allocate_eq [OF users False] by (intro returns_intros) auto
qed

interpretation st: total_allocator "static_step rs" "static_input rs users" "\<lambda>_. True"
  "\<lambda>i. fits rs 0 users (ri_vm_map i)" for rs users
  by unfold_locales
    (auto simp: static_step_def rbind_eq_Inr intro!: returns_rbind static_returns dest: static_fits)

text \<open>C13. No round of the static allocator raises, and in every round each VM of the mapping of that round has
  its applications together at most the VM's cache and bandwidth; the mapping may change from round to
  round, and may be missing at first.\<close>

theorem static_rounds_fit:
  assumes "\<forall>i \<in> set is. static_input rs users i"
  shows "\<exists>ds. rounds (static_step rs) is () = Inr ((), ds) \<and>
     list_all2 (\<lambda>i d. fits rs 0 users (ri_vm_map i) d) is ds"
proof -
  obtain ds where "rounds (static_step rs) is () = Inr ((), ds)"
    using st.rounds_return [OF _ assms] by (auto simp: returns_def)
  then show ?thesis using st.rounds_promise [OF _ _ assms] by auto
qed

definition two_vms :: round_input where
  "two_vms =
     \<lparr>ri_estimator = init_estimator
        \<lparr>profiles_config := Some (map (\<lambda>u. \<lparr>pf_user_id = Some u, pf_file = Some [], pf_sensitivity = None,
            pf_oracle = None, pf_clip_l3miss = None, pf_clip_iteration = None\<rparr>) [1, 2, 3])\<rparr>,
      ri_vm_map = [(0, [1, 2]), (1, [3])], ri_total_record = \<lambda>_. None,
      ri_env = \<lparr>env_alloc = None, env_monitor = None\<rparr>, ri_skip_monitoring = False\<rparr>"

definition no_vms :: round_input where
  "no_vms = two_vms\<lparr>ri_vm_map := []\<rparr>"

lemma two_vms_input: "\<forall>i \<in> set [no_vms, two_vms]. static_input sample_scale [1, 2, 3] i"
  by (simp add: no_vms_def get_num_vms_def static_input_def two_vms_def sample_scale_def init_estimator_def get_app_ids_def
      wf_vm_map_def mapped_apps_def)

theorem static_rounds_fit_witness:
  "\<exists>ds. rounds (static_step sample_scale) [no_vms, two_vms] () = Inr ((), ds) \<and>
     list_all2 (\<lambda>i d. fits sample_scale 0 [1, 2, 3] (ri_vm_map i) d) [no_vms, two_vms] ds"
  by (rule static_rounds_fit [OF two_vms_input])

text \<open>Without a VM mapping, and when the number of VMs divides the number of users, every user gets
  the equal share of one VM among the users of one VM.\<close>

lemma flat_allocation_even:
  assumes "0 < num_vms" and "num_vms dvd int (length users)" and "distinct users" and "u \<in> set users"
  shows "\<exists>d s. flat_allocation rs users num_vms = Inr d \<and> map_of d u = Some s \<and>
           equal_share rs (int (length users) div num_vms) = Inr s"
proof -
  obtain idx where idx: "idx < length users" "u = users ! idx" using assms(4) by (metis in_set_conv_nth)
  obtain d where d: "flat_allocation rs users num_vms = Inr d" "keys d = users"
    "equal_share rs (users_in_this_vm (length users) num_vms idx) = Inr (the (map_of d u))"
    using flat_allocation_map_of [of num_vms users rs] assms(1,3) idx by auto
  have "map_of d u \<noteq> None" using d(2) assms(4) has_key_iff [of d u] by (simp add: has_key_def)
  then show ?thesis using d users_in_this_vm_even [OF assms(1,2) idx(1)] by auto
qed

text \<open>When the number of VMs does not divide the number of users, the flat allocation hands out more
  than the VMs have: with five users on two VMs of 10240 MB and 7.5 Gbps it deploys 30720 MB.\<close>

lemma flat_allocation_overcommits:
  "\<exists>d. flat_allocation sample_scale [1, 2, 3, 4, 5] 2 = Inr d \<and>
     (\<Sum>u\<leftarrow>[1, 2, 3, 4, 5]. cache_of d u) = 30720 \<and> of_int 30720 > 2 * rs_cache sample_scale"
  by (simp add: flat_allocation_def sample_scale_def equal_share_eq users_in_this_vm_def cache_of_def
      py_int_def)

end
