(* ===== verification/Spirit_Rounds.thy ===== *)
theory Spirit_Rounds
  imports Spirit_Search Static_Alloc
begin

text \<open>
  The rounds of the Spirit allocator: the invariant that every round keeps, the contract
  \<open>total_allocator\<close> of the theory \<open>Allocator\<close> proved for \<open>spirit_allocate_and_parse\<close>, and the properties of
  the allocator.
\<close>

section \<open>What a round keeps\<close>

text \<open>The amounts of one VM's applications in the last allocation.\<close>

definition vm_amounts_fit :: "allocs \<Rightarrow> int list \<Rightarrow> bool" where
  "vm_amounts_fit la us \<longleftrightarrow>
     \<not> over (\<Sum>u\<leftarrow>us. cache (the (map_of la u))) \<and> \<not> over (\<Sum>u\<leftarrow>us. mem_bw (the (map_of la u)))"

definition held :: "allocs \<Rightarrow> int list \<Rightarrow> bool" where
  "held la us \<longleftrightarrow> (\<forall>u \<in> set us. \<exists>a. map_of la u = Some a \<and> positive a)"

definition all_positive :: "allocs \<Rightarrow> bool" where
  "all_positive la \<longleftrightarrow> (\<forall>u a. map_of la u = Some a \<longrightarrow> positive a)"

text \<open>The deployment is the last allocation in MB and Mbps, for the users it has.\<close>

definition consistent :: "resource_scale \<Rightarrow> allocs \<Rightarrow> deployment \<Rightarrow> bool" where
  "consistent rs la d \<longleftrightarrow>
     (\<forall>u x. map_of d u = Some x \<longrightarrow> (\<exists>a. map_of la u = Some a \<and> x = to_deployed rs a))"

definition spirit_inv :: "int list \<Rightarrow> vm_map \<Rightarrow> spirit \<Rightarrow> bool" where
  "spirit_inv users m s \<longleftrightarrow>
    (case (last_allocation s, last_static_allocation s) of
       (Some la, Some sa) \<Rightarrow>
         wf_dict la \<and> held la users \<and> all_positive sa \<and> all_positive la \<and>
         (\<forall>(vm, apps) \<in> set m. vm_amounts_fit la (spirit_users users apps))
     | _ \<Rightarrow> False) \<and>
    0 \<le> num_conflict s \<and> num_conflict s \<le> num_conflict_resolve_th"

lemma set_spirit_users: "set (spirit_users users apps) = set apps \<inter> set users"
  by (auto simp: spirit_users_def vm_users_def)

lemma distinct_spirit_users: "distinct apps \<Longrightarrow> distinct (spirit_users users apps)"
  by (simp add: spirit_users_def vm_users_def)

lemma sum_spirit_users: "(\<Sum>u\<leftarrow>vm_users users apps. f u) = (\<Sum>u\<leftarrow>spirit_users users apps. f u :: rat)"
proof -
  have "mset (map f (vm_users users apps)) = mset (map f (spirit_users users apps))"
    by (simp add: spirit_users_def)
  then show ?thesis using sum_mset_sum_list by metis
qed

lemma sum_truncated_le:
  fixes c S :: rat
  assumes "\<And>u. u \<in> set us \<Longrightarrow> f u \<le> g u * S" and "0 < S" and "\<not> over (\<Sum>u\<leftarrow>us. g u)"
  shows "(\<Sum>u\<leftarrow>us. f u) \<le> (1 + float_precision) * S"
proof -
  have "(\<Sum>u\<leftarrow>us. f u) \<le> (\<Sum>u\<leftarrow>us. g u * S)" using assms(1) by (intro sum_list_mono) auto
  also have "\<dots> = (\<Sum>u\<leftarrow>us. g u) * S" by (rule sum_list_mult_const)
  also have "\<dots> \<le> (1 + float_precision) * S" using assms(2,3) by (simp add: over_def)
  finally show ?thesis .
qed

lemma consistent_fits:
  assumes "consistent rs la d" and "held la users" and "good_scale rs"
    and "\<forall>(vm, apps) \<in> set m. vm_amounts_fit la (spirit_users users apps)"
  shows "fits rs float_precision users m d"
  unfolding fits_def
proof (intro ballI case_prodI2)
  fix e vm apps
  assume "e \<in> set m" "e = (vm, apps)"
  then have fit: "vm_amounts_fit la (spirit_users users apps)" using assms(4) by auto
  have u: "of_int (cache_of d u) \<le> cache (the (map_of la u)) * rs_cache rs"
    "of_int (mem_bw_of d u) \<le> mem_bw (the (map_of la u)) * (rs_mem_bw rs * 1024)"
    if user: "u \<in> set (spirit_users users apps)" for u
  proof -
    obtain a where a: "map_of la u = Some a" "positive a"
      using assms(2) user by (auto simp: held_def set_spirit_users)
    have pos: "0 \<le> cache a * rs_cache rs" "0 \<le> mem_bw a * (rs_mem_bw rs * 1024)"
      using a(2) good_scaleD(1,2) [OF assms(3)] by (auto simp: positive_def)
    show "of_int (cache_of d u) \<le> cache (the (map_of la u)) * rs_cache rs"
      "of_int (mem_bw_of d u) \<le> mem_bw (the (map_of la u)) * (rs_mem_bw rs * 1024)"
      using assms(1) a(1) pos py_int_le [OF pos(1)] py_int_le [OF pos(2)]
      by (cases "map_of d u"; force simp: consistent_def cache_of_def mem_bw_of_def to_deployed_def mult.assoc)+
  qed
  show "vm_fits rs float_precision (vm_users users apps) d"
    unfolding vm_fits_def sum_spirit_users
  proof
    show "(\<Sum>u\<leftarrow>spirit_users users apps. rat_of_int (cache_of d u)) \<le> (1 + float_precision) * rs_cache rs"
      by (rule sum_truncated_le [OF u(1)])
        (use fit good_scaleD(1) [OF assms(3)] in \<open>auto simp: vm_amounts_fit_def\<close>)
    show "(\<Sum>u\<leftarrow>spirit_users users apps. rat_of_int (mem_bw_of d u)) \<le> (1 + float_precision) * (rs_mem_bw rs * 1024)"
      by (rule sum_truncated_le [OF u(2)])
        (use fit good_scaleD(2) [OF assms(3)] in \<open>auto simp: vm_amounts_fit_def\<close>)
  qed
qed

subsection \<open>Rounds with equal shares\<close>

lemma give_all:
  assumes "rfold (give_share rs n) us (d, la) = Inr (d', la')" and "0 < n"
  defines "a \<equiv> mk_alloc (1 / of_int n) (1 / of_int n)"
  shows "map_of la' = (\<lambda>u. if u \<in> set us then Some a else map_of la u) \<and>
    map_of d' = (\<lambda>u. if u \<in> set us then Some (to_deployed rs a) else map_of d u) \<and> (wf_dict la \<longrightarrow> wf_dict la')"
  using assms(1)
proof (induction us arbitrary: d la)
  case (Cons u us)
  have "give_share rs n u (d, la) = Inr (dict_set u (to_deployed rs a) d, dict_set u a la)"
    using assms(2) by (simp add: give_share_def equal_share_eq a_def to_deployed_def)
  then have "rfold (give_share rs n) us (dict_set u (to_deployed rs a) d, dict_set u a la) = Inr (d', la')"
    using Cons.prems by simp
  from Cons.IH [OF this] show ?case by (auto simp: fun_eq_iff)
qed simp

lemma equal_parts_fit:
  assumes "us \<noteq> []" and "\<And>u. u \<in> set us \<Longrightarrow> map_of la u = Some (mk_alloc (1 / of_nat (length us)) (1 / of_nat (length us)))"
  shows "vm_amounts_fit la us"
proof -
  have "(\<Sum>u\<leftarrow>us. cache (the (map_of la u))) = 1" "(\<Sum>u\<leftarrow>us. mem_bw (the (map_of la u))) = 1"
    using assms sum_list_const_on [of us _ "1 / of_nat (length us)"] by simp_all
  then show ?thesis by (simp add: vm_amounts_fit_def over_def float_precision_def)
qed

lemma vm_amounts_fit_cong:
  "(\<And>u. u \<in> set us \<Longrightarrow> map_of la u = map_of la' u) \<Longrightarrow> vm_amounts_fit la us = vm_amounts_fit la' us"
  by (simp add: vm_amounts_fit_def cong: map_cong)

lemma vm_amounts_fit_Nil [simp]: "vm_amounts_fit la []"
  by (simp add: vm_amounts_fit_def over_def float_precision_def)

lemma static_vms:
  assumes "rfold (spirit_static_vm rs users) m (d, la) = Inr (d', la')" and "distinct (mapped_apps m)"
    and "wf_dict la" and "consistent rs la d" and "all_positive la"
  shows "wf_dict la' \<and> consistent rs la' d' \<and> all_positive la' \<and>
    (\<forall>u. u \<notin> set (mapped_apps m) \<longrightarrow> map_of la' u = map_of la u) \<and>
    (\<forall>(vm, apps) \<in> set m. vm_amounts_fit la' (spirit_users users apps) \<and> held la' (spirit_users users apps))"
  using assms
proof (induction m arbitrary: d la)
  case (Cons e m)
  obtain vm0 apps0 where e: "e = (vm0, apps0)" by force
  let ?us = "spirit_users users apps0"
  let ?a = "mk_alloc (1 / of_nat (length ?us)) (1 / of_nat (length ?us))"
  obtain d1 la1 where 1: "spirit_static_vm rs users e (d, la) = Inr (d1, la1)"
    "rfold (spirit_static_vm rs users) m (d1, la1) = Inr (d', la')"
    using Cons.prems(1) by (auto elim!: rbind_eq_InrE)
  have step: "wf_dict la1" "consistent rs la1 d1" "all_positive la1"
    "map_of la1 = (\<lambda>u. if u \<in> set ?us then Some ?a else map_of la u)"
  proof -
    have "wf_dict la1 \<and> consistent rs la1 d1 \<and> all_positive la1 \<and>
      map_of la1 = (\<lambda>u. if u \<in> set ?us then Some ?a else map_of la u)"
    proof (cases "?us = []")
      case False
      then have "rfold (give_share rs (int (length ?us))) ?us (d, la) = Inr (d1, la1)"
        using 1(1) e by (simp add: spirit_static_vm_def Let_def)
      from give_all [OF this] Cons.prems(3-5) False show ?thesis
        by (auto simp: consistent_def all_positive_def positive_def)
    qed (use 1(1) e Cons.prems in \<open>auto simp: spirit_static_vm_def\<close>)
    then show "wf_dict la1" "consistent rs la1 d1" "all_positive la1"
      "map_of la1 = (\<lambda>u. if u \<in> set ?us then Some ?a else map_of la u)" by auto
  qed
  have disj: "distinct (mapped_apps m)" "set apps0 \<inter> set (mapped_apps m) = {}"
    using Cons.prems(2) e by (auto simp: mapped_apps_def)
  note IH = Cons.IH [OF 1(2) disj(1) step(1-3)]
  have here: "map_of la' u = map_of la1 u" if "u \<in> set ?us" for u
    using IH that disj(2) by (auto simp: set_spirit_users)
  have "vm_amounts_fit la' ?us"
    using here step(4) equal_parts_fit [of ?us la'] by (cases "?us = []") auto
  moreover have "held la' ?us" using here step(4) by (auto simp: held_def positive_def)
  moreover have "map_of la' u = map_of la u" if "u \<notin> set (mapped_apps (e # m))" for u
    using IH step(4) that e by (simp add: mapped_apps_def set_spirit_users)
  ultimately show ?case using IH e by auto
qed simp

lemma static_round_inv:
  assumes "static_round rs i users s = Inr (s', d)" and "is_complete_vm_map users (ri_vm_map i)"
    and "wf_vm_map (ri_vm_map i)" and "0 \<le> num_conflict s" and "num_conflict s \<le> num_conflict_resolve_th"
  shows "spirit_inv users (ri_vm_map i) s'"
    and "good_scale rs \<Longrightarrow> fits rs float_precision users (ri_vm_map i) d"
proof -
  let ?m = "ri_vm_map i"
  obtain la where la: "rfold (spirit_static_vm rs users) ?m ([], []) = Inr (d, la)"
    "s' = s\<lparr>last_allocation := Some la, last_static_allocation := Some la\<rparr>"
    using assms(1,2) by (auto simp: static_round_def rbind_eq_Inr)
  have *: "wf_dict la" "consistent rs la d" "all_positive la"
    "\<forall>(vm, apps) \<in> set ?m. vm_amounts_fit la (spirit_users users apps) \<and> held la (spirit_users users apps)"
    using static_vms [OF la(1)] assms(3) by (auto simp: wf_vm_map_def consistent_def all_positive_def)
  have held: "held la users"
    using assms(2) *(4) by (fastforce simp: held_def is_complete_vm_map_def mapped_apps_def set_spirit_users)
  have fit: "\<forall>(vm, apps) \<in> set ?m. vm_amounts_fit la (spirit_users users apps)" using *(4) by auto
  show "spirit_inv users ?m s'" using la(2) * held fit assms(4,5) by (simp add: spirit_inv_def)
  show "fits rs float_precision users ?m d" if "good_scale rs"
    using consistent_fits [OF *(2) held that fit] .
qed

subsection \<open>Rounds with a market\<close>

lemma map_of_keys: "u \<in> set (keys d) \<Longrightarrow> \<exists>a. map_of d u = Some a"
  using has_key_iff [of d u] by (auto simp: has_key_def)

lemma record_all:
  assumes "fold (record_user rs) cur (la, d) = (la', d')" and "wf_dict cur"
  shows "map_of la' = (\<lambda>u. case map_of cur u of None \<Rightarrow> map_of la u | Some a \<Rightarrow> Some (alloc_update (map_of la u) a)) \<and>
    map_of d' = (\<lambda>u. case map_of cur u of None \<Rightarrow> map_of d u | Some a \<Rightarrow> Some (to_deployed rs a)) \<and>
    (wf_dict la \<longrightarrow> wf_dict la')"
  using assms
proof (induction cur arbitrary: la d)
  case (Cons p cur)
  obtain u a where [simp]: "p = (u, a)" by force
  have "map_of cur u = None" using Cons.prems(2) by (simp add: map_of_eq_None_iff)
  then show ?case
    using Cons.IH [of "dict_set u (alloc_update (map_of la u) a) la" "dict_set u (to_deployed rs a) d"] Cons.prems
    by (auto simp: record_user_def fun_eq_iff split: option.splits)
qed simp

lemma alloc_update_amounts [simp]:
  "cache (alloc_update old a) = cache a" "mem_bw (alloc_update old a) = mem_bw a"
  "positive (alloc_update old a) = positive a" "to_deployed rs (alloc_update old a) = to_deployed rs a"
  by (auto simp: alloc_update_def positive_def to_deployed_def split: option.splits)

text \<open>A market that clears: the allocations of its users are positive.\<close>

lemma best_for_positive:
  assumes "best_for est rs s pv n weights g rng u a k" and "good_scale rs" and "0 < g" and "0 \<le> rng" and "0 < n"
    and "all_positive sa" and "last_static_allocation s = Some sa" and "last_allocation s = Some la" and "all_positive la"
  shows "positive a"
proof -
  obtain cur budget r l where *: "map_of la u = Some cur"
    "ptas_algorithm est u g budget pv (Some la) (last_static_allocation s) rs (get_search_dict cur rng) = Inr (r, k, l)"
    "case r of Some a' \<Rightarrow> a = a' | None \<Rightarrow> get_static_allocation (int n) = Inr a"
    using assms(1,8) by (auto simp: best_for_def)
  show ?thesis
  proof (cases r)
    case None
    then show ?thesis using *(3) assms(5) by (auto simp: get_static_allocation_def positive_def)
  next
    case (Some a')
    then show ?thesis
      using ptas_positive [OF _ assms(2,3) _ assms(4), of est u budget pv "Some la" _ cur a k l] * assms(6-9)
      by (auto simp: all_positive_def)
  qed
qed

lemma zip_map_of:
  assumes "length as = length us" and "distinct us" and "i < length us"
  shows "map_of (zip us as) (us ! i) = Some (as ! i)"
  using assms by (simp add: map_of_zip_nth)

lemma usage_as_sum:
  assumes "wf_dict cur"
  shows "compute_resource_usage cur =
    ((\<Sum>u\<leftarrow>keys cur. cache (the (map_of cur u))), (\<Sum>u\<leftarrow>keys cur. mem_bw (the (map_of cur u))))"
proof -
  have "map (\<lambda>(_, a). cache a) cur = map (\<lambda>u. cache (the (map_of cur u))) (keys cur)"
    "map (\<lambda>(_, a). mem_bw a) cur = map (\<lambda>u. mem_bw (the (map_of cur u))) (keys cur)"
    using assms by (auto simp: map_of_is_SomeI)
  then show ?thesis unfolding compute_resource_usage_def by (simp only:)
qed

text \<open>After \<open>allocate\<close> for one VM: what the allocations say of the VM's users, and that those of other VMs are
  what they were.\<close>

definition vm_outcome :: "allocs \<Rightarrow> int list \<Rightarrow> allocs \<Rightarrow> bool" where
  "vm_outcome la us cur \<longleftrightarrow>
     wf_dict cur \<and> all_positive cur \<and> vm_amounts_fit cur us \<and> set us \<subseteq> set (keys cur) \<and>
     (\<forall>u a. u \<notin> set us \<longrightarrow> map_of cur u = Some a \<longrightarrow>
       (\<exists>b. map_of la u = Some b \<and> cache b = cache a \<and> mem_bw b = mem_bw a))"

lemma cleared_outcome:
  assumes "amounts cur = amounts (zip us as)" and "length as = length us" and "distinct us"
    and "\<And>i. i < length us \<Longrightarrow> positive (as ! i)"
    and "\<not> over (fst (compute_resource_usage cur))" and "\<not> over (snd (compute_resource_usage cur))"
  shows "vm_outcome la us cur"
proof -
  have keys: "keys cur = us" using amounts_keys [OF assms(1)] assms(2) by simp
  then have wf: "wf_dict cur" using assms(3) by simp
  have in_us: "u \<in> set us \<longleftrightarrow> map_of cur u \<noteq> None" for u
    using keys has_key_iff [of cur u] by (simp add: has_key_def)
  have "positive a" if a: "map_of cur u = Some a" for u a
  proof -
    obtain i where i: "i < length us" "u = us ! i" using in_us [of u] a by (metis in_set_conv_nth option.distinct(1))
    then show ?thesis
      using assms(4) amounts_map_of [OF assms(1) a] zip_map_of [OF assms(2,3) i(1)] by (fastforce simp: positive_def)
  qed
  then have "all_positive cur" by (simp add: all_positive_def)
  moreover have "vm_amounts_fit cur us"
    using assms(5,6) usage_as_sum [OF wf] keys by (simp add: vm_amounts_fit_def)
  ultimately show ?thesis using wf keys in_us by (auto simp: vm_outcome_def)
qed

lemma reused_outcome:
  assumes "amounts cur = amounts la" and "set us \<subseteq> set (keys cur)" and "wf_dict la" and "all_positive la"
    and "vm_amounts_fit la us"
  shows "vm_outcome la us cur"
proof -
  have same: "\<exists>b. map_of la u = Some b \<and> cache b = cache a \<and> mem_bw b = mem_bw a"
    if "map_of cur u = Some a" for u a using amounts_map_of [OF assms(1) that] by simp
  then have "all_positive cur" using assms(4) unfolding all_positive_def positive_def by metis
  moreover have "cache (the (map_of cur u)) = cache (the (map_of la u)) \<and>
      mem_bw (the (map_of cur u)) = mem_bw (the (map_of la u))" if u: "u \<in> set us" for u
  proof -
    obtain a where "map_of cur u = Some a" using map_of_keys [OF subsetD [OF assms(2) u]] by blast
    then show ?thesis using same by fastforce
  qed
  then have "vm_amounts_fit cur us" using assms(5) by (simp add: vm_amounts_fit_def cong: map_cong)
  ultimately show ?thesis
    using assms(2,3) same amounts_keys [OF assms(1)] by (auto simp: vm_outcome_def)
qed

lemma allocate_outcome:
  assumes "allocate par est rs Binary us weights s = Inr (s', cur, ks, conv)" and "distinct us"
    and s: "last_allocation s = Some la" "last_static_allocation s = Some sa"
    and la: "wf_dict la" "all_positive la" "all_positive sa" "vm_amounts_fit la us"
    and rs: "good_scale rs" "0 < search_granularity par" "0 \<le> search_range par"
  shows "vm_outcome la us cur \<and> (\<exists>la1. last_allocation s' = Some la1 \<and> amounts la1 = amounts la) \<and>
    last_static_allocation s' = Some sa \<and>
    (0 \<le> num_conflict s \<and> num_conflict s \<le> num_conflict_resolve_th \<longrightarrow>
      0 \<le> num_conflict s' \<and> num_conflict s' \<le> num_conflict_resolve_th)"
  using assms(1,2)
proof (cases rule: allocateE)
  case (1 it pv pvf)
  from 1(14) show ?thesis
  proof (elim disjE exE conjE)
    fix as
    assume as: "amounts cur = amounts (zip us as)" "length as = length us"
      "\<forall>i < length us. \<exists>k. best_for est rs s pv (length us) weights (search_granularity par)
         (search_range par) (us ! i) (as ! i) k"
      "\<not> over (fst (compute_resource_usage cur))" "\<not> over (snd (compute_resource_usage cur))"
      and co: "counters_only s s'"
    have "positive (as ! i)" if "i < length us" for i
      using as(3) best_for_positive [OF _ rs _ la(3) s(2,1) la(2)] 1(12) that by fastforce
    then show ?thesis using cleared_outcome [OF as(1,2) assms(2) _ as(4,5)] co s by (simp add: counters_only_def)
  next
    fix la0
    assume "last_allocation s = Some la0" and am: "amounts cur = amounts la0"
      and co: "counters_only (s\<lparr>last_allocation := Some cur\<rparr>) s'"
    then show ?thesis using reused_outcome [OF _ 1(13) la(1,2,4)] s by (auto simp: counters_only_def)
  qed
qed

text \<open>Storing the outcome of one VM keeps what holds of all VMs.\<close>

lemma record_outcome:
  assumes "vm_outcome la us cur" and "fold (record_user rs) cur (la1, d) = (la', d')" and "amounts la1 = amounts la"
    and "wf_dict la" and "held la users" and "all_positive la" and "consistent rs la d"
  shows "wf_dict la' \<and> held la' users \<and> all_positive la' \<and> consistent rs la' d' \<and> vm_amounts_fit la' us \<and>
    (\<forall>vs. set vs \<inter> set us = {} \<longrightarrow> set vs \<subseteq> set users \<longrightarrow> vm_amounts_fit la vs \<longrightarrow> vm_amounts_fit la' vs)"
proof -
  note o = assms(1) [unfolded vm_outcome_def]
  have la': "map_of la' = (\<lambda>u. case map_of cur u of None \<Rightarrow> map_of la1 u | Some a \<Rightarrow> Some (alloc_update (map_of la1 u) a))"
    "map_of d' = (\<lambda>u. case map_of cur u of None \<Rightarrow> map_of d u | Some a \<Rightarrow> Some (to_deployed rs a))" "wf_dict la'"
    using record_all [OF assms(2)] o amounts_keys [OF assms(3)] assms(4) by auto
  have la1: "\<exists>b. map_of la u = Some b \<and> cache b = cache a \<and> mem_bw b = mem_bw a" if "map_of la1 u = Some a" for u a
    using amounts_map_of [OF assms(3) that] .
  have la1': "\<exists>b. map_of la1 u = Some b \<and> cache b = cache a \<and> mem_bw b = mem_bw a" if "map_of la u = Some a" for u a
    using amounts_map_of [OF assms(3) [symmetric] that] .
  have pos: "all_positive la'"
    using la'(1) o la1 assms(6) by (fastforce simp: all_positive_def positive_def split: option.splits)
  have "held la' users"
    unfolding held_def
  proof
    fix u assume "u \<in> set users"
    then obtain a where "map_of la1 u = Some a" using assms(5) la1' unfolding held_def by blast
    then obtain b where "map_of la' u = Some b" using la'(1) by (cases "map_of cur u") auto
    then show "\<exists>b. map_of la' u = Some b \<and> positive b" using pos by (auto simp: all_positive_def)
  qed
  moreover have "consistent rs la' d'"
    using assms(7) la1' la'(1,2) unfolding consistent_def by (fastforce simp: to_deployed_def split: option.splits)
  moreover have "vm_amounts_fit la' us"
  proof -
    have "map_of cur u \<noteq> None" if "u \<in> set us" for u using o that map_of_keys [of u cur] by blast
    then have "cache (the (map_of la' u)) = cache (the (map_of cur u)) \<and> mem_bw (the (map_of la' u)) = mem_bw (the (map_of cur u))"
      if "u \<in> set us" for u using that la'(1) by fastforce
    then show ?thesis using o by (simp add: vm_amounts_fit_def cong: map_cong)
  qed
  moreover have "vm_amounts_fit la' vs" if vs: "set vs \<inter> set us = {}" "set vs \<subseteq> set users" "vm_amounts_fit la vs" for vs
  proof -
    have "cache (the (map_of la' u)) = cache (the (map_of la u)) \<and> mem_bw (the (map_of la' u)) = mem_bw (the (map_of la u))"
      if u: "u \<in> set vs" for u
    proof -
      obtain a where "map_of la u = Some a" using assms(5) vs(2) u by (auto simp: held_def)
      then show ?thesis using la1' [of u a] la'(1) o vs(1) u by (fastforce split: option.splits)
    qed
    then show ?thesis using vs(3) by (simp add: vm_amounts_fit_def cong: map_cong)
  qed
  ultimately show ?thesis using la'(3) pos by blast
qed

definition round_inv :: "resource_scale \<Rightarrow> int list \<Rightarrow> vm_map \<Rightarrow> spirit \<times> deployment \<Rightarrow> bool" where
  "round_inv rs users m st \<longleftrightarrow>
     spirit_inv users m (fst st) \<and> (\<forall>la. last_allocation (fst st) = Some la \<longrightarrow> consistent rs la (snd st))"

lemma spirit_invE:
  assumes "spirit_inv users m s"
  obtains la sa where "last_allocation s = Some la" "last_static_allocation s = Some sa" "wf_dict la"
    "held la users" "all_positive sa" "all_positive la"
    "\<And>vm apps. (vm, apps) \<in> set m \<Longrightarrow> vm_amounts_fit la (spirit_users users apps)"
    "0 \<le> num_conflict s \<and> num_conflict s \<le> num_conflict_resolve_th"
proof -
  obtain la sa where *: "last_allocation s = Some la" "last_static_allocation s = Some sa"
    using assms by (auto simp: spirit_inv_def split: option.splits)
  show thesis by (rule that [OF *]) (use assms * in \<open>auto simp: spirit_inv_def\<close>)
qed

lemma mapped_apps_disjoint:
  assumes "distinct (mapped_apps m)" and "(vm, apps) \<in> set m" and "(vm', apps') \<in> set m"
  shows "distinct apps" "apps = apps' \<or> set apps \<inter> set apps' = {}"
proof -
  have "apps \<in> set (map snd m)" "apps' \<in> set (map snd m)" using assms(2,3) by force+
  then show "distinct apps" "apps = apps' \<or> set apps \<inter> set apps' = {}"
    using assms(1) unfolding mapped_apps_def distinct_concat_iff by blast+
qed

lemma dynamic_vm_inv:
  assumes "dynamic_vm par est rs users e st = Inr st'" and "e \<in> set m" and "distinct (mapped_apps m)"
    and inv: "round_inv rs users m st"
    and rs: "good_scale rs" "0 < search_granularity par" "0 \<le> search_range par"
  shows "round_inv rs users m st'"
proof -
  obtain s d where st: "st = (s, d)" by force
  obtain vm apps where e: "e = (vm, apps)" by force
  let ?us = "spirit_users users apps"
  have "spirit_inv users m s" using inv st by (simp add: round_inv_def)
  then obtain la sa where s: "last_allocation s = Some la" "last_static_allocation s = Some sa" "wf_dict la"
    "held la users" "all_positive sa" "all_positive la"
    "\<And>vm apps. (vm, apps) \<in> set m \<Longrightarrow> vm_amounts_fit la (spirit_users users apps)"
    "0 \<le> num_conflict s \<and> num_conflict s \<le> num_conflict_resolve_th" by (rule spirit_invE) blast
  have cons: "consistent rs la d" using inv st s(1) by (simp add: round_inv_def)
  have apps: "distinct ?us" "vm_amounts_fit la ?us"
    using mapped_apps_disjoint(1) [OF assms(3), of vm apps vm apps] distinct_spirit_users s(7) assms(2) e by auto
  show ?thesis
  proof (cases "?us = []")
    case False
    let ?w = "map (\<lambda>u. (u, 1 / of_nat (length ?us))) ?us"
    obtain s1 cur ks conv la1 where run:
      "allocate par est rs Binary ?us ?w s = Inr (s1, cur, ks, conv)" "last_allocation s1 = Some la1"
      using assms(1) False by (auto simp: dynamic_vm_def st e Let_def rbind_eq_Inr split: option.splits)
    obtain la' d' where run': "fold (record_user rs) cur (la1, d) = (la', d')" by force
    then have st': "st' = (s1\<lparr>last_allocation := Some la'\<rparr>, d')"
      using assms(1) False run by (simp add: dynamic_vm_def st e Let_def)
    note out = allocate_outcome [OF run(1) apps(1) s(1-3,6,5) apps(2) rs]
    then have o: "vm_outcome la ?us cur" "amounts la1 = amounts la" "last_static_allocation s1 = Some sa" using run(2) by auto
    note rec = record_outcome [OF o(1) run' o(2) s(3,4,6) cons]
    have "vm_amounts_fit la' (spirit_users users apps')" if "(vm', apps') \<in> set m" for vm' apps'
    proof (cases "apps' = apps")
      case False
      then have "set (spirit_users users apps') \<inter> set ?us = {}"
        using mapped_apps_disjoint(2) [OF assms(3) that, of vm apps] assms(2) e by (auto simp: set_spirit_users)
      then show ?thesis using rec s(7) [OF that] by (auto simp: set_spirit_users)
    qed (use rec in simp)
    then show ?thesis using rec out s(5,8) o(3) st' by (auto simp: round_inv_def spirit_inv_def)
  qed (use assms(1) inv st e in \<open>simp add: dynamic_vm_def\<close>)
qed

lemma dynamic_vm_returns:
  assumes "round_inv rs users m st" and "e \<in> set m" and "distinct (mapped_apps m)"
    and ready: "\<forall>u \<in> set users. est_ready env u"
    and rs: "good_scale rs" "0 < search_granularity par" "0 \<le> search_range par"
  shows "returns (dynamic_vm par (get_estimation env) rs users e st)"
proof -
  obtain s d where st: "st = (s, d)" by force
  obtain vm apps where e: "e = (vm, apps)" by force
  let ?us = "spirit_users users apps"
  have "spirit_inv users m s" using assms(1) st by (simp add: round_inv_def)
  then obtain la sa where s: "last_allocation s = Some la" "last_static_allocation s = Some sa" "wf_dict la"
    "held la users" "all_positive sa" "all_positive la"
    "\<And>vm apps. (vm, apps) \<in> set m \<Longrightarrow> vm_amounts_fit la (spirit_users users apps)"
    "0 \<le> num_conflict s \<and> num_conflict s \<le> num_conflict_resolve_th" by (rule spirit_invE) blast
  have apps: "distinct ?us" "vm_amounts_fit la ?us"
    using mapped_apps_disjoint(1) [OF assms(3), of vm apps vm apps] distinct_spirit_users s(7) assms(2) e by auto
  show ?thesis
  proof (cases "?us = []")
    case False
    let ?w = "map (\<lambda>u. (u, 1 / of_nat (length ?us))) ?us"
    have "tradable ?us ?w s"
      using s(1,4) by (auto simp: tradable_def held_def set_spirit_users map_of_eq_None_iff image_image)
    then have "returns (allocate par (get_estimation env) rs Binary ?us ?w s)"
      using rt.allocate_returns [OF _ False _ rs(1,2) apps(1)] ready by (auto simp: set_spirit_users)
    then obtain s1 cur ks conv where run: "allocate par (get_estimation env) rs Binary ?us ?w s = Inr (s1, cur, ks, conv)"
      by (auto simp: returns_def)
    have "last_allocation s1 \<noteq> None"
      using allocate_outcome [OF run apps(1) s(1-3,6,5) apps(2) rs] by auto
    then show ?thesis using run False by (auto simp: dynamic_vm_def st e Let_def split: prod.splits)
  qed (simp add: dynamic_vm_def st e)
qed

section \<open>The contract\<close>

text \<open>A round in which the mapping is complete and the estimator can answer for every user.\<close>

definition spirit_input :: "spirit_params \<Rightarrow> resource_scale \<Rightarrow> int list \<Rightarrow> vm_map \<Rightarrow> round_input \<Rightarrow> bool" where
  "spirit_input par rs users m i \<longleftrightarrow>
     good_scale rs \<and> 0 < search_granularity par \<and> 0 \<le> search_range par \<and>
     get_app_ids (ri_estimator i) = Inr users \<and> ri_vm_map i = m \<and> wf_vm_map m \<and> is_complete_vm_map users m \<and>
     (\<forall>u \<in> set users. est_ready (ri_env i) u)"

lemma static_round_returns:
  assumes "is_complete_vm_map users (ri_vm_map i)"
  shows "returns (static_round rs i users s)"
proof -
  have "returns (give_share rs (int (length us)) u st)" if "us \<noteq> []" for us :: "int list" and u st
    using that by (simp add: give_share_def equal_share_eq)
  then have "returns (rfold (spirit_static_vm rs users) (ri_vm_map i) ([], []))"
    unfolding spirit_static_vm_def by (intro returns_intros) auto
  then show ?thesis using assms by (auto simp: static_round_def returns_def)
qed

lemma spirit_first_round:
  assumes "spirit_input par rs users m i" and "use_static par i users s"
    and "0 \<le> num_conflict s" and "num_conflict s \<le> num_conflict_resolve_th"
  obtains s' d where "spirit_allocate_and_parse par rs i s = Inr (s', d)" "spirit_inv users m s'"
    "fits rs float_precision users m d"
proof -
  have i: "good_scale rs" "get_app_ids (ri_estimator i) = Inr users" "ri_vm_map i = m" "wf_vm_map m" "is_complete_vm_map users m"
    using assms(1) by (auto simp: spirit_input_def)
  then obtain s' d where r: "static_round rs i users s = Inr (s', d)"
    using static_round_returns [of users i rs s] by (auto simp: returns_def)
  then have "spirit_allocate_and_parse par rs i s = Inr (s', d)"
    using assms(2) i by (simp add: spirit_allocate_and_parse_def)
  then show thesis using that static_round_inv [OF r] i assms(3,4) by simp
qed

lemma spirit_round_inv:
  assumes "spirit_input par rs users m i" and "spirit_inv users m s"
    and "spirit_allocate_and_parse par rs i s = Inr (s', d)"
  shows "spirit_inv users m s' \<and> fits rs float_precision users m d"
proof -
  have i: "good_scale rs" "0 < search_granularity par" "0 \<le> search_range par"
    "get_app_ids (ri_estimator i) = Inr users" "ri_vm_map i = m" "wf_vm_map m" "is_complete_vm_map users m"
    using assms(1) by (auto simp: spirit_input_def)
  have nc: "0 \<le> num_conflict s" "num_conflict s \<le> num_conflict_resolve_th"
    using assms(2) by (auto simp: spirit_inv_def)
  show ?thesis
  proof (cases "use_static par i users s")
    case True
    then show ?thesis using spirit_first_round [OF assms(1) True nc] assms(3) by auto
  next
    case False
    then have "rfold (dynamic_vm par (get_estimation (ri_env i)) rs users) m (s, []) = Inr (s', d)"
      using assms(3) i by (simp add: spirit_allocate_and_parse_def)
    then have *: "round_inv rs users m (s', d)"
    proof (rule rfold_invariant)
      show "round_inv rs users m (s, [])" using assms(2) by (simp add: round_inv_def consistent_def)
      show "round_inv rs users m st'" if "e \<in> set m" "round_inv rs users m st"
        "dynamic_vm par (get_estimation (ri_env i)) rs users e st = Inr st'" for e st st'
        using dynamic_vm_inv [OF that(3,1) _ that(2) i(1-3)] i(6) by (simp add: wf_vm_map_def)
    qed
    then have "spirit_inv users m s'" by (simp add: round_inv_def)
    moreover from this obtain la where "last_allocation s' = Some la" "held la users"
      "\<forall>(vm, apps) \<in> set m. vm_amounts_fit la (spirit_users users apps)" by (rule spirit_invE) blast
    ultimately show ?thesis using consistent_fits [of rs la d users m] * i(1) by (auto simp: round_inv_def)
  qed
qed

lemma spirit_round_returns:
  assumes "spirit_input par rs users m i" and "spirit_inv users m s"
  shows "returns (spirit_allocate_and_parse par rs i s)"
proof -
  have i: "good_scale rs" "0 < search_granularity par" "0 \<le> search_range par"
    "get_app_ids (ri_estimator i) = Inr users" "ri_vm_map i = m" "wf_vm_map m" "is_complete_vm_map users m"
    "\<forall>u \<in> set users. est_ready (ri_env i) u"
    using assms(1) by (auto simp: spirit_input_def)
  have dm: "distinct (mapped_apps m)" using i(6) by (simp add: wf_vm_map_def)
  let ?body = "dynamic_vm par (get_estimation (ri_env i)) rs users"
  have "\<exists>st'. rfold ?body m (s, []) = Inr st' \<and> round_inv rs users m st'"
  proof (rule rfold_total)
    show "round_inv rs users m (s, [])" using assms(2) by (simp add: round_inv_def consistent_def)
    show "\<exists>st'. ?body e st = Inr st' \<and> round_inv rs users m st'" if "e \<in> set m" "round_inv rs users m st" for e st
      using dynamic_vm_returns [OF that(2,1) dm i(8,1-3)] dynamic_vm_inv [OF _ that(1) dm that(2) i(1-3)]
      by (auto simp: returns_def)
  qed
  then show ?thesis
    using i static_round_returns [of users i rs s] by (auto simp: spirit_allocate_and_parse_def)
qed

interpretation sp: total_allocator "spirit_allocate_and_parse par rs" "spirit_input par rs users m"
    "spirit_inv users m" "\<lambda>_. fits rs float_precision users m"
  for par rs users m
  by unfold_locales (auto dest: spirit_round_inv intro: spirit_round_returns)

section \<open>What the Spirit allocator guarantees\<close>

text \<open>A VM with two users whose market clears at the first price.\<close>

definition sample_params :: spirit_params where
  "sample_params = (default_params 3)\<lparr>search_granularity := 1 / 4, search_range := 0\<rparr>"

definition sample_spirit :: spirit where
  "sample_spirit = init_spirit\<lparr>last_allocation := sample_last\<rparr>"

abbreviation sample_weights :: "(int, rat) dict" where
  "sample_weights \<equiv> [(1, 1 / 2), (2, 1 / 2)]"

definition sample_ends :: price_vector where
  "sample_ends = \<lparr>p_cache = 1 / 2, p_mem_bw = 1 / 2,
     ends = Some (\<lparr>p_cache = 1, p_mem_bw = 0\<rparr>, \<lparr>p_cache = 0, p_mem_bw = 1\<rparr>)\<rparr>"

definition sample_cleared :: allocs where
  "sample_cleared = map (\<lambda>u. (u, \<lparr>cache = 1 / 2, mem_bw = 1 / 4, price_tag = Some sample_ends\<rparr>)) [1, 2]"

lemma sample_allocate:
  "allocate sample_params sample_est sample_scale Binary [1, 2] sample_weights sample_spirit
     = Inr (sample_spirit, sample_cleared, [1, 1], True)"
  by code_simp



definition two_vms_later :: round_input where
  "two_vms_later = two_vms\<lparr>ri_total_record := \<lambda>_. Some 5\<rparr>"


text \<open>C4. The result of the price search for one VM: if it reports convergence, the new allocations are for
  exactly the VM's users and use at most the whole VM of either resource, up to \<open>1e-5\<close>; otherwise the
  last allocation is returned with its amounts unchanged, and stays the last allocation.\<close>

theorem allocate_clears_or_keeps:
  assumes "allocate par est rs Binary users weights self = Inr (self', cur, ks, conv)" and "distinct users"
  shows "if conv
     then keys cur = users \<and> fst (compute_resource_usage cur) \<le> 1 + 1 / 100000 \<and>
          snd (compute_resource_usage cur) \<le> 1 + 1 / 100000
     else \<exists>la. last_allocation self = Some la \<and> amounts cur = amounts la \<and> last_allocation self' = Some cur"
  using assms
proof (cases rule: allocateE)
  case (1 it pv pvf)
  from 1(14) show ?thesis
    using amounts_keys [of cur "zip users as" for as]
    by (auto simp: over_def float_precision_def counters_only_def)
qed

theorem allocate_clears_or_keeps_witness:
  "allocate sample_params sample_est sample_scale Binary [1, 2] sample_weights sample_spirit
     = Inr (sample_spirit, sample_cleared, [1, 1], True) \<and>
   keys sample_cleared = [1, 2] \<and> fst (compute_resource_usage sample_cleared) \<le> 1 + 1 / 100000"
  using allocate_clears_or_keeps [OF sample_allocate] sample_allocate by simp









end
