(* ===== verification/Py_String.thy ===== *)
theory Py_String
  imports Prelude
begin

text \<open>
  Python's \<open>int\<close> on strings and \<open>str\<close> on integers, as far as ASCII goes: \<open>int\<close> strips white space, takes an
  optional sign and decimal digits that may be grouped by single underscores, and raises \<open>ValueError\<close>
  otherwise.  Application and VM ids travel as strings in the keys of JSON objects and in HTTP requests.
\<close>

definition is_space :: "char \<Rightarrow> bool" where
  "is_space c \<longleftrightarrow> c \<in> set [CHR '' '', CHR 0x09, CHR 0x0A, CHR 0x0B, CHR 0x0C, CHR 0x0D]"

definition digits :: "char list" where
  "digits = ''0123456789''"

definition digit_value :: "char \<Rightarrow> nat option" where
  "digit_value c = map_of (zip digits [0..<10]) c"

definition strip :: "string \<Rightarrow> string" where
  "strip s = rev (dropWhile is_space (rev (dropWhile is_space s)))"

text \<open>The digits, from the left: \<open>prev\<close> says whether the character before was a digit.\<close>

fun parse_digits :: "nat \<Rightarrow> bool \<Rightarrow> string \<Rightarrow> nat option" where
  "parse_digits acc prev [] = (if prev then Some acc else None)"
| "parse_digits acc prev (c # cs) =
     (if c = CHR ''_'' then (if prev then parse_digits acc False cs else None)
      else case digit_value c of None \<Rightarrow> None | Some v \<Rightarrow> parse_digits (10 * acc + v) True cs)"

definition int_of_str :: "string \<Rightarrow> int res" where
  "int_of_str s =
    (let t = strip s;
         (negative, body) = (case t of [] \<Rightarrow> (False, t)
           | c # cs \<Rightarrow> if c = CHR ''-'' then (True, cs) else if c = CHR ''+'' then (False, cs) else (False, t))
     in case parse_digits 0 False body of
          None \<Rightarrow> Inl ValueError
        | Some n \<Rightarrow> Inr (if negative then - int n else int n))"

text \<open>\<open>str(n)\<close>\<close>

fun str_of_nat :: "nat \<Rightarrow> string" where
  "str_of_nat n = (if n < 10 then [digits ! n] else str_of_nat (n div 10) @ [digits ! (n mod 10)])"

definition str_of_int :: "int \<Rightarrow> string" where
  "str_of_int n = (if n < 0 then CHR ''-'' # str_of_nat (nat (- n)) else str_of_nat (nat n))"

declare str_of_nat.simps [simp del]

section \<open>Round trip\<close>

lemma digit_value_nth: "n < 10 \<Longrightarrow> digit_value (digits ! n) = Some n"
proof -
  have "\<forall>n \<in> set [0..<10]. digit_value (digits ! n) = Some n" by code_simp
  then show "n < 10 \<Longrightarrow> ?thesis" by simp
qed

lemma digit_plain: "n < 10 \<Longrightarrow> \<not> is_space (digits ! n) \<and> digits ! n \<notin> {CHR ''_'', CHR ''-'', CHR ''+''}"
proof -
  have "\<forall>n \<in> set [0..<10]. \<not> is_space (digits ! n) \<and> digits ! n \<notin> {CHR ''_'', CHR ''-'', CHR ''+''}" by code_simp
  then show "n < 10 \<Longrightarrow> ?thesis" by simp
qed

lemma str_of_nat_plain:
  "str_of_nat n \<noteq> [] \<and> (\<forall>c \<in> set (str_of_nat n). \<not> is_space c \<and> c \<notin> {CHR ''_'', CHR ''-'', CHR ''+''})"
proof (induction n rule: str_of_nat.induct)
  case (1 n)
  show ?case
  proof (cases "n < 10")
    case True
    then have "str_of_nat n = [digits ! n]" by (simp add: str_of_nat.simps)
    then show ?thesis using digit_plain [OF True] by simp
  next
    case False
    then have "str_of_nat n = str_of_nat (n div 10) @ [digits ! (n mod 10)]" by (subst str_of_nat.simps) simp
    then show ?thesis using digit_plain [of "n mod 10"] 1 [OF False] by auto
  qed
qed

lemma parse_digits_append:
  "(\<forall>c \<in> set xs. c \<noteq> CHR ''_'') \<Longrightarrow> xs \<noteq> [] \<Longrightarrow>
   parse_digits acc prev (xs @ ys) = Option.bind (parse_digits acc prev xs) (\<lambda>a. parse_digits a True ys)"
proof (induction xs arbitrary: acc prev)
  case (Cons x xs)
  then show ?case by (cases xs) (auto split: option.splits)
qed simp

lemma parse_str_of_nat: "parse_digits 0 False (str_of_nat n) = Some n"
proof (induction n rule: str_of_nat.induct)
  case (1 n)
  show ?case
  proof (cases "n < 10")
    case True
    then show ?thesis using digit_value_nth digit_plain by (simp add: str_of_nat.simps)
  next
    case False
    have "parse_digits 0 False (str_of_nat (n div 10) @ [digits ! (n mod 10)]) = Some (10 * (n div 10) + n mod 10)"
      using 1 [OF False] str_of_nat_plain [of "n div 10"] digit_value_nth [of "n mod 10"] digit_plain [of "n mod 10"]
      by (subst parse_digits_append) auto
    then show ?thesis using False by (subst str_of_nat.simps) simp
  qed
qed

lemma dropWhile_none: "\<forall>x \<in> set xs. \<not> P x \<Longrightarrow> dropWhile P xs = xs"
  by (cases xs) auto

lemma strip_plain: "\<forall>c \<in> set s. \<not> is_space c \<Longrightarrow> strip s = s"
  by (simp add: strip_def dropWhile_none)

lemma not_space_minus: "\<not> is_space (CHR ''-'')"
  by code_simp

lemma int_of_str_of_int: "int_of_str (str_of_int n) = Inr n"
proof (cases "n < 0")
  case True
  let ?s = "str_of_nat (nat (- n))"
  have eq: "str_of_int n = CHR ''-'' # ?s" using True by (simp add: str_of_int_def)
  have "strip (CHR ''-'' # ?s) = CHR ''-'' # ?s"
    using str_of_nat_plain [of "nat (- n)"] not_space_minus by (intro strip_plain) simp
  then show ?thesis using True parse_str_of_nat [of "nat (- n)"] by (simp add: int_of_str_def eq)
next
  case False
  obtain c cs where s: "str_of_nat (nat n) = c # cs" "c \<noteq> CHR ''-''" "c \<noteq> CHR ''+''"
    using str_of_nat_plain [of "nat n"] by (cases "str_of_nat (nat n)") auto
  have "strip (str_of_nat (nat n)) = str_of_nat (nat n)"
    using str_of_nat_plain [of "nat n"] by (intro strip_plain) simp
  then have "strip (c # cs) = c # cs" using s(1) by simp
  moreover have "parse_digits 0 False (c # cs) = Some (nat n)" using parse_str_of_nat [of "nat n"] s(1) by simp
  ultimately show ?thesis using False s
    by (simp add: int_of_str_def str_of_int_def del: parse_digits.simps)
qed

lemma str_of_int_inject: "str_of_int m = str_of_int n \<longleftrightarrow> m = n"
proof
  assume "str_of_int m = str_of_int n"
  then have "int_of_str (str_of_int m) = int_of_str (str_of_int n)" by simp
  then show "m = n" by (simp add: int_of_str_of_int)
qed simp

end
