(* ===== verification/Monitor.thy ===== *)
theory Monitor
  imports Allocator Py_String
begin

text \<open>
  \<open>src/res_allocation/resource_monitor.py\<close>: the monitor collects the controller's log, buffers the
  measurements of one allocation round, and at the end of the round consumes the buffer into the data that
  the estimator and the allocators read.

  The HTTP request of \<open>collect\<close> is an input: the response's status and decoded JSON document.  Numbers of
  the document are rationals; the keys of its objects are strings.  Keyword arguments that no caller sets
  (\<open>use_raw\<close>, \<open>raw_rounded\<close>, \<open>skip_noise_after_alloc\<close>, \<open>separator\<close>, \<open>use_bw_as_perf\<close>, \<open>alpha\<close>) have their
  default values.  Log messages and prints are left out.
\<close>

section \<open>State\<close>

type_synonym ('k, 'l, 'v) dict2 = "('k, ('l, 'v) dict) dict"

text \<open>An entry of \<open>collected_data\<close>: the datapoints map cache and bandwidth to performance values with the
  iteration that recorded them.\<close>

record app_data =
  total_record :: nat
  total_datapoint :: nat
  datapoints :: "(int, int, (rat \<times> nat) list) dict2"
  last_updated :: "(int, int, nat) dict2"
  last_update_iteration :: nat
  last_mrc :: mrc

record measurement =
  me_cache_size :: int
  me_mem_bw_in_gbps :: rat
  me_perf :: rat

record monitor =
  collected_data :: "(int, app_data) dict"
  buffered_data :: "(int, (int, int, int list) dict2) dict"
  buffered_mrc :: "(int, (int, int, mrc) dict2) dict"
  collection_iteration_count :: nat
  mon_last_allocation :: deployment
  last_usage :: "(int, usage) dict"
  num_buffered_data :: nat
  allocation_interval_in_sec :: int
  recent_measurement :: "(int, measurement list list) dict"
  vm_to_app_map :: vm_map

definition recent_window :: nat where "recent_window = 24"
definition recent_data_count :: nat where "recent_data_count = 2"

text \<open>The argument is the configured interval, if there is one.\<close>

definition init_monitor :: "int option \<Rightarrow> monitor" where
  "init_monitor interval =
     \<lparr>collected_data = [], buffered_data = [], buffered_mrc = [], collection_iteration_count = 0,
      mon_last_allocation = [], last_usage = [], num_buffered_data = 0,
      allocation_interval_in_sec = (case interval of None \<Rightarrow> - 1 | Some n \<Rightarrow> n),
      recent_measurement = [], vm_to_app_map = []\<rparr>"

section \<open>Reading\<close>

definition set_last_allocation :: "deployment \<Rightarrow> monitor \<Rightarrow> monitor" where
  "set_last_allocation d m = m\<lparr>mon_last_allocation := d\<rparr>"

definition get_last_mrc :: "monitor \<Rightarrow> int \<Rightarrow> mrc" where
  "get_last_mrc m user_id = (case map_of (collected_data m) user_id of None \<Rightarrow> [] | Some d \<Rightarrow> last_mrc d)"

definition get_last_usage :: "monitor \<Rightarrow> int \<Rightarrow> usage option" where
  "get_last_usage m user_id = map_of (last_usage m) user_id"

text \<open>\<open>x // 8 * 8\<close> of a number.\<close>

definition round_down :: "rat \<Rightarrow> rat" where
  "round_down x = of_int (\<lfloor>x / 8\<rfloor> * 8)"

definition has_enough_data :: "monitor \<Rightarrow> int \<Rightarrow> rat \<Rightarrow> rat \<Rightarrow> bool" where
  "has_enough_data m user_id cache_in_mb mem_bw_in_mbps =
    (case map_of (recent_measurement m) user_id of
       None \<Rightarrow> False
     | Some recent \<Rightarrow>
         recent_data_count \<le> length (filter (\<lambda>e. me_cache_size e = py_int (round_down cache_in_mb) \<and>
             py_int (me_mem_bw_in_gbps e) = py_int (round_down mem_bw_in_mbps)) (concat recent)))"

definition get_num_datapoints :: "monitor \<Rightarrow> int \<Rightarrow> nat" where
  "get_num_datapoints m user_id =
    (case map_of (collected_data m) user_id of None \<Rightarrow> 0 | Some d \<Rightarrow> total_datapoint d)"

definition monitor_app_ids :: "monitor \<Rightarrow> int list" where
  "monitor_app_ids m = keys (collected_data m)"

definition get_vm_to_app_mapping :: "monitor \<Rightarrow> vm_map" where
  "get_vm_to_app_mapping m = vm_to_app_map m"

definition get_apps_for_vm :: "monitor \<Rightarrow> int \<Rightarrow> int list" where
  "get_apps_for_vm m vm_id = (case map_of (vm_to_app_map m) vm_id of None \<Rightarrow> [] | Some apps \<Rightarrow> apps)"

text \<open>\<open>d.setdefault(k, v)\<close>, and a value stored or appended under two keys.\<close>

definition setdefault :: "'k \<Rightarrow> 'v \<Rightarrow> ('k, 'v) dict \<Rightarrow> ('k, 'v) dict" where
  "setdefault k v d = (if has_key d k then d else dict_set k v d)"

definition dict_at :: "('k, 'v list) dict \<Rightarrow> 'k \<Rightarrow> 'v list" where
  "dict_at d k = (case map_of d k of None \<Rightarrow> [] | Some v \<Rightarrow> v)"

definition append2 :: "'k \<Rightarrow> 'l \<Rightarrow> 'v \<Rightarrow> ('k, 'l, 'v list) dict2 \<Rightarrow> ('k, 'l, 'v list) dict2" where
  "append2 k l v d =
    (let inner = dict_at d k in dict_set k (dict_set l (dict_at inner l @ [v]) inner) d)"

definition base_datapoints :: "(int, int, (rat \<times> nat) list) dict2 \<Rightarrow> (int, int, rat list) dict2" where
  "base_datapoints dps =
     fold (\<lambda>(cache_size, cache_data) res.
       fold (\<lambda>(bw, perf_list) res. fold (\<lambda>perf res. append2 cache_size bw (fst perf) res) perf_list res)
         cache_data res) dps []"

definition get_datapoints_base :: "monitor \<Rightarrow> int \<Rightarrow> (app_data \<times> (int, int, rat list) dict2) res" where
  "get_datapoints_base m user_id =
    (case map_of (collected_data m) user_id of
       None \<Rightarrow> Inl AssertionError
     | Some d \<Rightarrow> Inr (d, base_datapoints (datapoints d)))"

definition get_datapoints_with_memory_limit :: "monitor \<Rightarrow> int \<Rightarrow> int \<Rightarrow> (int, int, rat list) dict2 res" where
  "get_datapoints_with_memory_limit m user_id memory_limit =
    (case map_of (collected_data m) user_id of
       None \<Rightarrow> Inl KeyError
     | Some d \<Rightarrow>
         Inr (fold (\<lambda>(cache_size, cache_data) res.
           fold (\<lambda>(bw, perf_list) res.
             fold (\<lambda>perf res.
               let res = setdefault cache_size [] res in
               if int (snd perf) < int (last_update_iteration d) - memory_limit then res
               else append2 cache_size bw (fst perf) res) perf_list res) cache_data res) (datapoints d) []))"

definition get_num_recent_data :: "monitor \<Rightarrow> int \<Rightarrow> nat" where
  "get_num_recent_data m user_id =
    (case map_of (recent_measurement m) user_id of
       None \<Rightarrow> 0
     | Some recent \<Rightarrow>
         length (remdups (map (\<lambda>e. (me_cache_size e, me_mem_bw_in_gbps e)) (concat recent))))"

definition collect_recent_measurement :: "monitor \<Rightarrow> int \<Rightarrow> (int, rat, rat list) dict2" where
  "collect_recent_measurement m user_id =
    (case map_of (recent_measurement m) user_id of
       None \<Rightarrow> []
     | Some recent \<Rightarrow>
         fold (fold (\<lambda>e res. append2 (me_cache_size e) (me_mem_bw_in_gbps e) (me_perf e) res)) recent [])"

section \<open>Smoothing\<close>

definition alpha :: rat where "alpha = 95 / 100"

text \<open>\<open>new_list\<close> and \<open>old_list\<close> are lists of pairs; the numpy arrays compare and combine them by position.\<close>

definition weighted_update_list :: "mrc \<Rightarrow> mrc \<Rightarrow> mrc" where
  "weighted_update_list old_list new_list =
    (if new_list = [] then old_list
     else
       let old = (if old_list = [] then map (\<lambda>(key, _). (key, 0)) new_list else old_list) in
       if map fst old \<noteq> map fst new_list then old
       else map (\<lambda>((key, old_v), (_, new_v)). (key, alpha * new_v + (1 - alpha) * old_v)) (zip old new_list))"

definition weighted_update_value :: "rat option \<Rightarrow> rat option \<Rightarrow> rat option" where
  "weighted_update_value old_value new_value =
    (case (old_value, new_value) of
       (_, None) \<Rightarrow> old_value
     | (None, Some new) \<Rightarrow> Some new
     | (Some old, Some new) \<Rightarrow> Some (alpha * new + (1 - alpha) * old))"

text \<open>\<open>statistics.median\<close> of a list that is not empty, with the code's guard for the empty list.\<close>

definition median_perf :: "int list \<Rightarrow> rat" where
  "median_perf perf_list =
    (let s = sort perf_list; n = length s in
     if n = 0 then 0
     else if odd n then of_int (s ! (n div 2))
     else (of_int (s ! (n div 2 - 1)) + of_int (s ! (n div 2))) / 2)"

section \<open>Buffering\<close>

text \<open>An application id: a string from the JSON document, or an integer once it was found in the last
  allocation.\<close>

datatype app_key = AStr string | AInt int

fun int_of_key :: "app_key \<Rightarrow> int res" where
  "int_of_key (AStr s) = int_of_str s"
| "int_of_key (AInt n) = Inr n"

text \<open>A parsed log entry; a missing or null field is \<open>None\<close>.\<close>

record log_entry =
  le_vm_id :: int
  le_app_id :: "app_key option"
  le_cache_size :: "rat option"
  le_bandwidth :: "rat option"
  le_perf :: "rat option"
  le_mem_bw_raw :: "rat option"
  le_cache_raw :: "rat option"
  le_mrc :: "mrc option"

text \<open>One measurement that passed the checks: allocated and used cache and bandwidth, performance, curve.\<close>

definition store_measurement ::
  "int \<Rightarrow> int \<Rightarrow> int \<Rightarrow> rat \<Rightarrow> rat \<Rightarrow> int \<Rightarrow> mrc option \<Rightarrow> monitor \<Rightarrow> monitor" where
  "store_measurement user_id cache_size bw cache_raw bw_raw perf curve m =
    (let data = dict_at (buffered_data m) user_id;
         curves = dict_at (buffered_mrc m) user_id;
         perfs = dict_at (dict_at data cache_size) bw;
         curves' = dict_set cache_size (setdefault bw [] (dict_at curves cache_size)) curves;
         m1 = m\<lparr>buffered_data :=
                dict_set user_id (dict_set cache_size (setdefault bw [] (dict_at data cache_size)) data) (buffered_data m),
                buffered_mrc := dict_set user_id curves' (buffered_mrc m)\<rparr>
     in
     if perfs \<noteq> [] \<and> last perfs = perf then m1
     else
       let m2 = m1\<lparr>buffered_data :=
              dict_set user_id (dict_set cache_size (dict_set bw (perfs @ [perf]) (dict_at data cache_size)) data)
                (buffered_data m1)\<rparr>
       in
       (case curve of
          None \<Rightarrow> m2
        | Some new \<Rightarrow>
            if new = [] then m2
            else
              let old = dict_at (dict_at curves cache_size) bw;
                  m3 = m2\<lparr>buffered_mrc :=
                    dict_set user_id
                      (dict_set cache_size (dict_set bw (weighted_update_list old new) (dict_at curves' cache_size)) curves')
                      (buffered_mrc m2)\<rparr>;
                  usage = (case get_last_usage m3 user_id of
                     None \<Rightarrow> \<lparr>u_cache = cache_raw, u_mem_bw = bw_raw\<rparr>
                   | Some u \<Rightarrow>
                       \<lparr>u_cache = the (weighted_update_value (Some (u_cache u)) (Some cache_raw)),
                        u_mem_bw = the (weighted_update_value (Some (u_mem_bw u)) (Some bw_raw))\<rparr>)
              in m3\<lparr>last_usage := dict_set user_id usage (last_usage m3)\<rparr>))"

text \<open>A comparison with a missing raw value raises, and the \<open>try\<close> statement skips the entry.\<close>

definition buffer_entry :: "rat \<Rightarrow> log_entry \<Rightarrow> monitor \<Rightarrow> monitor res" where
  "buffer_entry verification_th e m =
    (case le_app_id e of
       None \<Rightarrow> Inr m
     | Some key \<Rightarrow>
         rbind (int_of_key key) (\<lambda>user_id.
         case (le_cache_size e, le_cache_raw e) of
           (Some c, Some c_raw) \<Rightarrow>
             let cache_alloc = py_int c in
             if c_raw > of_int cache_alloc * (1 + verification_th) then Inr m
             else
               (case (le_bandwidth e, le_mem_bw_raw e) of
                  (Some b, Some b_raw) \<Rightarrow>
                    let bw_alloc = py_int b in
                    if b_raw > of_int bw_alloc * (1 + verification_th) then Inr m
                    else
                      (case le_perf e of
                         None \<Rightarrow> Inr m
                       | Some p \<Rightarrow>
                           Inr (store_measurement user_id cache_alloc bw_alloc (min (of_int cache_alloc) c_raw)
                                  (min (of_int bw_alloc) b_raw) (py_int p) (le_mrc e) m))
                | _ \<Rightarrow> Inr m)
         | _ \<Rightarrow> Inr m))"

text \<open>The first buffer after an allocation is skipped when the interval is long or unset; the loop over
  the skipped entries only fills a local variable, but it converts the ids and may raise.\<close>

definition skip_entry :: "log_entry \<Rightarrow> unit \<Rightarrow> unit res" where
  "skip_entry e u =
    (case (le_app_id e, le_cache_size e, le_bandwidth e, le_perf e) of
       (Some key, Some _, Some _, Some _) \<Rightarrow> rbind (int_of_key key) (\<lambda>_. Inr ())
     | _ \<Rightarrow> Inr ())"

definition buffer_collected_data :: "rat \<Rightarrow> log_entry list \<Rightarrow> monitor \<Rightarrow> monitor res" where
  "buffer_collected_data verification_th data m =
    (if data = [] then Inr m
     else
       let m' = m\<lparr>num_buffered_data := num_buffered_data m + 1\<rparr> in
       if num_buffered_data m' \<le> 1 \<and> (allocation_interval_in_sec m' < 0 \<or> allocation_interval_in_sec m' > 1 * 5 * 2)
       then rbind (rfold skip_entry data ()) (\<lambda>_. Inr m')
       else rfold (buffer_entry verification_th) data m')"

section \<open>Consuming\<close>

text \<open>The recent measurements of one user; the window is trimmed before the new list is appended.\<close>

definition trim_window :: "measurement list list \<Rightarrow> measurement list list" where
  "trim_window recent = (if length recent > recent_window then tl recent else recent)"

definition new_measurements :: "(int, int, int list) dict2 \<Rightarrow> measurement list" where
  "new_measurements user_data =
     concat (map (\<lambda>(cache_size, cache_data).
       map (\<lambda>(bw, perf_list). \<lparr>me_cache_size = cache_size, me_mem_bw_in_gbps = of_int bw / 1024,
                                me_perf = median_perf perf_list\<rparr>) cache_data) user_data)"

fun update_recent_user ::
  "int \<times> (int, int, int list) dict2 \<Rightarrow> (int, measurement list list) dict \<Rightarrow> (int, measurement list list) dict" where
  "update_recent_user (user_id, user_data) recent =
     dict_set user_id (trim_window (dict_at recent user_id) @ [new_measurements user_data]) recent"

definition update_recent_measurement :: "monitor \<Rightarrow> monitor" where
  "update_recent_measurement m =
     m\<lparr>recent_measurement := fold update_recent_user (buffered_data m) (recent_measurement m)\<rparr>"

definition new_app_data :: app_data where
  "new_app_data =
     \<lparr>total_record = 0, total_datapoint = 0, datapoints = [], last_updated = [], last_update_iteration = 0,
      last_mrc = []\<rparr>"

text \<open>One record added to a user's data: the first part creates the missing levels, then the counters, the
  record, its time stamp and the curve are stored.\<close>

definition add_datapoint :: "int \<Rightarrow> int \<Rightarrow> rat \<Rightarrow> nat \<Rightarrow> mrc \<Rightarrow> app_data \<Rightarrow> app_data res" where
  "add_datapoint cache_size bw perf now curve d =
    (let new_cache = \<not> has_key (datapoints d) cache_size;
         d1 = (if new_cache
               then d\<lparr>datapoints := dict_set cache_size [] (datapoints d),
                      last_updated := dict_set cache_size [] (last_updated d)\<rparr>
               else d)
     in
     rbind (dict_get (datapoints d1) cache_size) (\<lambda>points.
     rbind (if has_key points bw then Inr (d1, False)
            else rbind (dict_get (last_updated d1) cache_size) (\<lambda>times.
                 Inr (d1\<lparr>datapoints := dict_set cache_size (dict_set bw [] points) (datapoints d1),
                         last_updated := dict_set cache_size (dict_set bw 0 times) (last_updated d1)\<rparr>, True)))
       (\<lambda>(d2, new_bw).
     let d3 = d2\<lparr>total_record := total_record d2 + 1,
                  total_datapoint := (if new_cache \<or> new_bw then total_datapoint d2 + 1 else total_datapoint d2)\<rparr>
     in
     rbind (dict_get (datapoints d3) cache_size) (\<lambda>points.
     rbind (dict_get points bw) (\<lambda>records.
     rbind (dict_get (last_updated d3) cache_size) (\<lambda>times.
     Inr (d3\<lparr>datapoints := dict_set cache_size (dict_set bw (records @ [(perf, now)]) points) (datapoints d3),
             last_updated := dict_set cache_size (dict_set bw now times) (last_updated d3),
             last_mrc := curve\<rparr>)))))))"

definition consume_datapoint :: "int \<Rightarrow> int \<Rightarrow> int \<times> int list \<Rightarrow> monitor \<Rightarrow> monitor res" where
  "consume_datapoint user_id cache_size entry m =
    (case entry of (bw, perf_list) \<Rightarrow>
      (let d = (case map_of (collected_data m) user_id of None \<Rightarrow> new_app_data | Some d \<Rightarrow> d) in
       rbind (dict_get (buffered_mrc m) user_id) (\<lambda>curves.
       rbind (dict_get curves cache_size) (\<lambda>by_bw.
       rbind (dict_get by_bw bw) (\<lambda>curve.
       rbind (add_datapoint cache_size bw (median_perf perf_list) (collection_iteration_count m) curve d) (\<lambda>d'.
       Inr (m\<lparr>collected_data := dict_set user_id d' (collected_data m)\<rparr>)))))))"

definition consume_user :: "int \<times> (int, int, int list) dict2 \<Rightarrow> monitor \<Rightarrow> monitor res" where
  "consume_user entry m =
    (case entry of (user_id, user_data) \<Rightarrow>
       rbind (rfold (\<lambda>(cache_size, cache_data). rfold (consume_datapoint user_id cache_size) cache_data) user_data m)
         (\<lambda>m'.
       Inr (case map_of (collected_data m') user_id of
              None \<Rightarrow> m'
            | Some d \<Rightarrow>
                m'\<lparr>collected_data := dict_set user_id
                     (d\<lparr>last_update_iteration := collection_iteration_count m'\<rparr>) (collected_data m')\<rparr>)))"

definition comsume_collected_data :: "monitor \<Rightarrow> monitor res" where
  "comsume_collected_data m =
    (let m1 = update_recent_measurement (m\<lparr>collection_iteration_count := collection_iteration_count m + 1\<rparr>) in
     rbind (rfold consume_user (buffered_data m1) m1) (\<lambda>m2.
     Inr (m2\<lparr>buffered_data := [], num_buffered_data := 0\<rparr>)))"

section \<open>Parsing\<close>

text \<open>The JSON document of the controller: for each VM id, for each application id, the fields of an
  entry, \<open>None\<close> where a field is missing.\<close>

record raw_entry =
  rw_mem_mb :: "rat option"
  rw_bw_mbps :: "rat option"
  rw_cache_mbps :: "rat option"
  rw_access_rate_ops_sec :: "rat option"
  rw_mrc :: "mrc option"

type_synonym log_json = "(string, string, raw_entry) dict2 option"

definition field :: "'a option \<Rightarrow> 'a res" where
  "field x = (case x of None \<Rightarrow> Inl KeyError | Some v \<Rightarrow> Inr v)"

definition parse_vm_map :: "(string, string, raw_entry) dict2 \<Rightarrow> vm_map res" where
  "parse_vm_map j =
     rfold (\<lambda>(vm_id, apps) res.
       rbind (int_of_str vm_id) (\<lambda>vm.
       rbind (rfold (\<lambda>(app_id, _) ids. rbind (int_of_str app_id) (\<lambda>a. Inr (ids @ [a]))) apps []) (\<lambda>app_ids.
       Inr (dict_set vm app_ids res)))) j []"

text \<open>The application's allocation replaces the measured amounts when there is one.\<close>

definition parse_entry :: "deployment \<Rightarrow> string \<Rightarrow> string \<times> raw_entry \<Rightarrow> log_entry list \<Rightarrow> log_entry list res" where
  "parse_entry la vm_id item acc =
    (case item of (app_id, entry) \<Rightarrow>
       rbind (int_of_str vm_id) (\<lambda>vm.
       rbind (field (rw_mem_mb entry)) (\<lambda>mem_raw.
       rbind (field (rw_bw_mbps entry)) (\<lambda>bw_raw.
       rbind (if la = [] then Inr (AStr app_id, mem_raw, bw_raw)
              else rbind (int_of_str app_id) (\<lambda>a.
                   Inr (case map_of la a of
                          None \<Rightarrow> (AStr app_id, mem_raw, bw_raw)
                        | Some d \<Rightarrow> (AInt a, of_int (d_cache d), of_int (d_mem_bw d))))) (\<lambda>(key, mem_mb, bw_mbps).
       rbind (field (rw_cache_mbps entry)) (\<lambda>cache_mbps.
       rbind (field (rw_access_rate_ops_sec entry)) (\<lambda>access.
       Inr (acc @ [\<lparr>le_vm_id = vm, le_app_id = Some key, le_cache_size = Some mem_mb, le_bandwidth = Some bw_mbps,
                    le_perf = Some (of_int (py_int cache_mbps)), le_mem_bw_raw = Some bw_raw,
                    le_cache_raw = Some mem_raw, le_mrc = rw_mrc entry\<rparr>]))))))))"

definition parse_log_entries :: "log_json \<Rightarrow> monitor \<Rightarrow> (monitor \<times> log_entry list) res" where
  "parse_log_entries doc m =
     rbind (field doc) (\<lambda>j.
     rbind (parse_vm_map j) (\<lambda>vms.
     rbind (rfold (\<lambda>(vm_id, apps). rfold (parse_entry (mon_last_allocation m) vm_id) apps) j []) (\<lambda>entries.
     Inr (m\<lparr>vm_to_app_map := vms\<rparr>, entries))))"

text \<open>\<open>collect\<close>: the response has a status and a body, which is empty (no body, or a blank or \<open>""\<close>
  string) or a JSON document.\<close>

datatype response_body = Empty_Body | Json log_json

definition collect :: "rat \<Rightarrow> nat \<Rightarrow> response_body \<Rightarrow> monitor \<Rightarrow> monitor res" where
  "collect verification_th status body m =
    (if status = 200 \<or> status = 202 then
       (case body of
          Empty_Body \<Rightarrow> Inr m
        | Json doc \<Rightarrow>
            rbind (parse_log_entries doc m) (\<lambda>(m', data). buffer_collected_data verification_th data m'))
     else Inr m)"

section \<open>Resetting\<close>

definition reset_metrics_for_app :: "int \<Rightarrow> monitor \<Rightarrow> bool \<times> monitor" where
  "reset_metrics_for_app app_id m =
    (let in_collected = has_key (collected_data m) app_id;
         m1 = (if in_collected
               then m\<lparr>collected_data := dict_set app_id
                      (new_app_data\<lparr>last_update_iteration := collection_iteration_count m\<rparr>) (collected_data m)\<rparr>
               else m);
         in_buffer = has_key (buffered_data m1) app_id;
         m2 = (if in_buffer then m1\<lparr>buffered_data := dict_set app_id [] (buffered_data m1)\<rparr> else m1);
         in_mrc = has_key (buffered_mrc m2) app_id;
         m3 = (if in_mrc then m2\<lparr>buffered_mrc := dict_set app_id [] (buffered_mrc m2)\<rparr> else m2);
         in_usage = has_key (last_usage m3) app_id;
         m4 = (if in_usage then m3\<lparr>last_usage := dict_set app_id \<lparr>u_cache = 0, u_mem_bw = 0\<rparr> (last_usage m3)\<rparr>
               else m3);
         in_recent = has_key (recent_measurement m4) app_id;
         m5 = (if in_recent then m4\<lparr>recent_measurement := dict_set app_id [] (recent_measurement m4)\<rparr> else m4)
     in (in_collected \<or> in_buffer \<or> in_mrc \<or> in_usage \<or> in_recent, m5))"

end
