(* ===== verification/Monitor_Inv.thy ===== *)
theory Monitor_Inv
  imports Monitor
begin

text \<open>
  Facts on the monitor: the invariant of its tables, which every operation keeps and which makes the
  consumption of the buffer total, and the properties of smoothing, resetting and parsing.
\<close>

section \<open>Dictionaries of dictionaries\<close>

lemma set_dict_set: "set (dict_set k v d) \<subseteq> insert (k, v) (set d)"
  by (induction d) auto

lemma map_dict_set: "map (\<lambda>(k, v). (k, f v)) (dict_set k v d) = dict_set k (f v) (map (\<lambda>(k, v). (k, f v)) d)"
  by (induction d) auto

lemma keys_map_values: "keys (map (\<lambda>(k, v). (k, f v)) d) = keys d"
  by (induction d) auto

lemma keys_dict_set_cong: "keys d = keys e \<Longrightarrow> keys (dict_set k v d) = keys (dict_set k w e)"
  by (simp add: keys_dict_set has_key_iff del: set_map)

lemma has_key_keys: "keys d = keys e \<Longrightarrow> has_key d k = has_key e k"
  by (simp add: has_key_iff del: set_map)

lemma dict_set_dict_set [simp]: "dict_set k v (dict_set k w d) = dict_set k v d"
  by (induction d) auto

lemma sum_dict_set:
  "sum_list (map (\<lambda>(k, v). f v) (dict_set k v d)) + (case map_of d k of None \<Rightarrow> 0 | Some w \<Rightarrow> f w)
     = sum_list (map (\<lambda>(k, v). f v) d) + (f v :: nat)"
  by (induction d) (auto split: option.splits)

lemma map_of_dict_at: "map_of d k = Some v \<Longrightarrow> dict_at d k = v"
  by (simp add: dict_at_def)

lemma dict_at_None: "map_of d k = None \<Longrightarrow> dict_at d k = []"
  by (simp add: dict_at_def)

definition lookup2 :: "('k, 'l, 'v) dict2 \<Rightarrow> 'k \<Rightarrow> 'l \<Rightarrow> 'v option" where
  "lookup2 d k l = Option.bind (map_of d k) (\<lambda>i. map_of i l)"

section \<open>The invariant\<close>

definition shape :: "('k, 'l, 'v) dict2 \<Rightarrow> ('k \<times> 'l list) list" where
  "shape d = map (\<lambda>(k, i). (k, keys i)) d"

definition count_records :: "(int, int, 'a list) dict2 \<Rightarrow> nat" where
  "count_records d = sum_list (map (\<lambda>(_, i). sum_list (map (\<lambda>(_, l). length l) i)) d)"

definition count_pairs :: "('k, 'l, 'v) dict2 \<Rightarrow> nat" where
  "count_pairs d = sum_list (map (\<lambda>(_, i). length i) d)"

text \<open>A user's data: the counters count, the time stamps cover exactly the datapoints, and no record is
  newer than the iteration count.\<close>

definition app_ok :: "nat \<Rightarrow> app_data \<Rightarrow> bool" where
  "app_ok now d \<longleftrightarrow>
     total_record d = count_records (datapoints d) \<and> total_datapoint d = count_pairs (datapoints d) \<and>
     shape (last_updated d) = shape (datapoints d) \<and> last_update_iteration d \<le> now \<and>
     (\<forall>(c, points) \<in> set (datapoints d). \<forall>(b, l) \<in> set points. \<forall>(p, t) \<in> set l. t \<le> now)"

text \<open>Every buffered measurement has a (possibly empty) buffered curve.\<close>

definition buffered_ok :: "monitor \<Rightarrow> bool" where
  "buffered_ok m \<longleftrightarrow>
    (\<forall>(u, by_cache) \<in> set (buffered_data m). \<forall>(c, by_bw) \<in> set by_cache. \<forall>(b, l) \<in> set by_bw.
       \<exists>curves. map_of (buffered_mrc m) u = Some curves \<and> lookup2 curves c b \<noteq> None)"

definition monitor_inv :: "monitor \<Rightarrow> bool" where
  "monitor_inv m \<longleftrightarrow>
     wf_dict (buffered_data m) \<and> buffered_ok m \<and>
     (\<forall>(u, d) \<in> set (collected_data m). app_ok (collection_iteration_count m) d) \<and>
     (\<forall>(u, r) \<in> set (recent_measurement m). length r \<le> recent_window + 1)"

lemma monitor_inv_init: "monitor_inv (init_monitor i)"
  by (simp add: monitor_inv_def init_monitor_def buffered_ok_def)

lemma app_ok_new: "app_ok now (new_app_data\<lparr>last_update_iteration := now\<rparr>)" "app_ok now new_app_data"
  by (simp_all add: app_ok_def new_app_data_def count_records_def count_pairs_def shape_def)

lemma app_ok_mono: "app_ok now d \<Longrightarrow> now \<le> now' \<Longrightarrow> app_ok now' d"
  unfolding app_ok_def by fastforce

lemma shape_dict_set: "shape (dict_set k i d) = dict_set k (keys i) (shape d)"
  by (simp add: shape_def map_dict_set)

lemma shape_map_of: "map_of (shape d) k = map_option keys (map_of d k)"
  unfolding shape_def by (induction d) auto

section \<open>Adding a record\<close>

definition times_at :: "(int, int, nat) dict2 \<Rightarrow> int \<Rightarrow> (int, nat) dict" where
  "times_at d c = (case map_of d c of None \<Rightarrow> [] | Some i \<Rightarrow> i)"

lemma add_datapoint_eq:
  assumes "shape (last_updated d) = shape (datapoints d)"
  shows "add_datapoint c b perf now curve d =
    Inr (d\<lparr>total_record := total_record d + 1,
           total_datapoint := total_datapoint d + (if lookup2 (datapoints d) c b = None then 1 else 0),
           datapoints := append2 c b (perf, now) (datapoints d),
           last_updated := dict_set c (dict_set b now (times_at (last_updated d) c)) (last_updated d),
           last_mrc := curve\<rparr>)"
proof (cases "map_of (datapoints d) c")
  case None
  moreover from this have "map_of (last_updated d) c = None"
    using assms shape_map_of [of "datapoints d" c] shape_map_of [of "last_updated d" c] by simp
  ultimately show ?thesis
    by (simp add: add_datapoint_def has_key_def Let_def append2_def dict_at_def times_at_def lookup2_def
        dict_get_Some)
next
  case (Some points)
  then obtain times where times: "map_of (last_updated d) c = Some times"
    using assms shape_map_of [of "datapoints d" c] shape_map_of [of "last_updated d" c]
    by (cases "map_of (last_updated d) c") auto
  show ?thesis
  proof (cases "map_of points b")
    case None
    then show ?thesis using Some times
      by (simp add: add_datapoint_def has_key_def Let_def append2_def dict_at_def times_at_def lookup2_def
          dict_get_Some)
  next
    case (Some l)
    then show ?thesis using \<open>map_of (datapoints d) c = Some points\<close> times
      by (simp add: add_datapoint_def has_key_def Let_def append2_def dict_at_def times_at_def lookup2_def
          dict_get_Some)
  qed
qed

lemma append_counts:
  "sum_list (map (\<lambda>(_, l). length l) (dict_set b (dict_at i b @ [x]) i)) = sum_list (map (\<lambda>(_, l). length l) i) + 1"
  "length (dict_set b v i) = length i + (if map_of i b = None then 1 else 0)"
proof -
  show "sum_list (map (\<lambda>(_, l). length l) (dict_set b (dict_at i b @ [x]) i)) = sum_list (map (\<lambda>(_, l). length l) i) + 1"
    using sum_dict_set [of length b "dict_at i b @ [x]" i] by (cases "map_of i b") (simp_all add: dict_at_def)
  show "length (dict_set b v i) = length i + (if map_of i b = None then 1 else 0)"
    by (induction i) auto
qed

lemma count_append2:
  "count_records (append2 c b x d) = count_records d + 1"
  "count_pairs (append2 c b x d) = count_pairs d + (if lookup2 d c b = None then 1 else 0)"
proof -
  let ?i = "dict_at d c"
  let ?j = "dict_set b (dict_at ?i b @ [x]) ?i"
  have look: "lookup2 d c b = None \<longleftrightarrow> map_of ?i b = None"
    by (cases "map_of d c") (simp_all add: lookup2_def dict_at_def)
  have old: "(case map_of d c of None \<Rightarrow> 0 | Some w \<Rightarrow> sum_list (map (\<lambda>(_, l). length l) w)) = sum_list (map (\<lambda>(_, l). length l) ?i)"
    "(case map_of d c of None \<Rightarrow> 0 | Some w \<Rightarrow> length w) = length ?i"
    by (cases "map_of d c"; simp add: dict_at_def)+
  show "count_records (append2 c b x d) = count_records d + 1"
    using sum_dict_set [of "\<lambda>i. sum_list (map (\<lambda>(_, l). length l) i)" c ?j d] old(1) append_counts(1) [of b ?i x]
    by (simp add: count_records_def append2_def Let_def)
  show "count_pairs (append2 c b x d) = count_pairs d + (if lookup2 d c b = None then 1 else 0)"
    using sum_dict_set [of length c ?j d] old(2) append_counts(2) [of b "dict_at ?i b @ [x]" ?i] look
    by (simp add: count_pairs_def append2_def Let_def)
qed

lemma times_at_keys:
  assumes "shape (last_updated d) = shape (datapoints d)"
  shows "keys (times_at (last_updated d) c) = keys (dict_at (datapoints d) c)"
  using assms shape_map_of [of "datapoints d" c] shape_map_of [of "last_updated d" c]
  by (cases "map_of (last_updated d) c"; cases "map_of (datapoints d) c") (auto simp: times_at_def dict_at_def)

lemma append2_elem:
  assumes "(c', points) \<in> set (append2 c b x d)" and "(b', l) \<in> set points" and "y \<in> set l"
  shows "y = x \<or> (\<exists>c points b l. (c, points) \<in> set d \<and> (b, l) \<in> set points \<and> y \<in> set l)"
proof -
  let ?i = "dict_at d c"
  have old: "\<exists>c points b l. (c, points) \<in> set d \<and> (b, l) \<in> set points \<and> y \<in> set l"
    if "(b', l) \<in> set ?i" "y \<in> set l" for b' l
    using that map_of_SomeD [of d c ?i] by (fastforce simp: dict_at_def split: option.splits)
  consider "(c', points) \<in> set d" | "points = dict_set b (dict_at ?i b @ [x]) ?i"
    using assms(1) set_dict_set unfolding append2_def Let_def by fastforce
  then show ?thesis
  proof cases
    case 2
    then consider "(b', l) \<in> set ?i" | "l = dict_at ?i b @ [x]" using assms(2) set_dict_set by fastforce
    then show ?thesis
    proof cases
      case 2
      then have "y = x \<or> y \<in> set (dict_at ?i b)" using assms(3) by auto
      then show ?thesis using old map_of_SomeD [of ?i b "dict_at ?i b"] by (fastforce simp: dict_at_def split: option.splits)
    qed (use old assms(3) in blast)
  qed (use assms in blast)
qed

lemma add_datapoint_ok:
  assumes "app_ok now d"
  obtains d' where "add_datapoint c b perf now curve d = Inr d'" "app_ok now d'"
    "total_record d' = total_record d + 1" "last_mrc d' = curve" "datapoints d' = append2 c b (perf, now) (datapoints d)"
proof -
  note ok = assms [unfolded app_ok_def]
  then have sh: "shape (last_updated d) = shape (datapoints d)" by simp
  have "shape (dict_set c (dict_set b now (times_at (last_updated d) c)) (last_updated d)) =
      shape (append2 c b (perf, now) (datapoints d))"
    unfolding append2_def Let_def shape_dict_set sh
    by (rule arg_cong2 [where f = "dict_set c", OF keys_dict_set_cong [OF times_at_keys [OF sh]] refl])
  moreover have "\<forall>(c', points) \<in> set (append2 c b (perf, now) (datapoints d)).
      \<forall>(b', l) \<in> set points. \<forall>(p, t) \<in> set l. t \<le> now"
  proof (intro ballI case_prodI2)
    fix e c' points e' b' l y p t
    assume "e \<in> set (append2 c b (perf, now) (datapoints d))" "e = (c', points)" "e' \<in> set points" "e' = (b', l)"
      "y \<in> set l" "y = (p, t)"
    then show "t \<le> now" using append2_elem [of c' points c b "(perf, now)" "datapoints d" b' l "(p, t)"] ok by fastforce
  qed
  ultimately have "app_ok now
      (d\<lparr>total_record := total_record d + 1,
         total_datapoint := total_datapoint d + (if lookup2 (datapoints d) c b = None then 1 else 0),
         datapoints := append2 c b (perf, now) (datapoints d),
         last_updated := dict_set c (dict_set b now (times_at (last_updated d) c)) (last_updated d),
         last_mrc := curve\<rparr>)"
    using ok count_append2 [of c b "(perf, now)" "datapoints d"] by (simp add: app_ok_def)
  then show thesis by (rule that [OF add_datapoint_eq [OF sh]]) simp_all
qed

section \<open>Consuming\<close>

lemma consume_datapoint_ok:
  assumes "\<forall>(u, d) \<in> set (collected_data m). app_ok (collection_iteration_count m) d"
    and "map_of (buffered_mrc m) u = Some curves" and "lookup2 curves c b \<noteq> None"
  shows "\<exists>m'. consume_datapoint u c (b, perfs) m = Inr m' \<and>
    (\<forall>(u, d) \<in> set (collected_data m'). app_ok (collection_iteration_count m') d) \<and>
    (\<exists>cd. m' = m\<lparr>collected_data := cd\<rparr>)"
proof -
  let ?d = "case map_of (collected_data m) u of None \<Rightarrow> new_app_data | Some d \<Rightarrow> d"
  obtain by_bw curve where look: "map_of curves c = Some by_bw" "map_of by_bw b = Some curve"
    using assms(3) by (auto simp: lookup2_def bind_eq_Some_conv)
  have "app_ok (collection_iteration_count m) ?d"
    using assms(1) map_of_SomeD [of "collected_data m" u] app_ok_new(2) by (fastforce split: option.splits)
  then obtain d' where d': "add_datapoint c b (median_perf perfs) (collection_iteration_count m) curve ?d = Inr d'"
    "app_ok (collection_iteration_count m) d'" by (rule add_datapoint_ok)
  have "consume_datapoint u c (b, perfs) m = Inr (m\<lparr>collected_data := dict_set u d' (collected_data m)\<rparr>)"
    using d'(1) look assms(2) by (simp add: consume_datapoint_def Let_def dict_get_Some)
  moreover have "\<forall>(u, d) \<in> set (dict_set u d' (collected_data m)). app_ok (collection_iteration_count m) d"
    using assms(1) d'(2) set_dict_set by fastforce
  ultimately show ?thesis by auto
qed

text \<open>What the loops keep: the tables other than the collected data, and that those are well formed.\<close>

definition consuming :: "monitor \<Rightarrow> monitor \<Rightarrow> bool" where
  "consuming m m' \<longleftrightarrow>
     (\<forall>(u, d) \<in> set (collected_data m'). app_ok (collection_iteration_count m') d) \<and> (\<exists>cd. m' = m\<lparr>collected_data := cd\<rparr>)"

lemma consuming_refl:
  "\<forall>(u, d) \<in> set (collected_data m). app_ok (collection_iteration_count m) d \<Longrightarrow> consuming m m"
  unfolding consuming_def by (intro conjI exI [of _ "collected_data m"]) auto

lemma consume_step:
  assumes "consuming m0 m" and "buffered_ok m0" and "(u, by_cache) \<in> set (buffered_data m0)"
    and "(c, by_bw) \<in> set by_cache" and "e \<in> set by_bw"
  shows "\<exists>m'. consume_datapoint u c e m = Inr m' \<and> consuming m0 m'"
proof -
  obtain b perfs where e: "e = (b, perfs)" by force
  obtain curves where "map_of (buffered_mrc m0) u = Some curves" "lookup2 curves c b \<noteq> None"
    using assms(2-5) unfolding buffered_ok_def e by fastforce
  moreover have "buffered_mrc m = buffered_mrc m0" using assms(1) by (auto simp: consuming_def)
  ultimately show ?thesis
    using consume_datapoint_ok [of m u curves c b perfs] assms(1) e by (fastforce simp: consuming_def)
qed

lemma consume_cache_step:
  assumes "consuming m0 m" and "buffered_ok m0" and "(u, by_cache) \<in> set (buffered_data m0)"
    and "(c, by_bw) \<in> set by_cache"
  shows "\<exists>m'. rfold (consume_datapoint u c) by_bw m = Inr m' \<and> consuming m0 m'"
proof (rule rfold_total)
  show "\<exists>m2. consume_datapoint u c e m1 = Inr m2 \<and> consuming m0 m2" if "e \<in> set by_bw" "consuming m0 m1" for e m1
    using consume_step [OF that(2) assms(2-4) that(1)] .
qed (rule assms(1))

lemma consume_user_ok:
  assumes "consuming m0 m" and "(u, by_cache) \<in> set (buffered_data m0)" and "buffered_ok m0"
  shows "\<exists>m'. consume_user (u, by_cache) m = Inr m' \<and> consuming m0 m'"
proof -
  have "\<exists>m1. rfold (\<lambda>(c, cd). rfold (consume_datapoint u c) cd) by_cache m = Inr m1 \<and> consuming m0 m1"
  proof (rule rfold_total)
    show "\<exists>m2. (case e of (c, cd) \<Rightarrow> rfold (consume_datapoint u c) cd) m1 = Inr m2 \<and> consuming m0 m2"
      if "e \<in> set by_cache" "consuming m0 m1" for e m1
      using consume_cache_step [OF that(2) assms(3,2)] that(1) by (cases e) auto
  qed (rule assms(1))
  then obtain m1 where m1: "rfold (\<lambda>(c, cd). rfold (consume_datapoint u c) cd) by_cache m = Inr m1" "consuming m0 m1"
    by blast
  show ?thesis
  proof (cases "map_of (collected_data m1) u")
    case None
    then show ?thesis using m1 by (simp add: consume_user_def)
  next
    case (Some d)
    let ?d = "d\<lparr>last_update_iteration := collection_iteration_count m1\<rparr>"
    have "app_ok (collection_iteration_count m1) ?d"
      using m1(2) map_of_SomeD [OF Some] by (fastforce simp: consuming_def app_ok_def)
    then have "consuming m0 (m1\<lparr>collected_data := dict_set u ?d (collected_data m1)\<rparr>)"
      using m1(2) set_dict_set [of u ?d "collected_data m1"] unfolding consuming_def by fastforce
    then show ?thesis using m1(1) Some by (simp add: consume_user_def)
  qed
qed

lemma update_recent_ok:
  assumes "\<forall>(u, r) \<in> set recent. length r \<le> recent_window + 1"
  shows "\<forall>(u, r) \<in> set (fold update_recent_user buffered recent). length r \<le> recent_window + 1"
  using assms
proof (induction buffered arbitrary: recent)
  case (Cons e buffered)
  obtain u data where e: "e = (u, data)" by force
  let ?r = "trim_window (dict_at recent u) @ [new_measurements data]"
  have "length (dict_at recent u) \<le> recent_window + 1"
  proof (cases "map_of recent u")
    case (Some r)
    then show ?thesis using Cons.prems map_of_SomeD [OF Some] by (auto simp: dict_at_def)
  qed (simp add: dict_at_def)
  then have "length ?r \<le> recent_window + 1" by (auto simp: trim_window_def)
  then have "length r' \<le> recent_window + 1" if "(v, r') \<in> set (dict_set u ?r recent)" for v r'
    using subsetD [OF set_dict_set that] Cons.prems by auto
  then show ?case using Cons.IH [of "dict_set u ?r recent"] e by auto
qed simp

lemma consume_ok:
  assumes "monitor_inv m"
  obtains m' where "comsume_collected_data m = Inr m'" "monitor_inv m'" "buffered_data m' = []"
    "num_buffered_data m' = 0" "collection_iteration_count m' = collection_iteration_count m + 1"
    "buffered_mrc m' = buffered_mrc m" "last_usage m' = last_usage m"
proof -
  let ?m1 = "update_recent_measurement (m\<lparr>collection_iteration_count := collection_iteration_count m + 1\<rparr>)"
  have b: "buffered_ok ?m1" using assms by (simp add: monitor_inv_def buffered_ok_def update_recent_measurement_def)
  have "app_ok (collection_iteration_count m + 1) d" if "(u, d) \<in> set (collected_data m)" for u d
    using assms that app_ok_mono [of "collection_iteration_count m" d] by (auto simp: monitor_inv_def)
  then have start: "consuming ?m1 ?m1" by (intro consuming_refl) (auto simp: update_recent_measurement_def)
  have "\<exists>m2. rfold consume_user (buffered_data ?m1) ?m1 = Inr m2 \<and> consuming ?m1 m2"
  proof (rule rfold_total)
    show "consuming ?m1 ?m1" by (rule start)
  next
    fix e m2
    assume e: "e \<in> set (buffered_data ?m1)" "consuming ?m1 m2"
    obtain u by_cache where "e = (u, by_cache)" by force
    then show "\<exists>m3. consume_user e m2 = Inr m3 \<and> consuming ?m1 m3"
      using consume_user_ok [OF e(2) _ b, of u by_cache] e(1) by simp
  qed
  then obtain m2 cd where m2: "rfold consume_user (buffered_data ?m1) ?m1 = Inr m2" "m2 = ?m1\<lparr>collected_data := cd\<rparr>"
    "\<forall>(u, d) \<in> set cd. app_ok (collection_iteration_count m + 1) d"
    by (auto simp: consuming_def update_recent_measurement_def)
  have r: "\<forall>(u, r) \<in> set (recent_measurement ?m1). length r \<le> recent_window + 1"
    using assms update_recent_ok [of "recent_measurement m" "buffered_data m"]
    by (simp add: monitor_inv_def update_recent_measurement_def)
  let ?m' = "m2\<lparr>buffered_data := [], num_buffered_data := 0\<rparr>"
  have "monitor_inv ?m'"
    using m2(2,3) r by (simp add: monitor_inv_def buffered_ok_def update_recent_measurement_def)
  moreover have "comsume_collected_data m = Inr ?m'"
    using m2(1) by (simp add: comsume_collected_data_def Let_def)
  ultimately show thesis
    using m2(2) by (intro that [of ?m']) (simp_all add: update_recent_measurement_def)
qed

section \<open>Buffering, parsing and resetting\<close>

lemma buffered_okI:
  assumes "\<And>u by_cache c by_bw b l. (u, by_cache) \<in> set (buffered_data m) \<Longrightarrow> (c, by_bw) \<in> set by_cache \<Longrightarrow>
    (b, l) \<in> set by_bw \<Longrightarrow> \<exists>curves. map_of (buffered_mrc m) u = Some curves \<and> lookup2 curves c b \<noteq> None"
  shows "buffered_ok m"
  using assms unfolding buffered_ok_def by blast

lemma buffered_okD:
  "buffered_ok m \<Longrightarrow> (u, by_cache) \<in> set (buffered_data m) \<Longrightarrow> (c, by_bw) \<in> set by_cache \<Longrightarrow> (b, l) \<in> set by_bw \<Longrightarrow>
   \<exists>curves. map_of (buffered_mrc m) u = Some curves \<and> lookup2 curves c b \<noteq> None"
  unfolding buffered_ok_def by fastforce

lemma dict_at_elem: "x \<in> set (dict_at d k) \<Longrightarrow> \<exists>v. (k, v) \<in> set d \<and> x \<in> set v"
  by (cases "map_of d k") (auto simp: dict_at_def dest: map_of_SomeD)

lemma elem_dict_set2:
  assumes "(c, i) \<in> set (dict_set k (dict_set l v (dict_at d k)) d)" and "(b, w) \<in> set i"
  shows "c = k \<and> b = l \<or> (\<exists>j x. (c, j) \<in> set d \<and> (b, x) \<in> set j)"
proof -
  consider "(c, i) \<in> set d" | "c = k" "i = dict_set l v (dict_at d k)"
    using subsetD [OF set_dict_set assms(1)] by auto
  then show ?thesis
  proof cases
    case 2
    then consider "b = l" | "(b, w) \<in> set (dict_at d k)" using subsetD [OF set_dict_set, of "(b, w)" l v] assms(2) by auto
    then show ?thesis using 2(1) dict_at_elem [of "(b, w)" d k] by cases blast+
  qed (use assms(2) in blast)
qed

text \<open>Storing a list under a user, a cache size and a bandwidth in the buffered data and a curve in the
  buffered curves keeps every measurement covered.\<close>

lemma buffered_ok_store:
  assumes "buffered_ok m"
    and "buffered_data m' = dict_set u (dict_set c (dict_set b l (dict_at (dict_at (buffered_data m) u) c))
                              (dict_at (buffered_data m) u)) (buffered_data m)"
    and "buffered_mrc m' = dict_set u (dict_set c (dict_set b x (dict_at (dict_at (buffered_mrc m) u) c))
                              (dict_at (buffered_mrc m) u)) (buffered_mrc m)"
  shows "buffered_ok m'"
proof (rule buffered_okI)
  fix u' by_cache c' by_bw b' l'
  assume el: "(u', by_cache) \<in> set (buffered_data m')" "(c', by_bw) \<in> set by_cache" "(b', l') \<in> set by_bw"
  let ?data = "dict_at (buffered_data m) u"
  have look: "lookup2 (dict_at (buffered_mrc m') u) c' b' \<noteq> None"
    if "c' = c \<and> b' = b \<or> lookup2 (dict_at (buffered_mrc m) u) c' b' \<noteq> None"
    using that unfolding assms(3) by (auto simp: lookup2_def dict_at_def bind_eq_Some_conv split: option.splits)
  have at: "map_of (buffered_mrc m') u = Some (dict_at (buffered_mrc m') u)"
    unfolding assms(3) by (simp add: dict_at_def)
  have old: "\<exists>curves. map_of (buffered_mrc m) v = Some curves \<and> lookup2 curves c' b' \<noteq> None"
    if "(v, j) \<in> set (buffered_data m)" "(c', k) \<in> set j" "(b', y) \<in> set k" for v j k y
    using buffered_okD [OF assms(1) that] .
  consider "(u', by_cache) \<in> set (buffered_data m)"
    | "u' = u" "by_cache = dict_set c (dict_set b l (dict_at ?data c)) ?data"
    using subsetD [OF set_dict_set el(1) [unfolded assms(2)]] by auto
  then show "\<exists>curves. map_of (buffered_mrc m') u' = Some curves \<and> lookup2 curves c' b' \<noteq> None"
  proof cases
    case 1
    from old [OF 1 el(2,3)] show ?thesis
    proof (cases "u' = u")
      case True
      then show ?thesis using at look old [OF 1 el(2,3)] by (auto simp: dict_at_def)
    next
      case False
      then show ?thesis using old [OF 1 el(2,3)] by (simp add: assms(3))
    qed
  next
    case 2
    have "c' = c \<and> b' = b \<or> (\<exists>j x. (c', j) \<in> set ?data \<and> (b', x) \<in> set j)"
      using elem_dict_set2 [OF el(2) [unfolded 2(2)] el(3)] .
    then have "c' = c \<and> b' = b \<or> lookup2 (dict_at (buffered_mrc m) u) c' b' \<noteq> None"
    proof (elim disjE exE conjE)
      fix j x assume j: "(c', j) \<in> set ?data" "(b', x) \<in> set j"
      obtain v where "(u, v) \<in> set (buffered_data m)" "(c', j) \<in> set v" using dict_at_elem [OF j(1)] by blast
      from old [OF this j(2)] show ?thesis by (auto simp: dict_at_def)
    qed simp
    then show ?thesis using 2(1) at look by simp
  qed
qed

lemma dict_set_same: "map_of d k = Some v \<Longrightarrow> dict_set k v d = d"
  by (induction d) auto

lemma setdefault_eq: "setdefault k [] d = dict_set k (dict_at d k) d"
  by (cases "map_of d k") (simp_all add: setdefault_def has_key_def dict_at_def dict_set_same)

lemma dict_at_dict_set [simp]: "dict_at (dict_set k v d) k = v"
  by (simp add: dict_at_def)

text \<open>What storing a measurement does to the buffer: the list of performance values gets the new one
  unless it repeats the last, and the curve is smoothed when there is a new one.\<close>

definition next_perfs :: "int list \<Rightarrow> int \<Rightarrow> int list" where
  "next_perfs perfs perf = (if perfs \<noteq> [] \<and> last perfs = perf then perfs else perfs @ [perf])"

lemma store_measurement_eq:
  "\<exists>x us. store_measurement u c b c_raw b_raw perf curve m =
     m\<lparr>buffered_data := dict_set u (dict_set c
          (dict_set b (next_perfs (dict_at (dict_at (dict_at (buffered_data m) u) c) b) perf)
            (dict_at (dict_at (buffered_data m) u) c)) (dict_at (buffered_data m) u)) (buffered_data m),
       buffered_mrc := dict_set u (dict_set c (dict_set b x (dict_at (dict_at (buffered_mrc m) u) c))
          (dict_at (buffered_mrc m) u)) (buffered_mrc m),
       last_usage := us\<rparr> \<and>
     (x = dict_at (dict_at (dict_at (buffered_mrc m) u) c) b \<or>
      (\<exists>new. curve = Some new \<and> new \<noteq> [] \<and>
         x = weighted_update_list (dict_at (dict_at (dict_at (buffered_mrc m) u) c) b) new))"
proof -
  let ?perfs = "dict_at (dict_at (dict_at (buffered_data m) u) c) b"
  have m: "m = m\<lparr>last_usage := last_usage m\<rparr>" by simp
  show ?thesis
  proof (cases "?perfs \<noteq> [] \<and> last ?perfs = perf")
    case True
    then show ?thesis
      by (intro exI [of _ "dict_at (dict_at (dict_at (buffered_mrc m) u) c) b"] exI [of _ "last_usage m"])
        (simp add: store_measurement_def Let_def setdefault_eq next_perfs_def)
  next
    case False
    show ?thesis
    proof (cases "curve = None \<or> curve = Some []")
      case True
      then show ?thesis using False
        by (intro exI [of _ "dict_at (dict_at (dict_at (buffered_mrc m) u) c) b"] exI [of _ "last_usage m"])
          (auto simp: store_measurement_def Let_def setdefault_eq next_perfs_def)
    next
      case new: False
      then obtain new where "curve = Some new" "new \<noteq> []" by auto
      then show ?thesis using False
        by (intro exI [of _ "weighted_update_list (dict_at (dict_at (dict_at (buffered_mrc m) u) c) b) new"] exI)
          (auto simp: store_measurement_def Let_def setdefault_eq next_perfs_def)
    qed
  qed
qed

lemma store_measurement_inv:
  assumes "monitor_inv m"
  shows "monitor_inv (store_measurement u c b c_raw b_raw perf curve m)"
proof -
  obtain x us where eq: "store_measurement u c b c_raw b_raw perf curve m =
     m\<lparr>buffered_data := dict_set u (dict_set c
          (dict_set b (next_perfs (dict_at (dict_at (dict_at (buffered_data m) u) c) b) perf)
            (dict_at (dict_at (buffered_data m) u) c)) (dict_at (buffered_data m) u)) (buffered_data m),
       buffered_mrc := dict_set u (dict_set c (dict_set b x (dict_at (dict_at (buffered_mrc m) u) c))
          (dict_at (buffered_mrc m) u)) (buffered_mrc m),
       last_usage := us\<rparr>"
    using store_measurement_eq by blast
  have "buffered_ok m" using assms by (simp add: monitor_inv_def)
  then have "buffered_ok (store_measurement u c b c_raw b_raw perf curve m)"
    by (rule buffered_ok_store) (simp_all add: eq)
  then show ?thesis using assms by (simp add: monitor_inv_def eq)
qed

lemma buffer_entry_cases:
  assumes "buffer_entry th e m = Inr m'"
  obtains "m' = m" | u c b cr br p where "m' = store_measurement u c b cr br p (le_mrc e) m"
proof (cases "le_app_id e")
  case None
  then show thesis using assms that(1) by (simp add: buffer_entry_def)
next
  case (Some key)
  then obtain u where u: "int_of_key key = Inr u" using assms by (auto simp: buffer_entry_def elim: rbind_eq_InrE)
  show thesis
    by (cases "le_cache_size e"; cases "le_cache_raw e"; cases "le_bandwidth e"; cases "le_mem_bw_raw e"; cases "le_perf e")
      (use assms that(1) that(2) [OF sym] Some u in \<open>simp_all add: buffer_entry_def Let_def split: if_splits\<close>)
qed

lemma buffer_inv:
  assumes "buffer_collected_data th data m = Inr m'" and "monitor_inv m"
  shows "monitor_inv m'"
proof -
  let ?m = "m\<lparr>num_buffered_data := num_buffered_data m + 1\<rparr>"
  have inv: "monitor_inv ?m" using assms(2) by (simp add: monitor_inv_def buffered_ok_def)
  have "monitor_inv m'" if "rfold (buffer_entry th) data ?m = Inr m'"
    using that inv
  proof (rule rfold_invariant)
    fix e m1 m2 assume "monitor_inv m1" "buffer_entry th e m1 = Inr m2"
    from this(2,1) show "monitor_inv m2" by (cases rule: buffer_entry_cases) (auto intro: store_measurement_inv)
  qed
  then show ?thesis
    using assms inv by (auto simp: buffer_collected_data_def Let_def rbind_eq_Inr split: if_splits)
qed

lemma collect_inv:
  assumes "collect th status body m = Inr m'" and "monitor_inv m"
  shows "monitor_inv m'"
proof -
  have "monitor_inv (m\<lparr>vm_to_app_map := vms\<rparr>)" for vms
    using assms(2) by (simp add: monitor_inv_def buffered_ok_def)
  then show ?thesis
    using assms
    by (auto simp: collect_def parse_log_entries_def rbind_eq_Inr intro: buffer_inv
        split: if_splits response_body.splits)
qed


text \<open>What a reset does to a table that has the application.\<close>

definition reset_key :: "'k \<Rightarrow> 'v \<Rightarrow> ('k, 'v) dict \<Rightarrow> ('k, 'v) dict" where
  "reset_key a v d = (if has_key d a then dict_set a v d else d)"

lemma map_of_reset_key: "map_of (reset_key a v d) b = (if b = a \<and> has_key d a then Some v else map_of d b)"
  by (simp add: reset_key_def)

lemma map_of_reset_same: "map_of (reset_key a v d) a = (if has_key d a then Some v else None)"
  by (simp add: reset_key_def has_key_def)

lemma map_of_reset_other: "b \<noteq> a \<Longrightarrow> map_of (reset_key a v d) b = map_of d b"
  by (simp add: reset_key_def)

lemma set_reset_key: "set (reset_key a v d) \<subseteq> insert (a, v) (set d)"
  using set_dict_set [of a v d] by (auto simp: reset_key_def)

lemma wf_reset_key [simp]: "wf_dict d \<Longrightarrow> wf_dict (reset_key a v d)"
  by (simp add: reset_key_def)

lemma reset_eq:
  "snd (reset_metrics_for_app a m) = m
     \<lparr>collected_data := reset_key a (new_app_data\<lparr>last_update_iteration := collection_iteration_count m\<rparr>) (collected_data m),
      buffered_data := reset_key a [] (buffered_data m), buffered_mrc := reset_key a [] (buffered_mrc m),
      last_usage := reset_key a \<lparr>u_cache = 0, u_mem_bw = 0\<rparr> (last_usage m),
      recent_measurement := reset_key a [] (recent_measurement m)\<rparr>"
  "fst (reset_metrics_for_app a m) \<longleftrightarrow> has_key (collected_data m) a \<or> has_key (buffered_data m) a \<or>
     has_key (buffered_mrc m) a \<or> has_key (last_usage m) a \<or> has_key (recent_measurement m) a"
  by (simp_all add: reset_metrics_for_app_def Let_def reset_key_def)

lemma reset_inv:
  assumes "monitor_inv m"
  shows "monitor_inv (snd (reset_metrics_for_app a m))"
proof -
  let ?n = "new_app_data\<lparr>last_update_iteration := collection_iteration_count m\<rparr>"
  let ?m = "snd (reset_metrics_for_app a m)"
  have r: "\<forall>(u, d) \<in> set (reset_key a ?n (collected_data m)). app_ok (collection_iteration_count m) d"
    "\<forall>(u, r) \<in> set (reset_key a [] (recent_measurement m)). length r \<le> recent_window + 1"
    using assms set_reset_key [of a ?n "collected_data m"] set_reset_key [of a "[]" "recent_measurement m"] app_ok_new(1)
    unfolding monitor_inv_def by fastforce+
  have wf: "wf_dict (buffered_data ?m)" using assms by (simp add: monitor_inv_def reset_eq)
  have "buffered_ok ?m"
  proof (rule buffered_okI)
    fix u by_cache c by_bw b l
    assume el: "(u, by_cache) \<in> set (buffered_data ?m)" "(c, by_bw) \<in> set by_cache" "(b, l) \<in> set by_bw"
    have "map_of (buffered_data ?m) u = Some by_cache" using wf el(1) by (rule map_of_is_SomeI)
    then have u: "u \<noteq> a" "(u, by_cache) \<in> set (buffered_data m)"
      using el(2) by (auto simp: reset_eq map_of_reset_key has_key_def split: if_splits dest: map_of_SomeD)
    have "buffered_ok m" using assms by (simp add: monitor_inv_def)
    from buffered_okD [OF this u(2) el(2,3)]
    show "\<exists>curves. map_of (buffered_mrc ?m) u = Some curves \<and> lookup2 curves c b \<noteq> None"
      using u(1) by (simp add: reset_eq map_of_reset_key)
  qed
  then show ?thesis using wf r by (simp add: monitor_inv_def reset_eq)
qed

end
