(* ===== verification/Monitor_Props.thy ===== *)
theory Monitor_Props
  imports Monitor_Inv
begin

text \<open>
  The states the monitor can reach, with the operations of the control loop and of the metrics reset server
  in any order, and the properties of its operations.  Each operation is one step: the development does not
  model the two threads interleaving inside an operation, except where a property says so.
\<close>

section \<open>Reachable states\<close>

inductive reachable :: "int option \<Rightarrow> monitor \<Rightarrow> bool" for interval where
  init: "reachable interval (init_monitor interval)"
| collects: "reachable interval m \<Longrightarrow> collect th status body m = Inr m' \<Longrightarrow> reachable interval m'"
| deploys: "reachable interval m \<Longrightarrow> reachable interval (set_last_allocation d m)"
| consumes: "reachable interval m \<Longrightarrow> comsume_collected_data m = Inr m' \<Longrightarrow> reachable interval m'"
| resets: "reachable interval m \<Longrightarrow> reachable interval (snd (reset_metrics_for_app a m))"

lemma reachable_inv: "reachable interval m \<Longrightarrow> monitor_inv m"
proof (induction rule: reachable.induct)
  case (deploys m d)
  then show ?case by (simp add: set_last_allocation_def monitor_inv_def buffered_ok_def)
next
  case (consumes m m')
  from consumes(3) obtain m1 where "comsume_collected_data m = Inr m1" "monitor_inv m1" by (rule consume_ok)
  then show ?case using consumes(2) by simp
qed (auto intro: monitor_inv_init collect_inv reset_inv)

text \<open>C5. In every reachable state, with collections, deployments, consumptions and resets in any order,
  consuming the buffer does not raise (no table misses a key another one has); it leaves the buffer empty
  and advances the iteration count by one.\<close>

theorem consume_total:
  assumes "reachable interval m"
  shows "\<exists>m'. comsume_collected_data m = Inr m' \<and> reachable interval m' \<and> buffered_data m' = [] \<and>
    num_buffered_data m' = 0 \<and> collection_iteration_count m' = collection_iteration_count m + 1"
proof -
  obtain m' where m': "comsume_collected_data m = Inr m'" "buffered_data m' = []" "num_buffered_data m' = 0"
    "collection_iteration_count m' = collection_iteration_count m + 1"
    using consume_ok [OF reachable_inv [OF assms]] by blast
  then show ?thesis using reachable.consumes [OF assms m'(1)] by blast
qed

text \<open>A sample log: one VM with one application that has a curve of two points.\<close>

definition sample_doc :: log_json where
  "sample_doc = Some [(''0'', [(''1'', \<lparr>rw_mem_mb = Some 4000, rw_bw_mbps = Some 900, rw_cache_mbps = Some 5000,
     rw_access_rate_ops_sec = Some 8000, rw_mrc = Some [(1024, 1 / 2), (4096, 1 / 4)]\<rparr>)])]"

definition sample_monitor :: monitor where
  "sample_monitor = set_last_allocation [(1, \<lparr>d_cache = 4096, d_mem_bw = 1024\<rparr>)] (init_monitor (Some 5))"

definition sample_collected :: monitor where
  "sample_collected = (case collect (25 / 1000) 200 (Json sample_doc) sample_monitor of Inr m \<Rightarrow> m | Inl e \<Rightarrow> sample_monitor)"

lemma sample_collect: "collect (25 / 1000) 200 (Json sample_doc) sample_monitor = Inr sample_collected"
proof -
  have "(case collect (25 / 1000) 200 (Json sample_doc) sample_monitor of Inl e \<Rightarrow> False | Inr m \<Rightarrow> True)"
    by code_simp
  then show ?thesis by (simp add: sample_collected_def split: sum.splits)
qed

lemma sample_reachable: "reachable (Some 5) sample_collected"
  using sample_collect unfolding sample_monitor_def by (intro reachable.collects [OF reachable.deploys [OF reachable.init]])

theorem consume_total_witness:
  "reachable (Some 5) sample_collected \<and>
   (\<exists>m'. comsume_collected_data sample_collected = Inr m' \<and> buffered_data m' = [])"
  using consume_total [OF sample_reachable] sample_reachable by blast

text \<open>C6. The bookkeeping of every reachable state is exact: the record counter of an application is the
  number of its records, the datapoint counter the number of its cache/bandwidth pairs, every pair has a time
  stamp, no record is newer than the iteration count, and the window of recent rounds has at most 25
  entries.\<close>

theorem monitor_bookkeeping:
  assumes "reachable interval m" and "map_of (collected_data m) u = Some d"
  shows "total_record d = count_records (datapoints d) \<and> total_datapoint d = count_pairs (datapoints d) \<and>
    shape (last_updated d) = shape (datapoints d) \<and> last_update_iteration d \<le> collection_iteration_count m \<and>
    (\<forall>c points b l p t. (c, points) \<in> set (datapoints d) \<longrightarrow> (b, l) \<in> set points \<longrightarrow> (p, t) \<in> set l \<longrightarrow>
       t \<le> collection_iteration_count m) \<and>
    (\<forall>r. map_of (recent_measurement m) u = Some r \<longrightarrow> length r \<le> 25)"
proof -
  note inv = reachable_inv [OF assms(1), unfolded monitor_inv_def]
  have "app_ok (collection_iteration_count m) d" using inv map_of_SomeD [OF assms(2)] by auto
  moreover have "length r \<le> 25" if "map_of (recent_measurement m) u = Some r" for r
    using inv map_of_SomeD [OF that] by (auto simp: recent_window_def)
  ultimately show ?thesis unfolding app_ok_def by fastforce
qed

definition sample_data :: app_data where
  "sample_data =
     \<lparr>total_record = 1, total_datapoint = 1, datapoints = [(4096, [(1024, [(5000, 1)])])],
      last_updated = [(4096, [(1024, 1)])], last_update_iteration = 1,
      last_mrc = [(1024, 95 / 200), (4096, 95 / 400)]\<rparr>"

definition sample_after :: monitor where
  "sample_after = sample_collected\<lparr>collected_data := [(1, sample_data)], buffered_data := [], num_buffered_data := 0,
     collection_iteration_count := 1,
     recent_measurement := [(1, [[\<lparr>me_cache_size = 4096, me_mem_bw_in_gbps = 1, me_perf = 5000\<rparr>]])]\<rparr>"

lemma sample_consumed: "comsume_collected_data sample_collected = Inr sample_after"
  by code_simp

lemma sample_after_reachable: "reachable (Some 5) sample_after"
  using reachable.consumes [OF sample_reachable sample_consumed] .

theorem monitor_bookkeeping_witness:
  "map_of (collected_data sample_after) 1 = Some sample_data \<and>
   total_record sample_data = count_records (datapoints sample_data)"
proof -
  have "map_of (collected_data sample_after) 1 = Some sample_data" by (simp add: sample_after_def)
  then show ?thesis using monitor_bookkeeping [OF sample_after_reachable] by blast
qed

section \<open>What consuming adds\<close>

definition records_of :: "monitor \<Rightarrow> int \<Rightarrow> nat" where
  "records_of m u = (case map_of (collected_data m) u of None \<Rightarrow> 0 | Some d \<Rightarrow> total_record d)"

lemma consume_datapoint_records:
  assumes "consume_datapoint u c e m = Inr m'" and "consuming m0 m"
  shows "records_of m' v = records_of m v + (if v = u then 1 else 0)"
proof -
  obtain b perfs where e: "e = (b, perfs)" by force
  let ?d = "case map_of (collected_data m) u of None \<Rightarrow> new_app_data | Some d \<Rightarrow> d"
  have ok: "app_ok (collection_iteration_count m) ?d"
  proof (cases "map_of (collected_data m) u")
    case (Some d)
    then show ?thesis using assms(2) map_of_SomeD [OF Some] by (auto simp: consuming_def)
  qed (simp add: app_ok_new)
  obtain curve d' where d': "add_datapoint c b (median_perf perfs) (collection_iteration_count m) curve ?d = Inr d'"
    "m' = m\<lparr>collected_data := dict_set u d' (collected_data m)\<rparr>"
    using assms(1) by (auto simp: consume_datapoint_def e Let_def rbind_eq_Inr)
  then have "total_record d' = total_record ?d + 1" using ok by (metis add_datapoint_ok sum.inject(2))
  then show ?thesis using d'(2) by (auto simp: records_of_def new_app_data_def split: option.splits)
qed

lemma consume_cache_records:
  assumes "rfold (consume_datapoint u c) cd m = Inr m'" and "consuming m0 m"
    and step: "\<And>e m1. e \<in> set cd \<Longrightarrow> consuming m0 m1 \<Longrightarrow> \<exists>m2. consume_datapoint u c e m1 = Inr m2 \<and> consuming m0 m2"
  shows "records_of m' v = records_of m v + (if v = u then length cd else 0)"
  using assms
proof (induction cd arbitrary: m)
  case (Cons e cd)
  then obtain m1 where m1: "consume_datapoint u c e m = Inr m1" "consuming m0 m1" "rfold (consume_datapoint u c) cd m1 = Inr m'"
    by (metis list.set_intros(1) rbind_Inr rfold.simps(2))
  have "records_of m' v = records_of m1 v + (if v = u then length cd else 0)"
    using Cons.IH [OF m1(3,2)] Cons.prems(3) by simp
  then show ?case using consume_datapoint_records [OF m1(1) Cons.prems(2), of v] by simp
qed simp


lemma consume_user_records:
  assumes "consume_user (u, by_cache) m = Inr m'" and "consuming m0 m" and "buffered_ok m0"
    and "(u, by_cache) \<in> set (buffered_data m0)"
  shows "records_of m' v = records_of m v + (if v = u then count_pairs by_cache else 0)"
proof -
  let ?body = "\<lambda>(c, cd). rfold (consume_datapoint u c) cd"
  have loop: "records_of m2 v = records_of m1 v + (if v = u then count_pairs bc else 0)"
    if "rfold ?body bc m1 = Inr m2" "consuming m0 m1" "set bc \<subseteq> set by_cache" for bc m1 m2
    using that
  proof (induction bc arbitrary: m1)
    case (Cons e bc)
    obtain c cd where e: "e = (c, cd)" by force
    obtain m3 where m3: "rfold (consume_datapoint u c) cd m1 = Inr m3" "consuming m0 m3"
      using consume_cache_step [OF Cons.prems(2) assms(3,4), of c cd] Cons.prems(3) e by auto
    have "records_of m3 v = records_of m1 v + (if v = u then length cd else 0)"
      using consume_cache_records [OF m3(1) Cons.prems(2)] consume_step [OF _ assms(3,4), of _ c cd] Cons.prems(3) e
      by auto
    moreover have "rfold ?body bc m3 = Inr m2" using Cons.prems(1) e m3(1) by simp
    ultimately show ?case using Cons.IH [of m3] m3(2) Cons.prems(3) e by (simp add: count_pairs_def)
  qed (simp add: count_pairs_def)
  obtain m1 where m1: "rfold ?body by_cache m = Inr m1"
    "m' = (case map_of (collected_data m1) u of None \<Rightarrow> m1 | Some d \<Rightarrow> m1\<lparr>collected_data := dict_set u
       (d\<lparr>last_update_iteration := collection_iteration_count m1\<rparr>) (collected_data m1)\<rparr>)"
    using assms(1) by (auto simp: consume_user_def rbind_eq_Inr)
  have "records_of m' v = records_of m1 v" using m1(2) by (auto simp: records_of_def split: option.splits)
  then show ?thesis using loop [OF m1(1) assms(2)] by simp
qed

text \<open>C15. Consuming adds exactly one record for each buffered cache/bandwidth pair of an application, and
  none to applications without buffered data.\<close>

theorem consume_adds_buffered:
  assumes "reachable interval m" and "comsume_collected_data m = Inr m'"
  shows "records_of m' u = records_of m u + count_pairs (dict_at (buffered_data m) u)"
proof -
  let ?m1 = "update_recent_measurement (m\<lparr>collection_iteration_count := collection_iteration_count m + 1\<rparr>)"
  note inv = reachable_inv [OF assms(1), unfolded monitor_inv_def]
  have b: "buffered_ok ?m1" and data: "buffered_data ?m1 = buffered_data m"
    using inv by (simp_all add: buffered_ok_def update_recent_measurement_def)
  have "app_ok (collection_iteration_count m + 1) d" if "(v, d) \<in> set (collected_data m)" for v d
    using inv that app_ok_mono [of "collection_iteration_count m" d] by auto
  then have start: "consuming ?m1 ?m1" by (intro consuming_refl) (auto simp: update_recent_measurement_def)
  have loop: "records_of m3 u = records_of m2 u + count_pairs (dict_at bd u)"
    if "rfold consume_user bd m2 = Inr m3" "consuming ?m1 m2" "set bd \<subseteq> set (buffered_data ?m1)" "wf_dict bd" for bd m2 m3
    using that
  proof (induction bd arbitrary: m2)
    case (Cons e bd)
    obtain v by_cache where e: "e = (v, by_cache)" by force
    obtain m4 where m4: "consume_user (v, by_cache) m2 = Inr m4" "consuming ?m1 m4"
      using consume_user_ok [OF Cons.prems(2) _ b, of v by_cache] Cons.prems(3) e by auto
    have "rfold consume_user bd m4 = Inr m3" using Cons.prems(1) e m4(1) by simp
    then have "records_of m3 u = records_of m4 u + count_pairs (dict_at bd u)"
      using Cons.IH [of m4] m4(2) Cons.prems(3,4) by simp
    moreover have "records_of m4 u = records_of m2 u + (if u = v then count_pairs by_cache else 0)"
      using consume_user_records [OF m4(1) Cons.prems(2) b] Cons.prems(3) e by simp
    moreover have "map_of bd v = None" using Cons.prems(4) e by (simp add: map_of_eq_None_iff)
    ultimately show ?case using e by (auto simp: dict_at_def count_pairs_def)
  qed (simp add: dict_at_def count_pairs_def)
  obtain m2 where "rfold consume_user (buffered_data ?m1) ?m1 = Inr m2" "m' = m2\<lparr>buffered_data := [], num_buffered_data := 0\<rparr>"
    using assms(2) by (auto simp: comsume_collected_data_def Let_def rbind_eq_Inr)
  then show ?thesis
    using loop [OF _ start] inv data by (simp add: records_of_def update_recent_measurement_def)
qed

theorem consume_adds_buffered_witness:
  "comsume_collected_data sample_collected = Inr sample_after \<and>
   records_of sample_after 1 = records_of sample_collected 1 + count_pairs (dict_at (buffered_data sample_collected) 1)"
  using consume_adds_buffered [OF sample_reachable sample_consumed] sample_consumed by blast

section \<open>Resetting\<close>



text \<open>C23. The reset is not safe in the middle of a consumption: when another thread resets an application
  that has buffered curves while \<open>comsume_collected_data\<close> is walking its buffered data, the next datapoint
  of that application raises \<open>KeyError\<close>.\<close>

theorem reset_during_consume_raises:
  assumes "has_key (buffered_mrc m) a"
  shows "consume_datapoint a c (b, perfs) (snd (reset_metrics_for_app a m)) = Inl KeyError"
  using assms by (auto simp: reset_metrics_for_app_def Let_def consume_datapoint_def dict_get_def)

theorem reset_during_consume_raises_witness:
  "has_key (buffered_mrc sample_collected) 1 \<and>
   consume_datapoint 1 4096 (1024, [5000]) (snd (reset_metrics_for_app 1 sample_collected)) = Inl KeyError"
proof -
  have "has_key (buffered_mrc sample_collected) 1" by code_simp
  then show ?thesis using reset_during_consume_raises by blast
qed

end
