(* ===== verification/Monitor_Data.thy ===== *)
theory Monitor_Data
  imports Monitor_Props "HOL-Library.Multiset"
begin

text \<open>
  The data the monitor derives: smoothed curves and usage, medians, the parsed log, and the two views of the
  datapoints.
\<close>

section \<open>Smoothing\<close>

lemma smooth_between:
  fixes x y :: rat
  shows "min x y \<le> alpha * y + (1 - alpha) * x" "alpha * y + (1 - alpha) * x \<le> max x y"
  by (auto simp: alpha_def min_def max_def)

text \<open>Smoothing a curve keeps its sizes and moves every miss rate to between the old and the new one: the
  result has the old curve's sizes, and where the sizes agree each value lies between the two.\<close>

lemma weighted_update_between:
  assumes "old \<noteq> []"
  shows "map fst (weighted_update_list old new) = map fst old \<and>
    (map fst old = map fst new \<longrightarrow>
     (\<forall>i < length old. min (snd (old ! i)) (snd (new ! i)) \<le> snd (weighted_update_list old new ! i) \<and>
        snd (weighted_update_list old new ! i) \<le> max (snd (old ! i)) (snd (new ! i))))"
proof (cases "new = [] \<or> map fst old \<noteq> map fst new")
  case True
  then show ?thesis using assms by (auto simp: weighted_update_list_def)
next
  case False
  then have len: "length old = length new" and keys: "map fst old = map fst new" by (metis length_map)+
  have eq: "weighted_update_list old new =
      map (\<lambda>((k, v), (_, w)). (k, alpha * w + (1 - alpha) * v)) (zip old new)"
    using False assms by (simp add: weighted_update_list_def)
  have "map fst (weighted_update_list old new) = map fst old"
    unfolding eq using len by (induction old new rule: list_induct2) auto
  moreover have "snd (weighted_update_list old new ! i) = alpha * snd (new ! i) + (1 - alpha) * snd (old ! i)"
    if "i < length old" for i
    unfolding eq using that len by (simp add: case_prod_unfold)
  ultimately show ?thesis using smooth_between by simp
qed

text \<open>The first curve of a cache/bandwidth pair is scaled down: with no old curve the update smooths
  against zeros, so that every miss rate is stored as 0.95 times the measured one.\<close>

lemma first_curve_scaled:
  "weighted_update_list [] new = map (\<lambda>(k, v). (k, 95 / 100 * v)) new"
proof (cases "new = []")
  case False
  have "map (\<lambda>((k, v), (_, w)). (k, alpha * w + (1 - alpha) * v)) (zip (map (\<lambda>(k, _). (k, 0)) new) new)
      = map (\<lambda>(k, v). (k, 95 / 100 * v)) new"
    by (induction new) (auto simp: alpha_def)
  moreover have "map fst (map (\<lambda>(k, _). (k, 0 :: rat)) new) = map fst new" by (induction new) auto
  ultimately show ?thesis using False by (simp add: weighted_update_list_def Let_def)
qed (simp add: weighted_update_list_def)

section \<open>Medians\<close>

text \<open>The median of a list that is not empty has at least half of the list at or below it and at least
  half at or above it.\<close>

lemma median_halves:
  assumes "l \<noteq> []"
  shows "length l \<le> 2 * length (filter (\<lambda>x. of_int x \<le> median_perf l) l) \<and>
         length l \<le> 2 * length (filter (\<lambda>x. median_perf l \<le> of_int x) l)"
proof -
  define s where "s = sort l"
  define n where "n = length l"
  have s: "sorted s" "length s = n" "0 < n" using assms by (simp_all add: s_def n_def)
  have le: "length (filter P l) = length (filter P s)" for P
    unfolding s_def by (metis mset_filter mset_sort size_mset)
  have part: "length (filter P xs) \<le> length (filter P (xs @ ys))" "length (filter P ys) \<le> length (filter P (xs @ ys))"
    for P and xs ys :: "int list" by simp_all
  define lo where "lo = (if odd n then n div 2 else n div 2 - 1)"
  have lo: "lo \<le> n div 2" "n div 2 < n" "n \<le> 2 * Suc lo" "n \<le> 2 * (n - n div 2)"
    using s(3) by (auto simp: lo_def)
  have order: "s ! lo \<le> s ! (n div 2)" using sorted_nth_mono [OF s(1) lo(1)] lo(2) s(2) by simp
  have med: "of_int (s ! lo) \<le> median_perf l" "median_perf l \<le> of_int (s ! (n div 2))"
    using order s by (auto simp: median_perf_def Let_def lo_def s_def [symmetric])
  have "of_int x \<le> median_perf l" if x: "x \<in> set (take (Suc lo) s)" for x
  proof -
    obtain i where i: "i < Suc lo" "x = s ! i" using x by (auto simp: in_set_conv_nth)
    then have "x \<le> s ! lo" using sorted_nth_mono [OF s(1), of i lo] lo s(2) by simp
    then show ?thesis using order_trans [OF _ med(1)] by simp
  qed
  then have "filter (\<lambda>x. of_int x \<le> median_perf l) (take (Suc lo) s) = take (Suc lo) s" by (simp add: filter_id_conv)
  then have 1: "Suc lo \<le> length (filter (\<lambda>x. of_int x \<le> median_perf l) s)"
    using part(1) [of "\<lambda>x. of_int x \<le> median_perf l" "take (Suc lo) s" "drop (Suc lo) s"] lo s(2) by simp
  have "median_perf l \<le> of_int x" if x: "x \<in> set (drop (n div 2) s)" for x
  proof -
    obtain i where "i < length s - n div 2" "x = s ! (n div 2 + i)" using x by (auto simp: in_set_conv_nth)
    then have i: "n div 2 + i < n" "x = s ! (n div 2 + i)" using s(2) by simp_all
    then have "s ! (n div 2) \<le> x" using sorted_nth_mono [OF s(1), of "n div 2" "n div 2 + i"] s(2) by simp
    then show ?thesis using order_trans [OF med(2)] by simp
  qed
  then have "filter (\<lambda>x. median_perf l \<le> of_int x) (drop (n div 2) s) = drop (n div 2) s" by (simp add: filter_id_conv)
  then have 2: "n - n div 2 \<le> length (filter (\<lambda>x. median_perf l \<le> of_int x) s)"
    using part(2) [of "\<lambda>x. median_perf l \<le> of_int x" "drop (n div 2) s" "take (n div 2) s"] s(2) by simp
  show ?thesis unfolding le n_def [symmetric]
    using order_trans [OF lo(3) mult_le_mono2 [OF 1]] order_trans [OF lo(4) mult_le_mono2 [OF 2]] by blast
qed

section \<open>Parsing the log\<close>

text \<open>The document a controller prints for VMs and applications with integer ids.\<close>

definition print_log :: "(int \<times> (int \<times> raw_entry) list) list \<Rightarrow> log_json" where
  "print_log vms = Some (map (\<lambda>(vm, apps). (str_of_int vm, map (\<lambda>(a, e). (str_of_int a, e)) apps)) vms)"

definition complete_entry :: "raw_entry \<Rightarrow> bool" where
  "complete_entry e \<longleftrightarrow> rw_mem_mb e \<noteq> None \<and> rw_bw_mbps e \<noteq> None \<and> rw_cache_mbps e \<noteq> None \<and>
     rw_access_rate_ops_sec e \<noteq> None"

lemma parse_ids:
  "rfold (\<lambda>(app_id, _) ids. rbind (int_of_str app_id) (\<lambda>a. Inr (ids @ [a]))) (map (\<lambda>(a, e). (str_of_int a, e)) apps) ids
     = Inr (ids @ map fst apps)"
  by (induction apps arbitrary: ids) (auto simp: int_of_str_of_int)

lemma parse_vm_map_print:
  assumes "distinct (map fst vms)"
  shows "parse_vm_map (map (\<lambda>(vm, apps). (str_of_int vm, map (\<lambda>(a, e). (str_of_int a, e)) apps)) vms)
    = Inr (map (\<lambda>(vm, apps). (vm, map fst apps)) vms)"
proof -
  have "rfold (\<lambda>(vm_id, apps) res. rbind (int_of_str vm_id) (\<lambda>vm.
       rbind (rfold (\<lambda>(app_id, _) ids. rbind (int_of_str app_id) (\<lambda>a. Inr (ids @ [a]))) apps []) (\<lambda>app_ids.
       Inr (dict_set vm app_ids res))))
      (map (\<lambda>(vm, apps). (str_of_int vm, map (\<lambda>(a, e). (str_of_int a, e)) apps)) vs) res
    = Inr (res @ map (\<lambda>(vm, apps). (vm, map fst apps)) vs)"
    if "distinct (keys res @ map fst vs)" for vs :: "(int \<times> (int \<times> raw_entry) list) list" and res
    using that
  proof (induction vs arbitrary: res)
    case (Cons v vs)
    obtain vm apps where v: "v = (vm, apps)" by force
    have "vm \<notin> set (keys res)" using Cons.prems v by auto
    then have "dict_set vm (map fst apps) res = res @ [(vm, map fst apps)]" by (induction res) auto
    then show ?case
      using Cons.IH [of "res @ [(vm, map fst apps)]"] Cons.prems v by (simp add: int_of_str_of_int parse_ids)
  qed simp
  from this [of "[]" vms] assms show ?thesis by (simp add: parse_vm_map_def)
qed

text \<open>The log entry for an application of a VM: its ids and measured amounts, and as allocated amounts those
  of the last allocation if it has the application.\<close>

definition logged :: "deployment \<Rightarrow> int \<times> int \<times> raw_entry \<Rightarrow> log_entry \<Rightarrow> bool" where
  "logged la item le \<longleftrightarrow>
    (case item of (vm, a, e) \<Rightarrow>
       le_vm_id le = vm \<and> (\<exists>key. le_app_id le = Some key \<and> int_of_key key = Inr a) \<and>
       le_cache_raw le = rw_mem_mb e \<and> le_mem_bw_raw le = rw_bw_mbps e \<and> le_mrc le = rw_mrc e \<and>
       le_perf le = map_option (\<lambda>x. of_int (py_int x)) (rw_cache_mbps e) \<and>
       (case map_of la a of
          None \<Rightarrow> le_cache_size le = rw_mem_mb e \<and> le_bandwidth le = rw_bw_mbps e
        | Some d \<Rightarrow> le_cache_size le = Some (of_int (d_cache d)) \<and> le_bandwidth le = Some (of_int (d_mem_bw d))))"

lemma parse_entry_print:
  assumes "complete_entry e"
  shows "\<exists>le. parse_entry la (str_of_int vm) (str_of_int a, e) acc = Inr (acc @ [le]) \<and> logged la (vm, a, e) le"
proof -
  obtain mem bw c acs where e: "rw_mem_mb e = Some mem" "rw_bw_mbps e = Some bw" "rw_cache_mbps e = Some c"
    "rw_access_rate_ops_sec e = Some acs" using assms by (auto simp: complete_entry_def)
  show ?thesis
    by (cases "la = []"; cases "map_of la a")
      (simp_all add: parse_entry_def field_def e int_of_str_of_int logged_def)
qed

lemma parse_apps_print:
  assumes "\<forall>(a, e) \<in> set apps. complete_entry e"
  shows "\<exists>les. rfold (parse_entry la (str_of_int vm)) (map (\<lambda>(a, e). (str_of_int a, e)) apps) acc = Inr (acc @ les) \<and>
    list_all2 (logged la) (map (\<lambda>(a, e). (vm, a, e)) apps) les"
  using assms
proof (induction apps arbitrary: acc)
  case (Cons p apps)
  obtain a e where p: "p = (a, e)" by force
  obtain le where le: "parse_entry la (str_of_int vm) (str_of_int a, e) acc = Inr (acc @ [le])" "logged la (vm, a, e) le"
    using parse_entry_print [of e la vm a acc] Cons.prems p by auto
  obtain les where "rfold (parse_entry la (str_of_int vm)) (map (\<lambda>(a, e). (str_of_int a, e)) apps) (acc @ [le])
      = Inr ((acc @ [le]) @ les)" "list_all2 (logged la) (map (\<lambda>(a, e). (vm, a, e)) apps) les"
    using Cons.IH [of "acc @ [le]"] Cons.prems by auto
  then show ?case using le p by (intro exI [of _ "le # les"]) simp
qed simp

definition flatten :: "(int \<times> (int \<times> raw_entry) list) list \<Rightarrow> (int \<times> int \<times> raw_entry) list" where
  "flatten vms = concat (map (\<lambda>(vm, apps). map (\<lambda>(a, e). (vm, a, e)) apps) vms)"

lemma parse_vms_print:
  assumes "\<forall>(vm, apps) \<in> set vms. \<forall>(a, e) \<in> set apps. complete_entry e"
  shows "\<exists>les. rfold (\<lambda>(vm_id, apps). rfold (parse_entry la vm_id) apps)
      (map (\<lambda>(vm, apps). (str_of_int vm, map (\<lambda>(a, e). (str_of_int a, e)) apps)) vms) acc = Inr (acc @ les) \<and>
    list_all2 (logged la) (flatten vms) les"
  using assms
proof (induction vms arbitrary: acc)
  case (Cons v vms)
  obtain vm apps where v: "v = (vm, apps)" by force
  obtain xs where xs: "rfold (parse_entry la (str_of_int vm)) (map (\<lambda>(a, e). (str_of_int a, e)) apps) acc = Inr (acc @ xs)"
    "list_all2 (logged la) (map (\<lambda>(a, e). (vm, a, e)) apps) xs"
    using parse_apps_print [of apps la vm acc] Cons.prems v by auto
  obtain ys where "rfold (\<lambda>(vm_id, apps). rfold (parse_entry la vm_id) apps)
      (map (\<lambda>(vm, apps). (str_of_int vm, map (\<lambda>(a, e). (str_of_int a, e)) apps)) vms) (acc @ xs) = Inr ((acc @ xs) @ ys)"
    "list_all2 (logged la) (flatten vms) ys"
    using Cons.IH [of "acc @ xs"] Cons.prems by auto
  then show ?case using xs v
    by (intro exI [of _ "xs @ ys"]) (simp add: flatten_def list_all2_appendI)
qed (simp add: flatten_def)

text \<open>C16. Parsing inverts printing: for a document with distinct integer VM ids and complete entries,
  \<open>parse_log_entries\<close> returns the VM mapping that was printed and one log entry for each application, in
  order, with the application's ids and measured amounts and, as its allocation, that of the last
  deployment.\<close>

theorem parse_log_round_trip:
  assumes "distinct (map fst vms)" and "\<forall>(vm, apps) \<in> set vms. \<forall>(a, e) \<in> set apps. complete_entry e"
  shows "\<exists>les. parse_log_entries (print_log vms) m =
      Inr (m\<lparr>vm_to_app_map := map (\<lambda>(vm, apps). (vm, map fst apps)) vms\<rparr>, les) \<and>
    list_all2 (logged (mon_last_allocation m)) (flatten vms) les"
  using parse_vms_print [OF assms(2), of "mon_last_allocation m" "[]"] parse_vm_map_print [OF assms(1)]
  by (auto simp: parse_log_entries_def print_log_def field_def)

definition sample_raw :: raw_entry where
  "sample_raw = \<lparr>rw_mem_mb = Some 4000, rw_bw_mbps = Some 900, rw_cache_mbps = Some 5000,
     rw_access_rate_ops_sec = Some 8000, rw_mrc = Some [(1024, 1 / 2), (4096, 1 / 4)]\<rparr>"

theorem parse_log_round_trip_witness:
  "\<exists>les. parse_log_entries (print_log [(0, [(1, sample_raw), (12, sample_raw)])]) sample_monitor =
     Inr (sample_monitor\<lparr>vm_to_app_map := [(0, [1, 12])]\<rparr>, les) \<and> length les = 2"
proof -
  have "\<exists>les. parse_log_entries (print_log [(0, [(1, sample_raw), (12, sample_raw)])]) sample_monitor =
      Inr (sample_monitor\<lparr>vm_to_app_map := map (\<lambda>(vm, apps). (vm, map fst apps)) [(0, [(1, sample_raw), (12, sample_raw)])]\<rparr>, les) \<and>
    list_all2 (logged (mon_last_allocation sample_monitor)) (flatten [(0, [(1, sample_raw), (12, sample_raw)])]) les"
    by (rule parse_log_round_trip) (simp_all add: complete_entry_def sample_raw_def)
  then show ?thesis by (auto simp: flatten_def dest: list_all2_lengthD)
qed

section \<open>Units of the recent measurements\<close>

text \<open>\<open>has_enough_data\<close> compares a bandwidth in Mbps with one stored in Gbps: after any number of rounds
  measured at 4096 MB and 8192 Mbps it denies having data for that point, and claims to have data for
  8 Mbps.\<close>

lemma has_enough_data_units:
  assumes "map_of (recent_measurement m) u =
    Some (replicate n [\<lparr>me_cache_size = 4096, me_mem_bw_in_gbps = 8192 / 1024, me_perf = p\<rparr>])" and "2 \<le> n"
  shows "\<not> has_enough_data m u 4096 8192 \<and> has_enough_data m u 4096 8"
proof -
  let ?e = "\<lparr>me_cache_size = 4096, me_mem_bw_in_gbps = 8, me_perf = p\<rparr>"
  have c: "concat (replicate k [x]) = replicate k x" for k and x :: measurement by (induction k) auto
  have r: "round_down 4096 = 4096" "round_down 8192 = 8192" "round_down 8 = 8" by (simp_all add: round_down_def)
  show ?thesis using assms(2) by (simp add: has_enough_data_def assms(1) c r recent_data_count_def filter_replicate)
qed

end
