(* ===== verification/Deployer.thy ===== *)
theory Deployer
  imports Monitor
begin

text \<open>
  \<open>src/res_allocation/deployer.py\<close>: an allocation becomes the document that is posted to the controller.
  The HTTP request is an argument, a function from the posted document to the response's status, or the
  error that \<open>requests.post\<close> raises.
\<close>

section \<open>Allocations and documents\<close>

text \<open>What \<open>deploy\<close> is given for an application: a dictionary with the two amounts, where an amount may
  be missing or not be an integer, or something that is not a dictionary.\<close>

datatype amount = Int_Amount int | Other_Amount

datatype resources = Resources "amount option" "amount option" | Not_Dict

type_synonym resource_alloc = "(int, resources) dict"

text \<open>The posted document: its keys are strings.\<close>

type_synonym alloc_document = "(string, int \<times> int) dict"

record deployer =
  allocation_map :: "(app_key, int \<times> int) dict"

definition init_deployer :: deployer where
  "init_deployer = \<lparr>allocation_map =
     [(AStr ''1'', (420, 540)), (AStr ''2'', (730, 910)), (AStr ''3'', (100, 270)), (AStr ''4'', (500, 620)),
      (AStr ''5'', (910, 100))]\<rparr>"

text \<open>\<open>resources.get(key, 0)\<close>, if it is an integer.\<close>

definition amount_or_zero :: "amount option \<Rightarrow> int option" where
  "amount_or_zero x = (case x of None \<Rightarrow> Some 0 | Some (Int_Amount n) \<Rightarrow> Some n | Some Other_Amount \<Rightarrow> None)"

definition add_user_allocation :: "int \<times> resources \<Rightarrow> (app_key, int \<times> int) dict \<Rightarrow> (app_key, int \<times> int) dict" where
  "add_user_allocation entry m =
    (case entry of
       (user, Not_Dict) \<Rightarrow> m
     | (user, Resources c b) \<Rightarrow>
         (case (amount_or_zero c, amount_or_zero b) of
            (Some c', Some b') \<Rightarrow> dict_set (AInt user) (c', b') m
          | _ \<Rightarrow> m))"

text \<open>\<open>None\<close> stands for an argument that is not a dictionary.\<close>

definition update_allocation_map :: "resource_alloc option \<Rightarrow> deployer \<Rightarrow> deployer" where
  "update_allocation_map alloc self =
    (case alloc of
       None \<Rightarrow> self
     | Some a \<Rightarrow> if a = [] then self else self\<lparr>allocation_map := fold add_user_allocation a []\<rparr>)"

text \<open>The JSON document of the map: \<open>json.dumps\<close> writes an integer key as its decimal string.\<close>

fun json_key :: "app_key \<Rightarrow> string" where
  "json_key (AStr s) = s"
| "json_key (AInt n) = str_of_int n"

definition assemble_command :: "resource_alloc option \<Rightarrow> deployer \<Rightarrow> deployer \<times> alloc_document" where
  "assemble_command alloc self =
    (let self = update_allocation_map alloc self in
     (self, map (\<lambda>(k, v). (json_key k, v)) (allocation_map self)))"

text \<open>The result has the document, if one was posted; a status other than 200 and 202 is only logged.\<close>

definition deploy ::
  "(alloc_document \<Rightarrow> nat res) \<Rightarrow> resource_alloc option \<Rightarrow> deployer \<Rightarrow> (deployer \<times> alloc_document option) res" where
  "deploy post alloc self =
    (if alloc = None \<or> alloc = Some [] then Inr (self, None)
     else
       (case assemble_command alloc self of (self, document) \<Rightarrow>
          rbind (post document) (\<lambda>status_code. Inr (self, Some document))))"

definition dummy_deploy :: "resource_alloc option \<Rightarrow> deployer \<Rightarrow> (deployer \<times> alloc_document option) res" where
  "dummy_deploy alloc self = Inr (self, None)"

section \<open>Deployments with integer amounts\<close>

definition as_resource_alloc :: "deployment \<Rightarrow> resource_alloc" where
  "as_resource_alloc d =
     map (\<lambda>(u, a). (u, Resources (Some (Int_Amount (d_cache a))) (Some (Int_Amount (d_mem_bw a))))) d"

text \<open>A document read back into a deployment, as a reader of the posted JSON does it.\<close>

definition read_document :: "alloc_document \<Rightarrow> deployment res" where
  "read_document document =
     rfold (\<lambda>(k, c, b) d. rbind (int_of_str k) (\<lambda>u. Inr (dict_set u \<lparr>d_cache = c, d_mem_bw = b\<rparr> d))) document []"

lemma add_all_users:
  assumes "wf_dict d" and "set (keys m) \<inter> AInt ` set (keys d) = {}"
  shows "fold add_user_allocation (as_resource_alloc d) m = m @ map (\<lambda>(u, a). (AInt u, (d_cache a, d_mem_bw a))) d"
  using assms
proof (induction d arbitrary: m)
  case (Cons e d)
  obtain u a where e: "e = (u, a)" by force
  have "AInt u \<notin> set (keys m)" using Cons.prems(2) e by auto
  then have "add_user_allocation (u, Resources (Some (Int_Amount (d_cache a))) (Some (Int_Amount (d_mem_bw a)))) m =
      m @ [(AInt u, d_cache a, d_mem_bw a)]"
    by (simp add: add_user_allocation_def amount_or_zero_def dict_set_new del: set_map)
  moreover have "set (keys (m @ [(AInt u, d_cache a, d_mem_bw a)])) \<inter> AInt ` set (keys d) = {}"
    using Cons.prems e by auto
  ultimately show ?case using Cons.IH Cons.prems(1) e by (simp add: as_resource_alloc_def)
qed (simp add: as_resource_alloc_def)

lemma assemble_deployment:
  assumes "wf_dict d" and "d \<noteq> []"
  shows "assemble_command (Some (as_resource_alloc d)) self =
    (self\<lparr>allocation_map := map (\<lambda>(u, a). (AInt u, (d_cache a, d_mem_bw a))) d\<rparr>,
     map (\<lambda>(u, a). (str_of_int u, (d_cache a, d_mem_bw a))) d)"
  using add_all_users [OF assms(1), of "[]"] assms(2)
  by (auto simp: assemble_command_def update_allocation_map_def Let_def as_resource_alloc_def)

lemma read_printed:
  assumes "wf_dict d" and "set (keys acc) \<inter> set (keys d) = {}"
  shows "rfold (\<lambda>(k, c, b) d. rbind (int_of_str k) (\<lambda>u. Inr (dict_set u \<lparr>d_cache = c, d_mem_bw = b\<rparr> d)))
    (map (\<lambda>(u, a). (str_of_int u, (d_cache a, d_mem_bw a))) d) acc = Inr (acc @ d)"
  using assms
proof (induction d arbitrary: acc)
  case (Cons e d)
  obtain u a where e: "e = (u, a)" by force
  have "u \<notin> set (keys acc)" using Cons.prems(2) e by auto
  then have "dict_set u \<lparr>d_cache = d_cache a, d_mem_bw = d_mem_bw a\<rparr> acc = acc @ [(u, a)]" by (simp add: dict_set_new del: set_map)
  moreover have "set (keys (acc @ [(u, a)])) \<inter> set (keys d) = {}" using Cons.prems e by auto
  ultimately show ?case using Cons.IH [of "acc @ [(u, a)]"] Cons.prems(1) e by (simp add: int_of_str_of_int)
qed simp

lemma deploy_posts:
  assumes "wf_dict d" and "d \<noteq> []" and "\<And>doc. returns (post doc)"
  shows "\<exists>self' doc. deploy post (Some (as_resource_alloc d)) self = Inr (self', Some doc) \<and> read_document doc = Inr d"
proof -
  let ?doc = "map (\<lambda>(u, a). (str_of_int u, (d_cache a, d_mem_bw a))) d"
  have "as_resource_alloc d \<noteq> []" using assms(2) by (simp add: as_resource_alloc_def)
  moreover obtain status where "post ?doc = Inr status" using assms(3) by (auto simp: returns_def)
  ultimately show ?thesis
    using assemble_deployment [OF assms(1,2)] read_printed [OF assms(1), of "[]"]
    by (simp add: deploy_def read_document_def)
qed

lemma deploy_posts_cases:
  assumes "deploy post (Some (as_resource_alloc d)) self = Inr (self', doc)" and "wf_dict d" and "d \<noteq> []"
  shows "\<exists>document. doc = Some document \<and> read_document document = Inr d"
proof -
  have "as_resource_alloc d \<noteq> []" using assms(3) by (simp add: as_resource_alloc_def)
  then show ?thesis
    using assms assemble_deployment [OF assms(2,3)] read_printed [OF assms(2), of "[]"]
    by (auto simp: deploy_def read_document_def rbind_eq_Inr)
qed

text \<open>C32. What is posted is the allocation: deploying an allocation with integer amounts that is not empty
  posts one document, and reading the document back (with its keys as decimal strings) gives exactly the
  allocation, for every user and with nothing left over from the map of an earlier round.\<close>

theorem deploy_round_trip:
  assumes "wf_dict d" and "d \<noteq> []" and "\<forall>doc. \<exists>status. post doc = Inr status"
  shows "\<exists>self' doc. deploy post (Some (as_resource_alloc d)) self = Inr (self', Some doc) \<and> read_document doc = Inr d"
  using deploy_posts [OF assms(1,2)] assms(3) by (auto simp: returns_def)

theorem deploy_round_trip_witness:
  "\<exists>self' doc. deploy (\<lambda>_. Inr 200) (Some (as_resource_alloc [(12, \<lparr>d_cache = 4096, d_mem_bw = 1024\<rparr>)])) init_deployer
     = Inr (self', Some doc) \<and> read_document doc = Inr [(12, \<lparr>d_cache = 4096, d_mem_bw = 1024\<rparr>)]"
  by (rule deploy_round_trip) simp_all

end
