(* ===== verification/Reset_Server.thy ===== *)
theory Reset_Server
  imports Monitor_Props
begin

text \<open>
  \<open>src/res_allocation/metrics_reset_server.py\<close>: the HTTP handler through which a client resets the metrics of
  an application.  A request is given as the library hands it to the handler: the path, the query parameters
  of \<open>parse_qs\<close>, the content length header and the decoded body.  An exception that leaves the handler is an
  error: the connection is closed without a response.
\<close>

section \<open>Requests\<close>

text \<open>JSON values, as far as \<open>bool\<close> and \<open>int\<close> tell them apart; a list or an object is empty or not.\<close>

datatype json_value = JNull | JBool bool | JInt int | JFloat rat | JStr string | JContainer bool

text \<open>The body: not JSON, a JSON object with its \<open>app_id\<close>, or another JSON value (which has no \<open>get\<close>).\<close>

datatype request_body = Not_Json | Json_Object "json_value option" | Json_Other

record request =
  rq_path :: string
  rq_query :: "(string, string list) dict"
  rq_content_length :: "string option"
  rq_body :: request_body

record response =
  rsp_code :: nat
  rsp_status :: string
  rsp_message :: string
  rsp_usage :: "string option"

text \<open>The truth value of a value and \<open>int\<close> of it.\<close>

fun json_truthy :: "json_value \<Rightarrow> bool" where
  "json_truthy JNull = False"
| "json_truthy (JBool b) = b"
| "json_truthy (JInt n) = (n \<noteq> 0)"
| "json_truthy (JFloat x) = (x \<noteq> 0)"
| "json_truthy (JStr s) = (s \<noteq> [])"
| "json_truthy (JContainer nonempty) = nonempty"

fun int_of_json :: "json_value \<Rightarrow> int res" where
  "int_of_json JNull = Inl TypeError"
| "int_of_json (JBool b) = Inr (if b then 1 else 0)"
| "int_of_json (JInt n) = Inr n"
| "int_of_json (JFloat x) = Inr (py_int x)"
| "int_of_json (JStr s) = int_of_str s"
| "int_of_json (JContainer _) = Inl TypeError"

section \<open>The handler\<close>

definition do_GET :: response where
  "do_GET = \<lparr>rsp_code = 200, rsp_status = ''ok'', rsp_message = ''Metrics reset API is running'',
     rsp_usage = Some ''Send a POST request to /reset_metrics with app_id parameter''\<rparr>"

definition error_response :: "nat \<Rightarrow> string \<Rightarrow> response" where
  "error_response code msg = \<lparr>rsp_code = code, rsp_status = ''error'', rsp_message = msg, rsp_usage = None\<rparr>"

text \<open>The \<open>app_id\<close> of a request: from the JSON body, or from the query when the body is not JSON.\<close>

definition request_app_id :: "request \<Rightarrow> json_value res" where
  "request_app_id rq =
    (case rq_body rq of
       Json_Object (Some v) \<Rightarrow> Inr v
     | Json_Object None \<Rightarrow> Inr JNull
     | Json_Other \<Rightarrow> Inl AttributeError
     | Not_Json \<Rightarrow>
         (case map_of (rq_query rq) ''app_id'' of
            None \<Rightarrow> Inr JNull
          | Some [] \<Rightarrow> Inl IndexError
          | Some (s # _) \<Rightarrow> Inr (JStr s)))"

definition reset_application :: "int \<Rightarrow> monitor option \<Rightarrow> response \<times> monitor option" where
  "reset_application app_id mon =
    (case mon of
       None \<Rightarrow> (error_response 500 ''Monitor not available or reset_metrics_for_app method not implemented'', None)
     | Some m \<Rightarrow>
         (case reset_metrics_for_app app_id m of (success, m') \<Rightarrow>
            if success
            then (\<lparr>rsp_code = 200, rsp_status = ''success'',
                   rsp_message = ''Metrics reset for application '' @ str_of_int app_id, rsp_usage = None\<rparr>, Some m')
            else (error_response 404 (''Application '' @ str_of_int app_id @ '' not found''), Some m')))"

definition do_POST :: "request \<Rightarrow> monitor option \<Rightarrow> (response \<times> monitor option) res" where
  "do_POST rq mon =
    (if rq_path rq \<noteq> ''/reset_metrics'' then Inr (error_response 404 ''Endpoint not found'', mon)
     else
       rbind (case rq_content_length rq of None \<Rightarrow> Inr 0 | Some s \<Rightarrow> int_of_str s) (\<lambda>content_length.
       rbind (request_app_id rq) (\<lambda>app_id.
       if \<not> json_truthy app_id
       then Inr (error_response 400 ''Missing required parameter: app_id'', mon)
       else
         (case int_of_json app_id of
            Inl ValueError \<Rightarrow> Inr (error_response 400 ''app_id must be an integer'', mon)
          | Inl e \<Rightarrow> Inl e
          | Inr n \<Rightarrow> Inr (reset_application n mon)))))"

text \<open>The server's effect on the monitor: a handler that raises leaves it as it is.\<close>

definition serve :: "request \<Rightarrow> monitor \<Rightarrow> monitor" where
  "serve rq m = (case do_POST rq (Some m) of Inr (_, Some m') \<Rightarrow> m' | _ \<Rightarrow> m)"

section \<open>Lemmas\<close>

lemma reset_unknown: "\<not> fst (reset_metrics_for_app a m) \<Longrightarrow> snd (reset_metrics_for_app a m) = m"
  by (auto simp: reset_metrics_for_app_def Let_def split: if_splits)

lemma reset_application_cases:
  "reset_application a (Some m) =
    (if fst (reset_metrics_for_app a m)
     then (\<lparr>rsp_code = 200, rsp_status = ''success'', rsp_message = ''Metrics reset for application '' @ str_of_int a,
           rsp_usage = None\<rparr>,
           Some (snd (reset_metrics_for_app a m)))
     else (error_response 404 (''Application '' @ str_of_int a @ '' not found''), Some m))"
  using reset_unknown [of a m] by (cases "reset_metrics_for_app a m") (auto simp: reset_application_def)

lemma do_POST_cases:
  assumes "do_POST rq (Some m) = Inr (rsp, mon)"
  obtains (refused) "rsp_code rsp \<in> {400, 404}" "mon = Some m"
  | (reset) v a where "request_app_id rq = Inr v" "int_of_json v = Inr a" "rsp_code rsp = 200"
      "fst (reset_metrics_for_app a m)" "mon = Some (snd (reset_metrics_for_app a m))"
  using assms
  by (auto simp: do_POST_def rbind_eq_Inr reset_application_cases error_response_def
      split: if_splits sum.splits py_error.splits)

lemma serve_cases: "serve rq m = m \<or> (\<exists>a. serve rq m = snd (reset_metrics_for_app a m))"
proof (cases "do_POST rq (Some m)")
  case (Inr p)
  obtain rsp mon where p: "p = (rsp, mon)" by force
  have run: "do_POST rq (Some m) = Inr (rsp, mon)" using Inr p by simp
  then show ?thesis by (cases rule: do_POST_cases) (auto simp: serve_def run)
qed (simp add: serve_def)

lemma reachable_serve: "reachable interval m \<Longrightarrow> reachable interval (serve rq m)"
  using serve_cases [of rq m] reachable.resets [of interval m] by metis

lemma serve_keeps: "vm_to_app_map (serve rq m) = vm_to_app_map m"
  "mon_last_allocation (serve rq m) = mon_last_allocation m"
  "collection_iteration_count (serve rq m) = collection_iteration_count m"
  using serve_cases [of rq m] by (auto simp: reset_eq)

section \<open>Properties\<close>

text \<open>C33. A reset request does what its response says: the response is 200 only if the request names an
  integer that the monitor knows as an application, and then the monitor is the one after resetting that
  application and has no records of it; a 400 or 404 leaves the monitor as it was; there is no other response while there is a
  monitor.\<close>

theorem do_POST_effect:
  assumes "do_POST rq (Some m) = Inr (rsp, mon)"
  shows "rsp_code rsp = 200 \<and>
      (\<exists>v a. request_app_id rq = Inr v \<and> int_of_json v = Inr a \<and> fst (reset_metrics_for_app a m) \<and>
         mon = Some (snd (reset_metrics_for_app a m)) \<and> records_of (the mon) a = 0) \<or>
    rsp_code rsp \<in> {400, 404} \<and> mon = Some m"
  using assms
proof (cases rule: do_POST_cases)
  case (reset v a)
  have "records_of (snd (reset_metrics_for_app a m)) a = 0"
    by (simp add: records_of_def reset_eq map_of_reset_same new_app_data_def)
  then show ?thesis using reset by auto
qed simp

definition sample_request :: "request_body \<Rightarrow> request" where
  "sample_request body = \<lparr>rq_path = ''/reset_metrics'', rq_query = [], rq_content_length = Some ''13'', rq_body = body\<rparr>"

theorem do_POST_effect_witness:
  "case do_POST (sample_request (Json_Object (Some (JStr ''1'')))) (Some sample_after) of
     Inl e \<Rightarrow> False
   | Inr (rsp, mon) \<Rightarrow> rsp_code rsp = 200 \<and> (\<exists>a. mon = Some (snd (reset_metrics_for_app a sample_after)))"
proof -
  have run: "case do_POST (sample_request (Json_Object (Some (JStr ''1'')))) (Some sample_after) of
      Inl e \<Rightarrow> False | Inr (rsp, mon) \<Rightarrow> rsp_code rsp = 200" by code_simp
  obtain rsp mon where p: "do_POST (sample_request (Json_Object (Some (JStr ''1'')))) (Some sample_after) = Inr (rsp, mon)"
    using run by (auto split: sum.splits)
  then show ?thesis using run do_POST_effect [OF p] by auto
qed

text \<open>Application 0 cannot be reset with a JSON integer: the request is answered with 400 as if it had no
  \<open>app_id\<close>, whatever the monitor knows, while the same id as a string reaches the monitor.\<close>

lemma app_zero_refused:
  "do_POST (sample_request (Json_Object (Some (JInt 0)))) mon =
     Inr (error_response 400 ''Missing required parameter: app_id'', mon) \<and>
   do_POST (sample_request (Json_Object (Some (JStr ''0'')))) mon = Inr (reset_application 0 mon)"
proof -
  have ints: "int_of_str ''13'' = Inr 13" "int_of_str ''0'' = Inr 0" by code_simp+
  show ?thesis by (simp add: do_POST_def sample_request_def request_app_id_def ints)
qed

end
