(* ===== verification/Control_Loop.thy ===== *)
theory Control_Loop
  imports Static_Alloc Monitor_Data Deployer Reset_Server
begin

text \<open>
  \<open>src/res_allocation/allocators/allocator_base.py\<close>: the control loop \<open>start\<close>, which composes an allocator
  with the monitor, the deployer and the requests of the metrics reset server.  The allocator is the argument
  \<open>alloc\<close>, a function of what a round can read (a \<open>view\<close> of the controller) and of the allocator's own
  state.

  The world is an argument too: for each iteration the answers of the controller to the posted allocation and
  to each collection, the clock, and the reset requests that arrive.  A request is served between two
  operations on the monitor.  No parameter class asks for retraining, so the call of \<open>update_profile\<close> is
  left out, as are sleeping and printing.
\<close>

section \<open>The loop\<close>

record view =
  v_estimator :: estimator
  v_monitor :: monitor
  v_last_allocation :: "deployment option"
  v_now :: "int \<Rightarrow> rat"
  v_skip_monitoring :: bool

text \<open>The controller.  \<open>c_trace\<close> is the history of the rounds: what the round read, what it returned and
  the document that was posted.\<close>

record 's controller =
  c_estimator :: estimator
  c_self :: 's
  c_monitor :: monitor
  c_deployer :: deployer
  e2e_last_allocation :: "deployment option"
  c_trace :: "(view \<times> deployment \<times> alloc_document option) list"

record iter_env =
  ie_post :: "alloc_document \<Rightarrow> nat res"
  ie_response :: "nat \<Rightarrow> nat \<times> response_body"
  ie_requests :: "nat \<Rightarrow> request list"
  ie_now :: "int \<Rightarrow> rat"

text \<open>The parameters of the loop: \<open>measurements_per_alloc\<close> is \<open>int(allocation_interval_in_sec * 0.25)\<close> in
  every parameter class.\<close>

record loop_params =
  lp_interval :: rat
  lp_measurements_per_alloc :: int

definition loop_params_of :: "rat \<Rightarrow> loop_params" where
  "loop_params_of interval = \<lparr>lp_interval = interval, lp_measurements_per_alloc = py_int (interval * (25 / 100))\<rparr>"

definition view_of :: "bool \<Rightarrow> iter_env \<Rightarrow> 's controller \<Rightarrow> view" where
  "view_of skip ie c =
     \<lparr>v_estimator = c_estimator c, v_monitor = c_monitor c, v_last_allocation = e2e_last_allocation c,
      v_now = ie_now ie, v_skip_monitoring = skip\<rparr>"

text \<open>Allocate, deploy, and tell the monitor.\<close>

definition deploy_round ::
  "(view \<Rightarrow> 's \<Rightarrow> ('s \<times> deployment) res) \<Rightarrow> bool \<Rightarrow> iter_env \<Rightarrow> 's controller \<Rightarrow> 's controller res" where
  "deploy_round alloc skip ie c =
    (let v = view_of skip ie c in
     rbind (alloc v (c_self c)) (\<lambda>(self, allocation).
     rbind (deploy (ie_post ie) (Some (as_resource_alloc allocation)) (c_deployer c)) (\<lambda>(dep, document).
     Inr (c\<lparr>c_self := self, c_deployer := dep, e2e_last_allocation := Some allocation,
             c_monitor := set_last_allocation allocation (c_monitor c),
             c_trace := c_trace c @ [(v, allocation, document)]\<rparr>))))"

definition serve_all :: "request list \<Rightarrow> monitor \<Rightarrow> monitor" where
  "serve_all rqs m = fold serve rqs m"

definition measure_round :: "rat \<Rightarrow> nat \<Rightarrow> iter_env \<Rightarrow> monitor \<Rightarrow> monitor res" where
  "measure_round verification_th n ie m =
     rfold (\<lambda>k m. collect verification_th (fst (ie_response ie k)) (snd (ie_response ie k)) (serve_all (ie_requests ie k) m))
       [0..<n] m"

definition loop_iteration ::
  "(view \<Rightarrow> 's \<Rightarrow> ('s \<times> deployment) res) \<Rightarrow> nat \<Rightarrow> bool \<Rightarrow> rat \<Rightarrow> iter_env \<Rightarrow> 's controller \<Rightarrow> 's controller res" where
  "loop_iteration alloc n skip verification_th ie c =
     rbind (deploy_round alloc skip ie c) (\<lambda>c.
     rbind (measure_round verification_th n ie (c_monitor c)) (\<lambda>m.
     let m = serve_all (ie_requests ie n) m in
     rbind (if skip then Inr m else comsume_collected_data m) (\<lambda>m.
     Inr (c\<lparr>c_monitor := serve_all (ie_requests ie (n + 1)) m\<rparr>))))"

text \<open>\<open>None\<close> stands for an allocator that was not initialised.\<close>

definition start ::
  "(view \<Rightarrow> 's \<Rightarrow> ('s \<times> deployment) res) \<Rightarrow> loop_params option \<Rightarrow> rat \<Rightarrow> bool \<Rightarrow> rat \<Rightarrow> (nat \<Rightarrow> iter_env) \<Rightarrow>
   's controller \<Rightarrow> 's controller res" where
  "start alloc parameters max_iteration skip verification_th world c =
    (case parameters of
       None \<Rightarrow> Inl ValueError
     | Some par \<Rightarrow>
         rbind (deploy_round alloc skip (world 0) c) (\<lambda>c.
         rbind (fdiv (lp_interval par) (of_int (lp_measurements_per_alloc par))) (\<lambda>sleep_interval.
         rfold (\<lambda>iteration. loop_iteration alloc (nat (lp_measurements_per_alloc par)) skip verification_th
                  (world (Suc iteration)))
           [0..<nat (py_int max_iteration)]
           (c\<lparr>c_monitor := serve_all (ie_requests (world 0) 0) (c_monitor c)\<rparr>))))"

section \<open>What the operations on the monitor keep\<close>

lemma consume_user_frame:
  assumes "consume_user e m = Inr m'"
  shows "\<exists>cd. m' = m\<lparr>collected_data := cd\<rparr>"
proof -
  obtain u by_cache where e: "e = (u, by_cache)" by force
  have point: "\<exists>cd. m2 = m\<lparr>collected_data := cd\<rparr>"
    if "consume_datapoint u c x m1 = Inr m2" "\<exists>cd. m1 = m\<lparr>collected_data := cd\<rparr>" for c x m1 m2
    using that by (auto simp: consume_datapoint_def Let_def rbind_eq_Inr split: prod.splits)
  have row: "\<exists>cd. m2 = m\<lparr>collected_data := cd\<rparr>"
    if "rfold (consume_datapoint u c) row m1 = Inr m2" "\<exists>cd. m1 = m\<lparr>collected_data := cd\<rparr>" for c row m1 m2
    using that by (rule rfold_invariant) (rule point)
  obtain m1 where m1: "rfold (\<lambda>(c, row). rfold (consume_datapoint u c) row) by_cache m = Inr m1"
    "m' = (case map_of (collected_data m1) u of None \<Rightarrow> m1 | Some d \<Rightarrow> m1\<lparr>collected_data := dict_set u
       (d\<lparr>last_update_iteration := collection_iteration_count m1\<rparr>) (collected_data m1)\<rparr>)"
    using assms by (auto simp: consume_user_def e rbind_eq_Inr)
  have "\<exists>cd. m = m\<lparr>collected_data := cd\<rparr>" by (rule exI [of _ "collected_data m"]) simp
  with m1(1) have "\<exists>cd. m1 = m\<lparr>collected_data := cd\<rparr>"
    by (rule rfold_invariant) (auto intro: row split: prod.splits)
  then show ?thesis using m1(2) by (auto split: option.splits)
qed

definition same_frame :: "monitor \<Rightarrow> monitor \<Rightarrow> bool" where
  "same_frame m m' \<longleftrightarrow> vm_to_app_map m' = vm_to_app_map m \<and> mon_last_allocation m' = mon_last_allocation m"

lemma consume_frame:
  assumes "comsume_collected_data m = Inr m'"
  shows "same_frame m m'"
proof -
  let ?m1 = "update_recent_measurement (m\<lparr>collection_iteration_count := collection_iteration_count m + 1\<rparr>)"
  obtain m2 where m2: "rfold consume_user (buffered_data ?m1) ?m1 = Inr m2" "m' = m2\<lparr>buffered_data := [], num_buffered_data := 0\<rparr>"
    using assms by (auto simp: comsume_collected_data_def Let_def rbind_eq_Inr)
  from m2(1) have "same_frame ?m1 m2"
  proof (rule rfold_invariant)
    fix e m3 m4 assume "same_frame ?m1 m3" "consume_user e m3 = Inr m4"
    then show "same_frame ?m1 m4" using consume_user_frame [of e m3 m4] by (auto simp: same_frame_def)
  qed (simp add: same_frame_def)
  then show ?thesis using m2(2) by (simp add: same_frame_def update_recent_measurement_def)
qed

lemma buffer_frame:
  assumes "buffer_collected_data th data m = Inr m'"
  shows "same_frame m m' \<and> collection_iteration_count m' = collection_iteration_count m"
proof -
  let ?P = "\<lambda>m'. same_frame m m' \<and> collection_iteration_count m' = collection_iteration_count m"
  let ?m = "m\<lparr>num_buffered_data := num_buffered_data m + 1\<rparr>"
  have "?P m'" if "rfold (buffer_entry th) data ?m = Inr m'"
    using that
  proof (rule rfold_invariant)
    fix e m1 m2 assume "?P m1" "buffer_entry th e m1 = Inr m2"
    from this(2,1) show "?P m2"
    proof (cases rule: buffer_entry_cases)
      case (2 u c b cr br p)
      then show ?thesis using \<open>?P m1\<close> store_measurement_eq [of u c b cr br p "le_mrc e" m1] by (auto simp: same_frame_def)
    qed simp
  qed (simp add: same_frame_def)
  then show ?thesis
    using assms by (auto simp: buffer_collected_data_def Let_def rbind_eq_Inr same_frame_def split: if_splits)
qed

lemma serve_all_keeps:
  "vm_to_app_map (serve_all rqs m) = vm_to_app_map m"
  "mon_last_allocation (serve_all rqs m) = mon_last_allocation m"
  "collection_iteration_count (serve_all rqs m) = collection_iteration_count m"
  unfolding serve_all_def by (induction rqs arbitrary: m) (simp_all add: serve_keeps)

lemma reachable_serve_all: "reachable interval m \<Longrightarrow> reachable interval (serve_all rqs m)"
  unfolding serve_all_def by (induction rqs arbitrary: m) (simp_all add: reachable_serve)

section \<open>Collecting from a controller with well-formed logs\<close>

text \<open>A log with distinct VM ids, no application in two places and complete entries.\<close>

definition log_ok :: "(int \<times> (int \<times> raw_entry) list) list \<Rightarrow> bool" where
  "log_ok vms \<longleftrightarrow> distinct (map fst vms) \<and> distinct (concat (map (\<lambda>(vm, apps). map fst apps) vms)) \<and>
     (\<forall>(vm, apps) \<in> set vms. \<forall>(a, e) \<in> set apps. complete_entry e)"

definition good_body :: "response_body \<Rightarrow> bool" where
  "good_body body \<longleftrightarrow> (case body of Empty_Body \<Rightarrow> True | Json doc \<Rightarrow> \<exists>vms. log_ok vms \<and> doc = print_log vms)"

definition keyed :: "log_entry \<Rightarrow> bool" where
  "keyed e \<longleftrightarrow> (\<exists>key a. le_app_id e = Some key \<and> int_of_key key = Inr a)"

lemma buffer_returns:
  assumes "\<forall>e \<in> set data. keyed e"
  shows "returns (buffer_collected_data th data m)"
proof -
  have "returns (skip_entry e u)" if "keyed e" for e u
    using that by (auto simp: keyed_def skip_entry_def returns_def split: option.splits)
  moreover have "returns (buffer_entry th e m)" if "keyed e" for e m
    using that by (auto simp: keyed_def buffer_entry_def returns_def Let_def split: option.splits)
  ultimately have "returns (rfold skip_entry data ())" "returns (rfold (buffer_entry th) data m')" for m'
    using assms by (auto intro!: returns_rfold)
  then show ?thesis by (auto simp: buffer_collected_data_def Let_def returns_def)
qed

lemma parse_good:
  assumes "log_ok vms"
  shows "\<exists>les. parse_log_entries (print_log vms) m =
      Inr (m\<lparr>vm_to_app_map := map (\<lambda>(vm, apps). (vm, map fst apps)) vms\<rparr>, les) \<and> (\<forall>e \<in> set les. keyed e)"
proof -
  obtain les where les: "rfold (\<lambda>(vm_id, apps). rfold (parse_entry (mon_last_allocation m) vm_id) apps)
      (map (\<lambda>(vm, apps). (str_of_int vm, map (\<lambda>(a, e). (str_of_int a, e)) apps)) vms) [] = Inr les"
    "list_all2 (logged (mon_last_allocation m)) (flatten vms) les"
    using parse_vms_print [of vms "mon_last_allocation m" "[]"] assms by (auto simp: log_ok_def)
  have "keyed e" if "e \<in> set les" for e
    using les(2) that unfolding list_all2_conv_all_nth in_set_conv_nth by (force simp: logged_def keyed_def)
  then show ?thesis
    using les(1) parse_vm_map_print [of vms] assms by (auto simp: parse_log_entries_def print_log_def field_def log_ok_def)
qed

lemma wf_vm_map_log:
  assumes "log_ok vms"
  shows "wf_vm_map (map (\<lambda>(vm, apps). (vm, map fst apps)) vms)"
proof -
  have "fst \<circ> (\<lambda>(vm, apps). (vm, map fst apps)) = (fst :: int \<times> (int \<times> raw_entry) list \<Rightarrow> int)" by auto
  moreover have "mapped_apps (map (\<lambda>(vm, apps). (vm, map fst apps)) vms) = concat (map (\<lambda>(vm, apps). map fst apps) vms)"
    by (simp add: mapped_apps_def split_def comp_def)
  ultimately show ?thesis using assms by (simp add: wf_vm_map_def log_ok_def)
qed

lemma collect_good:
  assumes "good_body body"
  shows "\<exists>m'. collect th status body m = Inr m' \<and> mon_last_allocation m' = mon_last_allocation m \<and>
    collection_iteration_count m' = collection_iteration_count m \<and>
    (wf_vm_map (vm_to_app_map m) \<longrightarrow> wf_vm_map (vm_to_app_map m'))"
proof (cases "(status = 200 \<or> status = 202) \<and> body \<noteq> Empty_Body")
  case True
  then obtain vms where vms: "body = Json (print_log vms)" "log_ok vms"
    using assms by (cases body) (auto simp: good_body_def)
  obtain les where les: "parse_log_entries (print_log vms) m =
      Inr (m\<lparr>vm_to_app_map := map (\<lambda>(vm, apps). (vm, map fst apps)) vms\<rparr>, les)" "\<forall>e \<in> set les. keyed e"
    using parse_good [OF vms(2), of m] by blast
  let ?m = "m\<lparr>vm_to_app_map := map (\<lambda>(vm, apps). (vm, map fst apps)) vms\<rparr>"
  obtain m' where m': "buffer_collected_data th les ?m = Inr m'" using buffer_returns [OF les(2)] by (auto simp: returns_def)
  have "collect th status body m = Inr m'" using True vms(1) les(1) m' by (auto simp: collect_def)
  then show ?thesis using buffer_frame [OF m'] wf_vm_map_log [OF vms(2)] by (simp add: same_frame_def)
next
  case False
  then show ?thesis by (cases body) (auto simp: collect_def)
qed

section \<open>The states of the controller\<close>

text \<open>The states in which the controller can be, with rounds, collections, consumptions and requests in any
  order.  The loop is one such order.\<close>

inductive ctl_state ::
  "(view \<Rightarrow> 's \<Rightarrow> ('s \<times> deployment) res) \<Rightarrow> bool \<Rightarrow> 's controller \<Rightarrow> 's controller \<Rightarrow> bool" for alloc skip c0 where
  init: "ctl_state alloc skip c0 c0"
| round: "ctl_state alloc skip c0 c \<Longrightarrow> deploy_round alloc skip ie c = Inr c' \<Longrightarrow> ctl_state alloc skip c0 c'"
| collects: "ctl_state alloc skip c0 c \<Longrightarrow> good_body body \<Longrightarrow> collect th status body (c_monitor c) = Inr m \<Longrightarrow>
    ctl_state alloc skip c0 (c\<lparr>c_monitor := m\<rparr>)"
| consumes: "ctl_state alloc skip c0 c \<Longrightarrow> comsume_collected_data (c_monitor c) = Inr m \<Longrightarrow>
    ctl_state alloc skip c0 (c\<lparr>c_monitor := m\<rparr>)"
| serves: "ctl_state alloc skip c0 c \<Longrightarrow> ctl_state alloc skip c0 (c\<lparr>c_monitor := serve rq (c_monitor c)\<rparr>)"

definition init_controller :: "estimator \<Rightarrow> int option \<Rightarrow> 's \<Rightarrow> 's controller" where
  "init_controller est interval self =
     \<lparr>c_estimator = est, c_self = self, c_monitor = init_monitor interval, c_deployer = init_deployer,
      e2e_last_allocation = None, c_trace = []\<rparr>"

text \<open>The invariant of the controller: the monitor and the estimator look at the same last allocation, and
  every document that was posted is what its round returned.\<close>

definition ctl_inv ::
  "('s \<Rightarrow> bool) \<Rightarrow> (view \<Rightarrow> deployment \<Rightarrow> bool) \<Rightarrow> estimator \<Rightarrow> int option \<Rightarrow> 's controller \<Rightarrow> bool" where
  "ctl_inv own promise est interval c \<longleftrightarrow> c_estimator c = est \<and> reachable interval (c_monitor c) \<and> wf_vm_map (vm_to_app_map (c_monitor c)) \<and>
     own (c_self c) \<and> (\<forall>d. e2e_last_allocation c = Some d \<longrightarrow> mon_last_allocation (c_monitor c) = d) \<and>
     (\<forall>(v, d, doc) \<in> set (c_trace c). promise v d \<and>
        (d \<noteq> [] \<longrightarrow> (\<exists>document. doc = Some document \<and> read_document document = Inr d)))"

text \<open>The contract between the loop and an allocator: it is an allocator whose inputs are good whenever the
  monitor is in one of its states and the mapping is well formed, and it returns dictionaries.\<close>

locale controlled = vm_allocator alloc good inv promise
  for alloc :: "view \<Rightarrow> 's \<Rightarrow> ('s \<times> deployment) res" and good inv promise +
  fixes est :: estimator and interval :: "int option"
  assumes good_view: "v_estimator v = est \<Longrightarrow> reachable interval (v_monitor v) \<Longrightarrow>
      wf_vm_map (vm_to_app_map (v_monitor v)) \<Longrightarrow> good v"
    and wf_result: "good v \<Longrightarrow> alloc v s = Inr (s', d) \<Longrightarrow> wf_dict d"
begin

lemma ctl_inv_monitor:
  assumes "ctl_inv inv promise est interval c" and "reachable interval m" and "wf_vm_map (vm_to_app_map m)"
    and "mon_last_allocation m = mon_last_allocation (c_monitor c)"
  shows "ctl_inv inv promise est interval (c\<lparr>c_monitor := m\<rparr>)"
  using assms by (simp add: ctl_inv_def)

lemma deploy_round_inv:
  assumes "deploy_round alloc skip ie c = Inr c'" and "ctl_inv inv promise est interval c"
  shows "ctl_inv inv promise est interval c'"
proof -
  let ?v = "view_of skip ie c"
  obtain s d dep doc where run: "alloc ?v (c_self c) = Inr (s, d)"
    "deploy (ie_post ie) (Some (as_resource_alloc d)) (c_deployer c) = Inr (dep, doc)"
    "c' = c\<lparr>c_self := s, c_deployer := dep, e2e_last_allocation := Some d,
       c_monitor := set_last_allocation d (c_monitor c), c_trace := c_trace c @ [(?v, d, doc)]\<rparr>"
    using assms(1) by (auto simp: deploy_round_def Let_def rbind_eq_Inr)
  have good: "good ?v" by (rule good_view) (use assms(2) in \<open>simp_all add: ctl_inv_def view_of_def\<close>)
  have "inv s" "promise ?v d" "wf_dict d"
    using assms(2) step_inv [OF good _ run(1)] step_promise [OF good _ run(1)] wf_result [OF good run(1)]
    by (simp_all add: ctl_inv_def)
  moreover have "d \<noteq> [] \<longrightarrow> (\<exists>document. doc = Some document \<and> read_document document = Inr d)"
    using deploy_posts_cases [OF run(2) \<open>wf_dict d\<close>] by blast
  moreover have "reachable interval (set_last_allocation d (c_monitor c))"
    using assms(2) by (simp add: ctl_inv_def reachable.deploys)
  ultimately show ?thesis using assms(2) run(3) by (auto simp: ctl_inv_def set_last_allocation_def)
qed

lemma ctl_state_inv:
  assumes "ctl_state alloc skip c0 c" and "ctl_inv inv promise est interval c0"
  shows "ctl_inv inv promise est interval c"
  using assms(1)
proof (induction rule: ctl_state.induct)
  case init
  show ?case by (rule assms(2))
next
  case (round c ie c')
  show ?case by (rule deploy_round_inv [OF round(2,3)])
next
  case (collects c body th status m)
  have "reachable interval (c_monitor c)" "wf_vm_map (vm_to_app_map (c_monitor c))" using collects(4) by (simp_all add: ctl_inv_def)
  then show ?case
    using collect_good [OF collects(2), of th status "c_monitor c"] reachable.collects [OF _ collects(3)] collects(3)
    by (intro ctl_inv_monitor [OF collects(4)]) simp_all
next
  case (consumes c m)
  have "reachable interval (c_monitor c)" "wf_vm_map (vm_to_app_map (c_monitor c))" using consumes(3) by (simp_all add: ctl_inv_def)
  then show ?case
    using consume_frame [OF consumes(2)] reachable.consumes [OF _ consumes(2)]
    by (intro ctl_inv_monitor [OF consumes(3)]) (simp_all add: same_frame_def)
next
  case (serves c rq)
  have "reachable interval (c_monitor c)" "wf_vm_map (vm_to_app_map (c_monitor c))" using serves(2) by (simp_all add: ctl_inv_def)
  then show ?case by (intro ctl_inv_monitor [OF serves(2)]) (simp_all add: serve_keeps reachable_serve)
qed

lemma init_inv: "inv s \<Longrightarrow> ctl_inv inv promise est interval (init_controller est interval s)"
  by (simp add: ctl_inv_def init_controller_def reachable.init) (simp add: init_monitor_def wf_vm_map_def mapped_apps_def)

end

section \<open>The loop stays within these states\<close>

lemma serve_all_state:
  "ctl_state alloc skip c0 c \<Longrightarrow> ctl_state alloc skip c0 (c\<lparr>c_monitor := serve_all rqs (c_monitor c)\<rparr>)"
proof (induction rqs arbitrary: c)
  case (Cons rq rqs)
  from Cons.IH [OF ctl_state.serves [OF Cons.prems, of rq]] show ?case by (simp add: serve_all_def)
qed (simp add: serve_all_def)

text \<open>A controller that answers: a post returns, and the logs are well formed.\<close>

definition world_ok :: "nat \<Rightarrow> iter_env \<Rightarrow> bool" where
  "world_ok n ie \<longleftrightarrow> (\<forall>doc. returns (ie_post ie doc)) \<and> (\<forall>k < n. good_body (snd (ie_response ie k)))"

lemma measure_state:
  assumes "ctl_state alloc skip c0 c" and "world_ok n ie"
  shows "\<exists>m. measure_round th n ie (c_monitor c) = Inr m \<and> ctl_state alloc skip c0 (c\<lparr>c_monitor := m\<rparr>) \<and>
    collection_iteration_count m = collection_iteration_count (c_monitor c)"
  unfolding measure_round_def
proof (rule rfold_total)
  show "ctl_state alloc skip c0 (c\<lparr>c_monitor := c_monitor c\<rparr>) \<and>
    collection_iteration_count (c_monitor c) = collection_iteration_count (c_monitor c)" using assms(1) by simp
next
  fix k m
  assume k: "k \<in> set [0..<n]" and m: "ctl_state alloc skip c0 (c\<lparr>c_monitor := m\<rparr>) \<and>
    collection_iteration_count m = collection_iteration_count (c_monitor c)"
  let ?m = "serve_all (ie_requests ie k) m"
  have good: "good_body (snd (ie_response ie k))" using assms(2) k by (simp add: world_ok_def)
  obtain m' where m': "collect th (fst (ie_response ie k)) (snd (ie_response ie k)) ?m = Inr m'"
    "collection_iteration_count m' = collection_iteration_count ?m"
    using collect_good [OF good, of th "fst (ie_response ie k)" ?m] by blast
  have "ctl_state alloc skip c0 (c\<lparr>c_monitor := ?m\<rparr>)"
    using serve_all_state [of alloc skip c0 "c\<lparr>c_monitor := m\<rparr>"] m by simp
  from ctl_state.collects [OF this good, of th "fst (ie_response ie k)" m'] m'
  show "\<exists>m'. collect th (fst (ie_response ie k)) (snd (ie_response ie k)) ?m = Inr m' \<and>
    ctl_state alloc skip c0 (c\<lparr>c_monitor := m'\<rparr>) \<and> collection_iteration_count m' = collection_iteration_count (c_monitor c)"
    using m by (simp add: serve_all_keeps)
qed

lemma loop_iteration_state:
  assumes "loop_iteration alloc n skip th ie c = Inr c'" and "ctl_state alloc skip c0 c" and "world_ok n ie"
  shows "ctl_state alloc skip c0 c'"
proof -
  obtain c1 m1 m2 where run: "deploy_round alloc skip ie c = Inr c1" "measure_round th n ie (c_monitor c1) = Inr m1"
    "(if skip then Inr (serve_all (ie_requests ie n) m1) else comsume_collected_data (serve_all (ie_requests ie n) m1)) = Inr m2"
    "c' = c1\<lparr>c_monitor := serve_all (ie_requests ie (n + 1)) m2\<rparr>"
    using assms(1) by (auto simp: loop_iteration_def Let_def rbind_eq_Inr)
  have "ctl_state alloc skip c0 (c1\<lparr>c_monitor := m1\<rparr>)"
    using measure_state [OF ctl_state.round [OF assms(2) run(1)] assms(3), of th] run(2) by simp
  from serve_all_state [OF this, of "ie_requests ie n"]
  have st: "ctl_state alloc skip c0 (c1\<lparr>c_monitor := serve_all (ie_requests ie n) m1\<rparr>)" by simp
  have "ctl_state alloc skip c0 (c1\<lparr>c_monitor := m2\<rparr>)"
    using run(3) st ctl_state.consumes [OF st, of m2] by (simp split: if_splits)
  from serve_all_state [OF this, of "ie_requests ie (n + 1)"] show ?thesis using run(4) by simp
qed

lemma start_state:
  assumes "start alloc (Some par) max_iteration skip th world c0 = Inr c"
    and "\<And>k. world_ok (nat (lp_measurements_per_alloc par)) (world k)"
  shows "ctl_state alloc skip c0 c"
proof -
  let ?n = "nat (lp_measurements_per_alloc par)"
  obtain c1 where run: "deploy_round alloc skip (world 0) c0 = Inr c1"
    "rfold (\<lambda>k. loop_iteration alloc ?n skip th (world (Suc k))) [0..<nat (py_int max_iteration)]
       (c1\<lparr>c_monitor := serve_all (ie_requests (world 0) 0) (c_monitor c1)\<rparr>) = Inr c"
    using assms(1) by (auto simp: start_def rbind_eq_Inr)
  from run(2) show ?thesis
  proof (rule rfold_invariant)
    show "ctl_state alloc skip c0 (c1\<lparr>c_monitor := serve_all (ie_requests (world 0) 0) (c_monitor c1)\<rparr>)"
      by (rule serve_all_state [OF ctl_state.round [OF ctl_state.init run(1)]])
  qed (rule loop_iteration_state [OF _ _ assms(2)])
qed

text \<open>An iteration after its round has been deployed.\<close>

lemma rest_of_iteration:
  assumes "deploy_round alloc skip ie c = Inr c1" and "ctl_state alloc skip c0 c1" and "world_ok n ie"
    and "\<forall>m. ctl_state alloc skip c0 (c1\<lparr>c_monitor := m\<rparr>) \<longrightarrow> reachable interval m"
  shows "\<exists>c'. loop_iteration alloc n skip th ie c = Inr c' \<and> ctl_state alloc skip c0 c' \<and> c_trace c' = c_trace c1 \<and>
    collection_iteration_count (c_monitor c') = collection_iteration_count (c_monitor c1) + (if skip then 0 else 1)"
proof -
  obtain m where m: "measure_round th n ie (c_monitor c1) = Inr m" "ctl_state alloc skip c0 (c1\<lparr>c_monitor := m\<rparr>)"
    "collection_iteration_count m = collection_iteration_count (c_monitor c1)"
    using measure_state [OF assms(2,3)] by blast
  let ?m = "serve_all (ie_requests ie n) m"
  have st: "ctl_state alloc skip c0 (c1\<lparr>c_monitor := ?m\<rparr>)" using serve_all_state [OF m(2)] by simp
  obtain m1 where m1: "(if skip then Inr ?m else comsume_collected_data ?m) = Inr m1" "ctl_state alloc skip c0 (c1\<lparr>c_monitor := m1\<rparr>)"
    "collection_iteration_count m1 = collection_iteration_count (c_monitor c1) + (if skip then 0 else 1)"
  proof (cases skip)
    case False
    obtain m1 where m1: "comsume_collected_data ?m = Inr m1" "collection_iteration_count m1 = collection_iteration_count ?m + 1"
      using consume_ok [OF reachable_inv [OF assms(4) [rule_format, OF st]]] by blast
    then show thesis using False m(3) ctl_state.consumes [OF st, of m1] by (intro that) (simp_all add: serve_all_keeps)
  qed (use that [of ?m] st m(3) in \<open>simp add: serve_all_keeps\<close>)
  then have "ctl_state alloc skip c0 (c1\<lparr>c_monitor := serve_all (ie_requests ie (n + 1)) m1\<rparr>)"
    using serve_all_state [OF m1(2), of "ie_requests ie (n + 1)"] by simp
  then show ?thesis using assms(1) m(1) m1 by (simp add: loop_iteration_def serve_all_keeps)
qed

text \<open>An allocator that does not raise, under the loop.\<close>

locale total_controlled = controlled alloc good inv promise est interval + total_allocator alloc good inv promise
  for alloc :: "view \<Rightarrow> 's \<Rightarrow> ('s \<times> deployment) res" and good inv promise est interval
begin

lemma deploy_round_returns:
  assumes "ctl_inv inv promise est interval c" and "\<forall>doc. returns (ie_post ie doc)"
  shows "\<exists>c1. deploy_round alloc skip ie c = Inr c1 \<and> length (c_trace c1) = Suc (length (c_trace c)) \<and>
    collection_iteration_count (c_monitor c1) = collection_iteration_count (c_monitor c)"
proof -
  let ?v = "view_of skip ie c"
  have good: "good ?v" by (rule good_view) (use assms(1) in \<open>simp_all add: ctl_inv_def view_of_def\<close>)
  obtain s d where sd: "alloc ?v (c_self c) = Inr (s, d)"
    using step_returns [OF good, of "c_self c"] assms(1) by (auto simp: ctl_inv_def returns_def)
  have "\<exists>r. deploy (ie_post ie) (Some (as_resource_alloc d)) (c_deployer c) = Inr r"
    using assms(2) by (auto simp: deploy_def returns_def assemble_command_def Let_def)
      (metis rbind_Inr)
  then obtain r where "deploy (ie_post ie) (Some (as_resource_alloc d)) (c_deployer c) = Inr r" ..
  then show ?thesis using sd by (cases r) (simp add: deploy_round_def set_last_allocation_def)
qed

lemma iteration_returns:
  assumes "ctl_state alloc skip c0 c" and "ctl_inv inv promise est interval c0" and "world_ok n ie"
  shows "\<exists>c'. loop_iteration alloc n skip th ie c = Inr c' \<and> ctl_state alloc skip c0 c' \<and>
    length (c_trace c') = Suc (length (c_trace c)) \<and>
    collection_iteration_count (c_monitor c') = collection_iteration_count (c_monitor c) + (if skip then 0 else 1)"
proof -
  obtain c1 where c1: "deploy_round alloc skip ie c = Inr c1" "length (c_trace c1) = Suc (length (c_trace c))"
    "collection_iteration_count (c_monitor c1) = collection_iteration_count (c_monitor c)"
    using deploy_round_returns [OF ctl_state_inv [OF assms(1,2)]] assms(3) unfolding world_ok_def by blast
  have "\<forall>m. ctl_state alloc skip c0 (c1\<lparr>c_monitor := m\<rparr>) \<longrightarrow> reachable interval m"
    using ctl_state_inv [OF _ assms(2)] unfolding ctl_inv_def by force
  from rest_of_iteration [OF c1(1) ctl_state.round [OF assms(1) c1(1)] assms(3) this, of th] show ?thesis
    using c1(2,3) by auto
qed

lemma iterations_return:
  assumes "ctl_state alloc skip c0 c" and "ctl_inv inv promise est interval c0" and "\<And>k. world_ok n (world (Suc k))"
  shows "\<exists>c'. rfold (\<lambda>k. loop_iteration alloc n skip th (world (Suc k))) [j..<j + i] c = Inr c' \<and> ctl_state alloc skip c0 c' \<and>
    length (c_trace c') = length (c_trace c) + i \<and>
    collection_iteration_count (c_monitor c') = collection_iteration_count (c_monitor c) + (if skip then 0 else i)"
proof (induction i)
  case (Suc i)
  then obtain c1 where c1: "rfold (\<lambda>k. loop_iteration alloc n skip th (world (Suc k))) [j..<j + i] c = Inr c1"
    "ctl_state alloc skip c0 c1" "length (c_trace c1) = length (c_trace c) + i"
    "collection_iteration_count (c_monitor c1) = collection_iteration_count (c_monitor c) + (if skip then 0 else i)"
    by blast
  obtain c2 where "loop_iteration alloc n skip th (world (Suc (j + i))) c1 = Inr c2" "ctl_state alloc skip c0 c2"
    "length (c_trace c2) = Suc (length (c_trace c1))"
    "collection_iteration_count (c_monitor c2) = collection_iteration_count (c_monitor c1) + (if skip then 0 else 1)"
    using iteration_returns [OF c1(2) assms(2) assms(3)] by blast
  then show ?case using c1 by (auto simp: rfold_append)
qed (use assms(1) in simp)

lemma start_returns:
  assumes "inv s" and "lp_measurements_per_alloc par \<noteq> 0" and "\<And>k. world_ok (nat (lp_measurements_per_alloc par)) (world k)"
  shows "\<exists>c. start alloc (Some par) max_iteration skip th world (init_controller est interval s) = Inr c \<and>
    ctl_state alloc skip (init_controller est interval s) c \<and>
    length (c_trace c) = nat (py_int max_iteration) + 1 \<and>
    collection_iteration_count (c_monitor c) = (if skip then 0 else nat (py_int max_iteration))"
proof -
  let ?c0 = "init_controller est interval s"
  note inv0 = init_inv [OF assms(1)]
  obtain c1 where c1: "deploy_round alloc skip (world 0) ?c0 = Inr c1" "length (c_trace c1) = 1"
    "collection_iteration_count (c_monitor c1) = 0"
    using deploy_round_returns [OF inv0, of "world 0" skip] assms(3) [of 0]
    by (auto simp: world_ok_def init_controller_def init_monitor_def)
  have st: "ctl_state alloc skip ?c0 (c1\<lparr>c_monitor := serve_all (ie_requests (world 0) 0) (c_monitor c1)\<rparr>)"
    by (rule serve_all_state [OF ctl_state.round [OF ctl_state.init c1(1)]])
  have "fdiv (lp_interval par) (of_int (lp_measurements_per_alloc par)) = Inr (lp_interval par / of_int (lp_measurements_per_alloc par))"
    using assms(2) by (simp add: fdiv_def)
  then show ?thesis
    using iterations_return [OF st inv0, of "nat (lp_measurements_per_alloc par)" world th 0 "nat (py_int max_iteration)"] assms(3) c1
    by (auto simp: start_def serve_all_keeps)
qed

end

section \<open>The loop refines the sequence of rounds\<close>

lemma rounds_append:
  "rounds step (is @ js) s = rbind (rounds step is s) (\<lambda>(s', ds). rbind (rounds step js s') (\<lambda>(s'', es). Inr (s'', ds @ es)))"
proof (induction "is" arbitrary: s)
  case Nil
  show ?case by (cases "rounds step js s") auto
next
  case (Cons i "is")
  show ?case
  proof (cases "step i s")
    case (Inr p)
    obtain s1 d where p: "p = (s1, d)" by force
    show ?thesis
    proof (cases "rounds step is s1")
      case (Inr q)
      obtain s2 ds where q: "q = (s2, ds)" by force
      show ?thesis using \<open>step i s = Inr p\<close> p Inr q Cons.IH by (cases "rounds step js s2") auto
    qed (use Inr p Cons.IH in simp)
  qed simp
qed


section \<open>The static allocator in the loop\<close>

definition env_view :: "view \<Rightarrow> est_env" where
  "env_view v =
     \<lparr>env_alloc = Some (v_last_allocation v), env_monitor = Some (get_last_mrc (v_monitor v), get_last_usage (v_monitor v))\<rparr>"

definition round_view :: "view \<Rightarrow> round_input" where
  "round_view v =
     \<lparr>ri_estimator = v_estimator v, ri_vm_map = get_vm_to_app_mapping (v_monitor v),
      ri_total_record = (\<lambda>u. map_option total_record (map_of (collected_data (v_monitor v)) u)),
      ri_env = env_view v, ri_skip_monitoring = v_skip_monitoring v\<rparr>"

definition static_on_view :: "resource_scale \<Rightarrow> view \<Rightarrow> unit \<Rightarrow> (unit \<times> deployment) res" where
  "static_on_view rs v = static_step rs (round_view v)"

lemma wf_share_all: "share_all rs n us d = Inr d' \<Longrightarrow> wf_dict d \<Longrightarrow> wf_dict d'"
  unfolding share_all_def by (erule rfold_invariant) (auto simp: rbind_eq_Inr)

lemma wf_static:
  assumes "static_allocate_and_parse rs i = Inr d"
  shows "wf_dict d"
proof -
  have flat: "wf_dict d" if "flat_allocation rs users n = Inr d" for users n
    using that unfolding flat_allocation_def
    by (auto split: if_splits simp: rbind_eq_Inr elim!: rfold_invariant)
  have vms: "wf_dict d'" if "rfold (static_vm rs users) m [] = Inr d'" for users m d'
    using that by (rule rfold_invariant) (auto simp: static_vm_def Let_def split: if_splits intro: wf_share_all)
  show ?thesis
    using assms vms by (auto simp: static_allocate_and_parse_def Let_def rbind_eq_Inr split: if_splits
        intro: flat wf_share_all)
qed

text \<open>A configuration the static allocator can work with.\<close>

definition static_config :: "resource_scale \<Rightarrow> estimator \<Rightarrow> int list \<Rightarrow> bool" where
  "static_config rs est users \<longleftrightarrow>
     0 \<le> rs_cache rs \<and> 0 \<le> rs_mem_bw rs \<and> get_app_ids est = Inr users \<and> get_num_vms est \<noteq> 0"

definition static_good :: "resource_scale \<Rightarrow> int list \<Rightarrow> estimator \<Rightarrow> view \<Rightarrow> bool" where
  "static_good rs users est v \<longleftrightarrow> (static_config rs est users \<longrightarrow> static_input rs users (round_view v))"

interpretation cst: total_controlled "static_on_view rs" "static_good rs users est" "\<lambda>_. static_config rs est users"
  "\<lambda>v. fits rs 0 users (vm_to_app_map (v_monitor v))" est interval for rs users est interval
proof unfold_locales
  fix v :: view and s s' :: unit and d
  assume "static_good rs users est v" "static_config rs est users" and run: "static_on_view rs v s = Inr (s', d)"
  then have "fits rs 0 users (ri_vm_map (round_view v)) d"
    using st.step_promise [of rs users "round_view v" s s' d] by (simp add: static_good_def static_on_view_def)
  then show "fits rs 0 users (vm_to_app_map (v_monitor v)) d" by (simp add: round_view_def get_vm_to_app_mapping_def)
next
  fix v :: view and s s' :: unit and d
  assume "static_on_view rs v s = Inr (s', d)"
  then show "wf_dict d" using wf_static by (auto simp: static_on_view_def static_step_def rbind_eq_Inr)
next
  fix v :: view and s :: unit
  assume "static_good rs users est v" "static_config rs est users"
  then show "returns (static_on_view rs v s)"
    using st.step_returns [of rs users "round_view v" s] by (simp add: static_good_def static_on_view_def)
qed (auto simp: static_good_def static_config_def static_input_def round_view_def get_vm_to_app_mapping_def)

section \<open>Properties\<close>

definition sample_world :: "nat \<Rightarrow> iter_env" where
  "sample_world k =
     \<lparr>ie_post = (\<lambda>_. Inr 202),
      ie_response = (\<lambda>_. (200, Json (print_log [(0, [(1, sample_raw), (2, sample_raw)]), (1, [(3, sample_raw)])]))),
      ie_requests = (\<lambda>_. [sample_request (Json_Object (Some (JInt 1)))]), ie_now = (\<lambda>_. of_nat k)\<rparr>"

lemma sample_world_ok: "world_ok n (sample_world k)"
proof -
  have "log_ok [(0, [(1, sample_raw), (2, sample_raw)]), (1, [(3, sample_raw)])]"
    by (simp add: log_ok_def complete_entry_def sample_raw_def)
  then show ?thesis unfolding world_ok_def good_body_def by (auto simp: sample_world_def returns_def)
qed

lemma sample_config: "static_config sample_scale (ri_estimator two_vms) [1, 2, 3]"
  by (simp add: static_config_def sample_scale_def two_vms_def init_estimator_def get_app_ids_def get_num_vms_def)



text \<open>C30. With the static allocator the control loop runs to its end: from a fresh start, with a controller that
  accepts the posts and sends well-formed logs, and at least one measurement per allocation, \<open>start\<close>
  returns after one allocation before the loop and one in each iteration, each of which ends with one
  consumption unless monitoring is skipped.\<close>

theorem static_controller_runs:
  assumes "static_config rs est users" and "lp_measurements_per_alloc par \<noteq> 0"
    and "\<forall>k. world_ok (nat (lp_measurements_per_alloc par)) (world k)"
  shows "\<exists>c. start (static_on_view rs) (Some par) max_iteration skip th world (init_controller est interval ()) = Inr c \<and>
    length (c_trace c) = nat (py_int max_iteration) + 1 \<and>
    collection_iteration_count (c_monitor c) = (if skip then 0 else nat (py_int max_iteration))"
  using cst.start_returns [OF assms(1,2), of world max_iteration skip th interval] assms(3) by blast

theorem static_controller_runs_witness:
  "\<exists>c. start (static_on_view sample_scale) (Some (loop_params_of 10)) 15 False (25 / 1000) sample_world
         (init_controller (ri_estimator two_vms) None ()) = Inr c \<and>
     length (c_trace c) = 16 \<and> collection_iteration_count (c_monitor c) = 15"
proof -
  have par: "lp_measurements_per_alloc (loop_params_of 10) \<noteq> 0" by code_simp
  show ?thesis
    using static_controller_runs [OF sample_config par, of sample_world 15 False "25 / 1000" None] sample_world_ok
    by (auto simp: py_int_def)
qed

text \<open>C31. An allocation interval below four seconds stops every allocator: the number of measurements per
  allocation is then zero, and \<open>start\<close> raises \<open>ZeroDivisionError\<close> when it computes the time between them,
  after the first allocation has been deployed.\<close>

theorem start_short_interval:
  assumes "0 \<le> interval" and "interval < 4" and "deploy_round alloc skip (world 0) c = Inr c'"
  shows "start alloc (Some (loop_params_of interval)) max_iteration skip th world c = Inl ZeroDivisionError"
proof -
  have "\<lfloor>interval * (25 / 100)\<rfloor> = 0" using assms(1,2) by (simp add: floor_eq_iff)
  then have "lp_measurements_per_alloc (loop_params_of interval) = 0"
    using assms(1) by (simp add: loop_params_of_def py_int_def)
  then show ?thesis using assms(3) by (simp add: start_def fdiv_def)
qed

theorem start_short_interval_witness:
  "start (static_on_view sample_scale) (Some (loop_params_of 3)) 2 False (25 / 1000) sample_world
     (init_controller (ri_estimator two_vms) None ()) = Inl ZeroDivisionError"
proof -
  have "ctl_inv (\<lambda>_. static_config sample_scale (ri_estimator two_vms) [1, 2, 3])
      (\<lambda>v. fits sample_scale 0 [1, 2, 3] (vm_to_app_map (v_monitor v))) (ri_estimator two_vms) None
      (init_controller (ri_estimator two_vms) None ())"
    by (rule cst.init_inv [OF sample_config])
  from cst.deploy_round_returns [OF this, of "sample_world 0" False] sample_world_ok [of 0 0]
  show ?thesis unfolding world_ok_def by (blast intro: start_short_interval [where interval = 3, simplified])
qed


end
