(* ===== verification/Trade.thy ===== *)
theory Trade
  imports Monitor
begin

text \<open>
  What the two trading allocators share.  \<open>src/res_allocation/allocators/fij_trade_allocator.py\<close> and
  \<open>inc_trade_allocator.py\<close> repeat the same methods for the rounds of equal shares, for the baseline
  performance, for reading the recent performance of a user and for starting, normalising and recording
  an allocation; they differ in \<open>allocate\<close>, the trade within one VM, which is the argument \<open>allocate_vm\<close>
  of the round below.

  Amounts are shares of the VM's cache and bandwidth.  Log messages, prints and run time lists are left
  out.
\<close>

section \<open>Parameters, state, inputs\<close>

record trade_params =
  tp_init_phase_interval :: rat
  tp_search_granularity :: rat

definition default_trade_params :: trade_params where
  "default_trade_params = \<lparr>tp_init_phase_interval = 6, tp_search_granularity = 1 / 200\<rparr>"

record trade =
  t_last_allocation :: "allocs option"
  t_last_static_allocation :: "allocs option"
  t_last_static_performance :: "(int, rat) dict option"
  last_adjusted_users :: "(int, int set) dict"

definition init_trade :: trade where
  "init_trade =
     \<lparr>t_last_allocation = None, t_last_static_allocation = None, t_last_static_performance = None,
      last_adjusted_users = []\<rparr>"

text \<open>What a round reads: the estimator's configuration, the monitor, what \<open>get_estimation\<close> sees, and
  \<open>time.time()\<close> while a VM is handled.\<close>

record trade_input =
  ti_estimator :: estimator
  ti_monitor :: monitor
  ti_env :: est_env
  ti_now :: "int \<Rightarrow> rat"
  ti_skip_monitoring :: bool

text \<open>\<open>self.last_adjusted_users.get(vm_id, set())\<close>\<close>

definition adjusted_users :: "'a trade_scheme \<Rightarrow> int \<Rightarrow> int set" where
  "adjusted_users self vm_id = (case map_of (last_adjusted_users self) vm_id of None \<Rightarrow> {} | Some us \<Rightarrow> us)"

section \<open>Rounds of equal shares\<close>

definition is_static_allocation :: "trade_params \<Rightarrow> bool \<Rightarrow> int list \<Rightarrow> monitor \<Rightarrow> 'a trade_scheme \<Rightarrow> bool" where
  "is_static_allocation par skip_monitoring users m self =
    (if t_last_static_performance self = None then True
     else if \<not> skip_monitoring
     then users = [] \<or>
          list_ex (\<lambda>user. case map_of (collected_data m) user of
              None \<Rightarrow> True
            | Some d \<Rightarrow> of_nat (total_record d) < tp_init_phase_interval par) users
     else t_last_static_allocation self = None)"

definition complete_vm_map :: "vm_map \<Rightarrow> int list \<Rightarrow> bool" where
  "complete_vm_map vm_to_app users \<longleftrightarrow> vm_to_app \<noteq> [] \<and> set users \<subseteq> set (mapped_apps vm_to_app)"

definition allocate_resources_for_user :: "resource_scale \<Rightarrow> nat \<Rightarrow> (deployed \<times> alloc) res" where
  "allocate_resources_for_user rs num_users =
     rbind (fdiv (rs_cache rs) (of_nat num_users)) (\<lambda>c.
     rbind (fdiv 1 (of_nat num_users)) (\<lambda>last_c.
     rbind (fdiv (rs_mem_bw rs) (of_nat num_users)) (\<lambda>b.
     rbind (fdiv 1 (of_nat num_users)) (\<lambda>last_b.
     Inr (\<lparr>d_cache = py_int c, d_mem_bw = py_int (b * 1024)\<rparr>, mk_alloc last_c last_b)))))"

definition get_static_allocation_for_vm :: "resource_scale \<Rightarrow> int list \<Rightarrow> (deployment \<times> allocs) res" where
  "get_static_allocation_for_vm rs vm_apps =
     rfold (\<lambda>user (allocation, la).
       rbind (allocate_resources_for_user rs (length vm_apps)) (\<lambda>(d, a).
       Inr (dict_set user d allocation, dict_set user a la))) vm_apps ([], [])"

text \<open>\<open>vm_apps = [...]; vm_apps.sort()\<close>, and the users of a virtual VM, \<open>users[start_idx:end_idx]\<close>.\<close>

definition trade_vm_apps :: "int list \<Rightarrow> int list \<Rightarrow> int list" where
  "trade_vm_apps users app_ids = sort (vm_users users app_ids)"

definition virtual_vm_apps :: "int list \<Rightarrow> int \<Rightarrow> nat \<Rightarrow> int list" where
  "virtual_vm_apps users num_vms vm_idx =
    (let users_per_vm = max 1 (int (length users) div num_vms);
         start_idx = int vm_idx * users_per_vm;
         end_idx = (if int vm_idx < num_vms - 1 then start_idx + users_per_vm else int (length users))
     in take (nat (end_idx - start_idx)) (drop (nat start_idx) users))"

definition add_vm_allocation ::
  "resource_scale \<Rightarrow> int list \<Rightarrow> deployment \<times> allocs \<Rightarrow> (deployment \<times> allocs) res" where
  "add_vm_allocation rs vm_apps st =
     rbind (get_static_allocation_for_vm rs vm_apps) (\<lambda>(vm_allocation, vm_last_allocation).
     Inr (dict_update (fst st) vm_allocation, dict_update (snd st) vm_last_allocation))"

definition get_static_allocation_with_vm_mapping ::
  "resource_scale \<Rightarrow> int \<Rightarrow> int list \<Rightarrow> vm_map \<Rightarrow> bool \<Rightarrow> (deployment \<times> allocs) res" where
  "get_static_allocation_with_vm_mapping rs num_vms users vm_to_app is_complete =
    (if \<not> is_complete then
       if num_vms = 0 then Inl ZeroDivisionError
       else rfold (\<lambda>vm_idx. add_vm_allocation rs (virtual_vm_apps users num_vms vm_idx)) [0..<nat num_vms] ([], [])
     else rfold (\<lambda>(vm_id, app_ids). add_vm_allocation rs (trade_vm_apps users app_ids)) vm_to_app ([], []))"

section \<open>Measured performance\<close>

text \<open>\<open>min(xs, key=lambda x: abs(x - target))\<close>: the first of the closest elements.\<close>

definition closest :: "('a \<Rightarrow> rat) \<Rightarrow> rat \<Rightarrow> 'a list \<Rightarrow> 'a" where
  "closest num target xs =
     fold (\<lambda>x best. if \<bar>num x - target\<bar> < \<bar>num best - target\<bar> then x else best) (tl xs) (hd xs)"

definition mean :: "rat list \<Rightarrow> rat" where
  "mean xs = sum_list xs / of_nat (length xs)"

text \<open>The mean performance at the measured point closest to the given cache and, there, bandwidth.\<close>

definition closest_performance :: "(int, rat, rat list) dict2 \<Rightarrow> rat \<Rightarrow> rat \<Rightarrow> rat option" where
  "closest_performance recent_data target_cache target_mem_bw =
    (if recent_data = [] then None
     else
       (case map_of recent_data (closest of_int target_cache (keys recent_data)) of
          None \<Rightarrow> None
        | Some by_bw \<Rightarrow>
            if by_bw = [] then None
            else
              (case map_of by_bw (closest (\<lambda>x. x) target_mem_bw (keys by_bw)) of
                 None \<Rightarrow> None
               | Some perf_list \<Rightarrow> if perf_list = [] then None else Some (mean perf_list))))"

definition get_current_performance :: "resource_scale \<Rightarrow> monitor \<Rightarrow> allocs \<Rightarrow> int \<Rightarrow> rat option" where
  "get_current_performance rs m la user =
    (if \<not> has_key (collected_data m) user then None
     else
       let recent_data = collect_recent_measurement m user in
       if recent_data = [] then None
       else
         (case map_of la user of
            None \<Rightarrow> None
          | Some a \<Rightarrow>
              closest_performance recent_data (of_int (py_int (cache a * rs_cache rs))) (mem_bw a * rs_mem_bw rs)))"

text \<open>Whether the last allocation is still the one of the last round of equal shares, and the baseline
  performance of the users that have data.\<close>

definition allocation_matches :: "allocs \<Rightarrow> allocs \<Rightarrow> int list \<Rightarrow> bool" where
  "allocation_matches la static users =
     list_all (\<lambda>user. case (map_of la user, map_of static user) of
         (Some a, Some s) \<Rightarrow> \<not> \<bar>cache a - cache s\<bar> > 1 / 1000 \<and> \<not> \<bar>mem_bw a - mem_bw s\<bar> > 1 / 1000
       | _ \<Rightarrow> False) users"

definition record_static_performance ::
  "resource_scale \<Rightarrow> monitor \<Rightarrow> allocs \<Rightarrow> int \<Rightarrow> (int, rat) dict \<Rightarrow> (int, rat) dict res" where
  "record_static_performance rs m static user perfs =
    (if \<not> has_key (collected_data m) user then Inr perfs
     else
       let recent_data = collect_recent_measurement m user in
       if recent_data = [] then Inr perfs
       else
         rbind (dict_get static user) (\<lambda>s.
         Inr (case closest_performance recent_data (cache s * rs_cache rs) (mem_bw s * rs_mem_bw rs) of
                None \<Rightarrow> perfs
              | Some p \<Rightarrow> dict_set user p perfs)))"

text \<open>The new \<open>last_static_performance\<close>, or \<open>None\<close> where the method leaves it alone.\<close>

definition static_performance ::
  "resource_scale \<Rightarrow> monitor \<Rightarrow> int list \<Rightarrow> 'a trade_scheme \<Rightarrow> (int, rat) dict option res" where
  "static_performance rs m users self =
    (case t_last_static_allocation self of
       None \<Rightarrow> Inr None
     | Some static \<Rightarrow>
         (case t_last_allocation self of
            None \<Rightarrow> if users = [] then Inr (Some []) else Inl TypeError
          | Some la \<Rightarrow>
              if \<not> allocation_matches la static users then Inr None
              else rbind (rfold (record_static_performance rs m static) users []) (\<lambda>perfs. Inr (Some perfs))))"

section \<open>Allocations of one VM\<close>

definition initialize_allocation :: "allocs option \<Rightarrow> int list \<Rightarrow> allocs res" where
  "initialize_allocation prev users =
     rbind (fdiv 1 (of_nat (length users))) (\<lambda>equal_share.
     let cur = fold (\<lambda>user. dict_set user (mk_alloc equal_share equal_share)) users [] in
     (case prev of
        None \<Rightarrow> if users = [] then Inr cur else Inl TypeError
      | Some la \<Rightarrow>
          Inr (fold (\<lambda>user cur. case map_of la user of
                 None \<Rightarrow> cur
               | Some a \<Rightarrow> dict_set user (mk_alloc (cache a) (mem_bw a)) cur) users cur)))"

text \<open>One resource is normalised: \<open>get\<close> reads its share and \<open>upd\<close> changes it.\<close>

definition normalize_resource ::
  "(alloc \<Rightarrow> rat) \<Rightarrow> ((rat \<Rightarrow> rat) \<Rightarrow> alloc \<Rightarrow> alloc) \<Rightarrow> int list \<Rightarrow> allocs \<Rightarrow> allocs res" where
  "normalize_resource get upd users cur =
     rbind (rfold (\<lambda>user total. rbind (dict_get cur user) (\<lambda>a. Inr (total + get a))) users 0) (\<lambda>total.
     if total > 1
     then rfold (\<lambda>user cur. rbind (dict_get cur user) (\<lambda>a. Inr (dict_set user (upd (\<lambda>x. x / total) a) cur))) users cur
     else Inr cur)"

definition normalize_allocations :: "int list \<Rightarrow> allocs \<Rightarrow> allocs res" where
  "normalize_allocations users cur =
     rbind (normalize_resource cache cache_update users cur) (normalize_resource mem_bw mem_bw_update users)"

text \<open>A VM's allocation in MB and Mbps, recorded in \<open>last_allocation\<close> and in what the round returns.\<close>

definition deployed_units :: "resource_scale \<Rightarrow> alloc \<Rightarrow> deployed" where
  "deployed_units rs a =
     \<lparr>d_cache = py_int (cache a * rs_cache rs), d_mem_bw = py_int (mem_bw a * rs_mem_bw rs * 1024)\<rparr>"

definition record_allocation ::
  "resource_scale \<Rightarrow> int \<times> alloc \<Rightarrow> allocs \<times> deployment \<Rightarrow> allocs \<times> deployment" where
  "record_allocation rs entry st =
    (case entry of (user, a) \<Rightarrow>
       (dict_set user a (fst st), dict_set user (deployed_units rs a) (snd st)))"

section \<open>A round\<close>

text \<open>\<open>allocate\<close> returns a dictionary of dictionaries whenever it returns, so the branches for other
  results are never reached and are left out.\<close>

definition trade_vm ::
  "(int \<Rightarrow> int list \<Rightarrow> 'a trade_scheme \<Rightarrow> ('a trade_scheme \<times> allocs) res) \<Rightarrow> resource_scale \<Rightarrow> int list \<Rightarrow>
   int \<times> int list \<Rightarrow> 'a trade_scheme \<times> deployment \<Rightarrow> ('a trade_scheme \<times> deployment) res" where
  "trade_vm allocate_vm rs users entry st =
    (case entry of (vm_id, app_ids) \<Rightarrow>
      (let vm_apps = trade_vm_apps users app_ids in
       if vm_apps = [] then Inr st
       else
         rbind (allocate_vm vm_id vm_apps (fst st)) (\<lambda>(self, vm_cur_alloc).
         case t_last_allocation self of
           None \<Rightarrow> if vm_cur_alloc = [] then Inr (self, snd st) else Inl TypeError
         | Some la \<Rightarrow>
             (case fold (record_allocation rs) vm_cur_alloc (la, snd st) of (la', allocation) \<Rightarrow>
                Inr (self\<lparr>t_last_allocation := Some la'\<rparr>, allocation)))))"

definition trade_allocate_and_parse ::
  "(resource_scale \<Rightarrow> monitor \<Rightarrow> int list \<Rightarrow> 'a trade_scheme \<Rightarrow> 'a trade_scheme res) \<Rightarrow>
   (trade_input \<Rightarrow> int \<Rightarrow> int list \<Rightarrow> 'a trade_scheme \<Rightarrow> ('a trade_scheme \<times> allocs) res) \<Rightarrow>
   trade_params \<Rightarrow> resource_scale \<Rightarrow> trade_input \<Rightarrow> 'a trade_scheme \<Rightarrow> ('a trade_scheme \<times> deployment) res" where
  "trade_allocate_and_parse update_static allocate_vm par rs i self =
    (let m = ti_monitor i;
         vm_to_app = get_vm_to_app_mapping m
     in
     rbind (get_app_ids (ti_estimator i)) (\<lambda>users.
     let is_complete = complete_vm_map vm_to_app users in
     rbind (if is_complete then update_static rs m users self else Inr self) (\<lambda>self.
     if is_static_allocation par (ti_skip_monitoring i) users m self \<or> \<not> is_complete
     then
       rbind (get_static_allocation_with_vm_mapping rs (get_num_vms (ti_estimator i)) users vm_to_app is_complete)
         (\<lambda>(allocation, la).
       Inr (self\<lparr>t_last_allocation := Some la, t_last_static_allocation := Some la\<rparr>, allocation))
     else rfold (trade_vm (allocate_vm i) rs users) vm_to_app (self, []))))"

end
