(* ===== verification/Trade_Rounds.thy ===== *)
theory Trade_Rounds
  imports Trade "HOL-Library.Multiset"
begin

text \<open>
  The contract of a trade within one VM, and what follows from it for all rounds of a trading allocator:
  no round raises and no VM is overcommitted.  The contract is the locale \<open>vm_trader\<close>; the allocators
  \<open>Fij\<close> and \<open>Inc\<close> interpret it.
\<close>

section \<open>Shares\<close>

definition nonneg :: "alloc \<Rightarrow> bool" where
  "nonneg a \<longleftrightarrow> 0 \<le> cache a \<and> 0 \<le> mem_bw a"

text \<open>Every user has an entry with amounts that are not negative.\<close>

definition holds :: "allocs \<Rightarrow> int list \<Rightarrow> bool" where
  "holds la us \<longleftrightarrow> (\<forall>u \<in> set us. \<exists>a. map_of la u = Some a \<and> nonneg a)"

definition share_sum :: "(alloc \<Rightarrow> rat) \<Rightarrow> allocs \<Rightarrow> int list \<Rightarrow> rat" where
  "share_sum get la us = (\<Sum>u\<leftarrow>us. get (the (map_of la u)))"

definition shares_fit :: "allocs \<Rightarrow> int list \<Rightarrow> bool" where
  "shares_fit la us \<longleftrightarrow> share_sum cache la us \<le> 1 \<and> share_sum mem_bw la us \<le> 1"

text \<open>The amounts handed out for a user are those of its entry.\<close>

definition deploys :: "resource_scale \<Rightarrow> allocs \<Rightarrow> deployment \<Rightarrow> int list \<Rightarrow> bool" where
  "deploys rs la d us \<longleftrightarrow> (\<forall>u \<in> set us. map_of d u = map_option (deployed_units rs) (map_of la u))"

lemma share_sum_cong:
  "(\<And>u. u \<in> set us \<Longrightarrow> map_of la u = map_of la' u) \<Longrightarrow> share_sum get la us = share_sum get la' us"
  unfolding share_sum_def by (intro arg_cong [where f = sum_list] map_cong) auto

lemma shares_fit_cong:
  "(\<And>u. u \<in> set us \<Longrightarrow> map_of la u = map_of la' u) \<Longrightarrow> shares_fit la us = shares_fit la' us"
  unfolding shares_fit_def using share_sum_cong [of us la la'] by simp

lemma holds_cong:
  "(\<And>u. u \<in> set us \<Longrightarrow> map_of la u = map_of la' u) \<Longrightarrow> holds la us = holds la' us"
  by (simp add: holds_def)

lemma deploys_cong:
  "(\<And>u. u \<in> set us \<Longrightarrow> map_of la u = map_of la' u) \<Longrightarrow> (\<And>u. u \<in> set us \<Longrightarrow> map_of d u = map_of d' u) \<Longrightarrow>
   deploys rs la d us = deploys rs la' d' us"
  by (simp add: deploys_def)

lemma holdsD: "holds la us \<Longrightarrow> u \<in> set us \<Longrightarrow> \<exists>a. map_of la u = Some a \<and> nonneg a"
  by (simp add: holds_def)

lemma set_trade_vm_apps [simp]: "set (trade_vm_apps users apps) = set apps \<inter> set users"
  by (auto simp: trade_vm_apps_def vm_users_def)

lemma distinct_trade_vm_apps: "distinct apps \<Longrightarrow> distinct (trade_vm_apps users apps)"
  by (simp add: trade_vm_apps_def vm_users_def)

lemma sum_trade_vm_apps: "(\<Sum>u\<leftarrow>vm_users users apps. f u) = (\<Sum>u\<leftarrow>trade_vm_apps users apps. f u :: rat)"
proof -
  have "mset (map f (vm_users users apps)) = mset (map f (trade_vm_apps users apps))"
    by (simp add: trade_vm_apps_def)
  then show ?thesis using sum_mset_sum_list by metis
qed

text \<open>Truncating shares that add up to at most the whole does not hand out more than the whole.\<close>

lemma truncated_shares_le:
  fixes S :: rat
  assumes "\<And>u. u \<in> set us \<Longrightarrow> f u \<le> g u * S" and "0 \<le> S" and "(\<Sum>u\<leftarrow>us. g u) \<le> 1"
  shows "(\<Sum>u\<leftarrow>us. f u) \<le> S"
proof -
  have "(\<Sum>u\<leftarrow>us. f u) \<le> (\<Sum>u\<leftarrow>us. g u * S)" using assms(1) by (intro sum_list_mono) auto
  also have "\<dots> = (\<Sum>u\<leftarrow>us. g u) * S" by (rule sum_list_mult_const)
  also have "\<dots> \<le> S" using mult_right_mono [OF assms(3,2)] by simp
  finally show ?thesis .
qed

lemma deploys_fit:
  assumes "deploys rs la d us" and "holds la us" and "shares_fit la us" and "0 < rs_cache rs" and "0 < rs_mem_bw rs"
  shows "vm_fits rs 0 us d"
proof -
  have u: "of_int (cache_of d u) \<le> cache (the (map_of la u)) * rs_cache rs"
    "of_int (mem_bw_of d u) \<le> mem_bw (the (map_of la u)) * (rs_mem_bw rs * 1024)" if user: "u \<in> set us" for u
  proof -
    obtain a where a: "map_of la u = Some a" "nonneg a" using holdsD [OF assms(2) user] by blast
    have pos: "0 \<le> cache a * rs_cache rs" "0 \<le> mem_bw a * (rs_mem_bw rs * 1024)"
      using a(2) assms(4,5) by (auto simp: nonneg_def)
    have "map_of d u = Some (deployed_units rs a)" using assms(1) user a(1) by (simp add: deploys_def)
    then show "of_int (cache_of d u) \<le> cache (the (map_of la u)) * rs_cache rs"
      "of_int (mem_bw_of d u) \<le> mem_bw (the (map_of la u)) * (rs_mem_bw rs * 1024)"
      using a(1) py_int_le [OF pos(1)] py_int_le [OF pos(2)]
      by (simp_all add: cache_of_def mem_bw_of_def deployed_units_def mult.assoc)
  qed
  show ?thesis unfolding vm_fits_def
    using truncated_shares_le [of us "\<lambda>u. of_int (cache_of d u)" "\<lambda>u. cache (the (map_of la u))", OF u(1)]
      truncated_shares_le [of us "\<lambda>u. of_int (mem_bw_of d u)" "\<lambda>u. mem_bw (the (map_of la u))", OF u(2)] assms(3-5)
    by (simp add: shares_fit_def share_sum_def)
qed

section \<open>Rounds of equal shares\<close>

lemma static_user_eq:
  assumes "0 < n"
  shows "allocate_resources_for_user rs n =
    Inr (deployed_units rs (mk_alloc (1 / of_nat n) (1 / of_nat n)), mk_alloc (1 / of_nat n) (1 / of_nat n))"
  using assms by (simp add: allocate_resources_for_user_def deployed_units_def mult.commute)

lemma static_for_vm_fold:
  assumes "0 < n"
  shows "rfold (\<lambda>u (d, la). rbind (allocate_resources_for_user rs n) (\<lambda>(x, a). Inr (dict_set u x d, dict_set u a la))) us (d, la) =
    Inr (fold (\<lambda>u. dict_set u (deployed_units rs (mk_alloc (1 / of_nat n) (1 / of_nat n)))) us d,
         fold (\<lambda>u. dict_set u (mk_alloc (1 / of_nat n) (1 / of_nat n))) us la)"
  by (induction us arbitrary: d la) (simp_all add: static_user_eq [OF assms])

lemma map_of_fold_set: "map_of (fold (\<lambda>u. dict_set u v) us d) u = (if u \<in> set us then Some v else map_of d u)"
  by (induction us arbitrary: d) auto

lemma wf_fold_set: "wf_dict d \<Longrightarrow> wf_dict (fold (\<lambda>u. dict_set u v) us d)"
  by (induction us arbitrary: d) auto

lemma add_vm_allocation_eq:
  "\<exists>d' la'. add_vm_allocation rs us (d, la) = Inr (d', la') \<and>
    (\<forall>u. map_of la' u = (if u \<in> set us then Some (mk_alloc (1 / of_nat (length us)) (1 / of_nat (length us))) else map_of la u)) \<and>
    (\<forall>u. map_of d' u = (if u \<in> set us
       then Some (deployed_units rs (mk_alloc (1 / of_nat (length us)) (1 / of_nat (length us)))) else map_of d u))"
proof (cases "us = []")
  case False
  then have "0 < length us" by simp
  note eq = static_for_vm_fold [OF this, of rs us "[]" "[]"]
  show ?thesis
    by (simp add: add_vm_allocation_def get_static_allocation_for_vm_def eq map_of_dict_update wf_fold_set map_of_fold_set
        map_add_def)
qed (simp add: add_vm_allocation_def get_static_allocation_for_vm_def)

lemma equal_shares_fit:
  assumes "us \<noteq> []" and "\<And>u. u \<in> set us \<Longrightarrow> map_of la u = Some (mk_alloc (1 / of_nat (length us)) (1 / of_nat (length us)))"
  shows "shares_fit la us"
proof -
  have "share_sum get la us = of_nat (length us) * get (mk_alloc (1 / of_nat (length us)) (1 / of_nat (length us)))"
    for get :: "alloc \<Rightarrow> rat"
    unfolding share_sum_def by (rule sum_list_const_on) (use assms(2) in simp)
  then show ?thesis using assms(1) by (simp add: shares_fit_def)
qed

text \<open>The applications of the VMs of a mapping.\<close>

lemma trade_static_vms:
  assumes "distinct (mapped_apps m)"
  shows "\<exists>d' la'. rfold (\<lambda>(vm, apps). add_vm_allocation rs (trade_vm_apps users apps)) m (d, la) = Inr (d', la') \<and>
    (\<forall>(vm, apps) \<in> set m. shares_fit la' (trade_vm_apps users apps) \<and> holds la' (trade_vm_apps users apps) \<and>
       deploys rs la' d' (trade_vm_apps users apps)) \<and>
    (\<forall>u. u \<notin> set (mapped_apps m) \<longrightarrow> map_of la' u = map_of la u \<and> map_of d' u = map_of d u)"
  using assms
proof (induction m arbitrary: d la)
  case (Cons e m)
  obtain vm apps where e: "e = (vm, apps)" by force
  define us where "us = trade_vm_apps users apps"
  define a where "a = mk_alloc (1 / of_nat (length us)) (1 / of_nat (length us))"
  obtain d1 la1 where one: "add_vm_allocation rs us (d, la) = Inr (d1, la1)"
    "\<And>u. map_of la1 u = (if u \<in> set us then Some a else map_of la u)"
    "\<And>u. map_of d1 u = (if u \<in> set us then Some (deployed_units rs a) else map_of d u)"
    using add_vm_allocation_eq [of rs us d la] unfolding a_def by blast
  have disj: "set apps \<inter> set (mapped_apps m) = {}" "distinct (mapped_apps m)"
    using Cons.prems e by (auto simp: mapped_apps_def)
  obtain d' la' where more: "rfold (\<lambda>(vm, apps). add_vm_allocation rs (trade_vm_apps users apps)) m (d1, la1) = Inr (d', la')"
    "\<forall>(vm, apps) \<in> set m. shares_fit la' (trade_vm_apps users apps) \<and> holds la' (trade_vm_apps users apps) \<and>
       deploys rs la' d' (trade_vm_apps users apps)"
    "\<And>u. u \<notin> set (mapped_apps m) \<Longrightarrow> map_of la' u = map_of la1 u \<and> map_of d' u = map_of d1 u"
    using Cons.IH [OF disj(2), of d1 la1] by blast
  have here: "map_of la' u = Some a" "map_of d' u = Some (deployed_units rs a)" if "u \<in> set us" for u
    using more(3) [of u] one(2,3) [of u] that disj(1) by (auto simp: us_def)
  have "shares_fit la' us"
  proof (cases "us = []")
    case False
    show ?thesis by (rule equal_shares_fit [OF False]) (use here in \<open>simp add: a_def\<close>)
  qed (simp add: shares_fit_def share_sum_def)
  moreover have "holds la' us" "deploys rs la' d' us"
    using here by (auto simp: holds_def deploys_def nonneg_def a_def)
  moreover have "map_of la' u = map_of la u \<and> map_of d' u = map_of d u" if "u \<notin> set (mapped_apps (e # m))" for u
    using more(3) [of u] one(2,3) [of u] that e by (auto simp: us_def mapped_apps_def)
  ultimately show ?case using one(1) more(1,2) e us_def by auto
qed simp

section \<open>The baseline performance\<close>

lemma static_performance_ok:
  assumes "t_last_allocation s = None \<longrightarrow> t_last_static_allocation s = None"
  shows "\<exists>r. static_performance rs m users s = Inr r \<and> (t_last_allocation s = None \<longrightarrow> r = None)"
proof (cases "t_last_static_allocation s")
  case (Some static)
  then obtain la where la: "t_last_allocation s = Some la" using assms by auto
  show ?thesis
  proof (cases "allocation_matches la static users")
    case True
    then have "map_of static u \<noteq> None" if "u \<in> set users" for u
      using that by (fastforce simp: allocation_matches_def list_all_iff split: option.splits)
    then have "returns (rfold (record_static_performance rs m static) users [])"
      unfolding record_static_performance_def by (intro returns_intros) auto
    then show ?thesis using Some la True by (auto simp: static_performance_def returns_def)
  qed (simp add: static_performance_def Some la)
qed (simp add: static_performance_def)

section \<open>Recording a VM's allocation\<close>

lemma record_allocation_fold:
  assumes "wf_dict cur" and "fold (record_allocation rs) cur (la, d) = (la', d')"
  shows "map_of la' = map_of la ++ map_of cur \<and> map_of d' = map_of d ++ (map_option (deployed_units rs) \<circ> map_of cur)"
  using assms
proof (induction cur arbitrary: la d)
  case (Cons e cur)
  obtain u a where e: "e = (u, a)" by force
  have new: "map_of cur u = None" using Cons.prems(1) e by (simp add: map_of_eq_None_iff)
  have "map_of la' = map_of (dict_set u a la) ++ map_of cur \<and>
    map_of d' = map_of (dict_set u (deployed_units rs a) d) ++ (map_option (deployed_units rs) \<circ> map_of cur)"
  proof (rule Cons.IH)
    show "wf_dict cur" using Cons.prems(1) by simp
    show "fold (record_allocation rs) cur (dict_set u a la, dict_set u (deployed_units rs a) d) = (la', d')"
      using Cons.prems(2) e by (simp add: record_allocation_def [of rs "(u, a)"])
  qed
  then show ?case using new e by (auto simp: fun_eq_iff map_add_def split: option.split)
qed (simp add: fun_eq_iff map_add_def)

section \<open>Starting and normalising an allocation\<close>

text \<open>An allocation of a VM: an entry for each of its users and for nobody else.\<close>

definition vm_alloc :: "int list \<Rightarrow> allocs \<Rightarrow> bool" where
  "vm_alloc us cur \<longleftrightarrow> wf_dict cur \<and> set (keys cur) = set us \<and> holds cur us"

lemma vm_allocD: "vm_alloc us cur \<Longrightarrow> u \<in> set us \<Longrightarrow> \<exists>a. map_of cur u = Some a \<and> nonneg a"
  unfolding vm_alloc_def by (blast dest: holdsD)

lemma vm_alloc_set:
  assumes "vm_alloc us cur" and "u \<in> set us" and "nonneg a"
  shows "vm_alloc us (dict_set u a cur)"
proof -
  have "set (keys (dict_set u a cur)) = set us"
    using assms(1,2) unfolding vm_alloc_def set_keys_dict_set by blast
  moreover have "holds (dict_set u a cur) us" using assms by (auto simp: vm_alloc_def holds_def)
  moreover have "wf_dict (dict_set u a cur)" using assms(1) by (simp add: vm_alloc_def)
  ultimately show ?thesis unfolding vm_alloc_def by blast
qed

lemma share_sum_dict_set:
  assumes "distinct us" and "u \<in> set us"
  shows "share_sum get (dict_set u a cur) us = share_sum get cur us - get (the (map_of cur u)) + get a"
  using assms
proof (induction us)
  case (Cons v us)
  show ?case
  proof (cases "u = v")
    case True
    then have "share_sum get (dict_set u a cur) us = share_sum get cur us"
      using Cons.prems(1) by (intro share_sum_cong) auto
    then show ?thesis using True by (simp add: share_sum_def)
  next
    case False
    then show ?thesis using Cons by (auto simp: share_sum_def)
  qed
qed simp

lemma initialize_ok:
  assumes "us \<noteq> []" and "holds la us"
  shows "\<exists>cur. initialize_allocation (Some la) us = Inr cur \<and> vm_alloc us cur \<and>
    (\<forall>u \<in> set us. map_of cur u = map_option (\<lambda>a. mk_alloc (cache a) (mem_bw a)) (map_of la u))"
proof -
  let ?e = "mk_alloc (1 / of_nat (length us)) (1 / of_nat (length us))"
  let ?step = "\<lambda>u cur. case map_of la u of None \<Rightarrow> cur | Some a \<Rightarrow> dict_set u (mk_alloc (cache a) (mem_bw a)) cur"
  let ?start = "fold (\<lambda>u. dict_set u ?e) us []"
  have steps: "map_of (fold ?step vs cur) u =
      (if u \<in> set vs then map_option (\<lambda>a. mk_alloc (cache a) (mem_bw a)) (map_of la u) else map_of cur u)"
    "wf_dict cur \<Longrightarrow> wf_dict (fold ?step vs cur)" if "set vs \<subseteq> set us" for vs cur u
    using that by (induction vs arbitrary: cur) (auto dest!: holdsD [OF assms(2)])
  let ?cur = "fold ?step us ?start"
  have maps: "map_of ?cur u = map_option (\<lambda>a. mk_alloc (cache a) (mem_bw a)) (map_of la u)" if "u \<in> set us" for u
    using steps(1) [of us ?start u] that by simp
  have out: "map_of ?cur u = None" if "u \<notin> set us" for u
    using steps(1) [of us ?start u] that by (simp add: map_of_fold_set)
  have held: "holds ?cur us"
    unfolding holds_def
  proof
    fix u
    assume u: "u \<in> set us"
    then obtain a where "map_of la u = Some a" "nonneg a" using holdsD [OF assms(2)] by blast
    then show "\<exists>a. map_of ?cur u = Some a \<and> nonneg a" using maps [OF u] by (simp add: nonneg_def)
  qed
  have "has_key ?cur u \<longleftrightarrow> u \<in> set us" for u
    using out [of u] holdsD [OF held, of u] by (cases "u \<in> set us") (auto simp: has_key_def)
  then have "set (keys ?cur) = set us" unfolding has_key_iff by blast
  moreover have "wf_dict ?cur" by (rule steps(2) [OF order_refl wf_fold_set]) simp
  ultimately have "vm_alloc us ?cur" unfolding vm_alloc_def using held by blast
  moreover have "initialize_allocation (Some la) us = Inr ?cur"
    using assms(1) by (simp add: initialize_allocation_def Let_def)
  ultimately show ?thesis using maps by blast
qed

lemma initialize_shares:
  assumes "\<forall>u \<in> set us. map_of cur u = map_option (\<lambda>a. mk_alloc (cache a) (mem_bw a)) (map_of la u)" and "holds la us"
  shows "share_sum cache cur us = share_sum cache la us" "share_sum mem_bw cur us = share_sum mem_bw la us"
proof -
  have "get (the (map_of cur u)) = get (the (map_of la u))" if "u \<in> set us" "get = cache \<or> get = mem_bw" for u get
    using holdsD [OF assms(2) that(1)] assms(1) that by auto
  then show "share_sum cache cur us = share_sum cache la us" "share_sum mem_bw cur us = share_sum mem_bw la us"
    unfolding share_sum_def by (auto intro!: arg_cong [where f = sum_list])
qed

lemma sum_shares_eq:
  assumes "holds cur us"
  shows "rfold (\<lambda>u total. rbind (dict_get cur u) (\<lambda>a. Inr (total + get a))) us t = Inr (t + share_sum get cur us)"
  using assms
proof (induction us arbitrary: t)
  case (Cons u us)
  obtain a where a: "map_of cur u = Some a" using holdsD [OF Cons.prems, of u] by auto
  moreover have "holds cur us" using Cons.prems by (simp add: holds_def)
  ultimately show ?case using Cons.IH by (simp add: dict_get_Some [OF a] share_sum_def add.assoc)
qed (simp add: share_sum_def)

lemma normalize_fitting:
  assumes "holds cur us" and "shares_fit cur us"
  shows "normalize_allocations us cur = Inr cur"
  using assms by (simp add: normalize_allocations_def normalize_resource_def sum_shares_eq shares_fit_def)

lemma scale_all:
  assumes "vm_alloc us cur" and "distinct vs" and "set vs \<subseteq> set us" and "\<And>a. nonneg a \<Longrightarrow> nonneg (f a)"
  shows "\<exists>cur'. rfold (\<lambda>u cur. rbind (dict_get cur u) (\<lambda>a. Inr (dict_set u (f a) cur))) vs cur = Inr cur' \<and> vm_alloc us cur' \<and>
    (\<forall>u. map_of cur' u = (if u \<in> set vs then map_option f (map_of cur u) else map_of cur u))"
  using assms(1-3)
proof (induction vs arbitrary: cur)
  case (Cons u vs)
  obtain a where a: "map_of cur u = Some a" "nonneg a"
    using holdsD [of cur us u] Cons.prems by (auto simp: vm_alloc_def)
  have "vm_alloc us (dict_set u (f a) cur)" "distinct vs" "set vs \<subseteq> set us"
    using vm_alloc_set [OF Cons.prems(1)] Cons.prems(2,3) assms(4) a(2) by simp_all
  from Cons.IH [OF this] obtain cur' where "rfold (\<lambda>u cur. rbind (dict_get cur u) (\<lambda>a. Inr (dict_set u (f a) cur))) vs (dict_set u (f a) cur) = Inr cur'"
    "vm_alloc us cur'" "\<forall>w. map_of cur' w = (if w \<in> set vs then map_option f (map_of (dict_set u (f a) cur) w) else map_of (dict_set u (f a) cur) w)"
    by blast
  then show ?case using a(1) Cons.prems(2) by (intro exI [of _ cur']) (auto simp: dict_get_Some)
qed simp

lemma share_sum_map:
  assumes "holds cur us" and "\<And>u. u \<in> set us \<Longrightarrow> map_of cur' u = map_option f (map_of cur u)"
  shows "share_sum get cur' us = share_sum (\<lambda>a. get (f a)) cur us"
proof -
  have "get (the (map_of cur' u)) = get (f (the (map_of cur u)))" if "u \<in> set us" for u
    using holdsD [OF assms(1) that] assms(2) [OF that] by auto
  then show ?thesis unfolding share_sum_def by (auto intro!: arg_cong [where f = sum_list])
qed

text \<open>Normalising one resource makes it fit and keeps the other one.\<close>

lemma normalize_one:
  assumes "vm_alloc us cur" and "distinct us"
    and sel: "\<And>f a. get (upd f a) = f (get a)" "\<And>f a. other (upd f a) = other a"
    and nn: "\<And>a k. nonneg a \<Longrightarrow> 1 < k \<Longrightarrow> nonneg (upd (\<lambda>x. x / k) a)" "\<And>a. nonneg a \<Longrightarrow> 0 \<le> get a"
  shows "\<exists>cur'. normalize_resource get upd us cur = Inr cur' \<and> vm_alloc us cur' \<and> share_sum get cur' us \<le> 1 \<and>
    share_sum other cur' us = share_sum other cur us \<and>
    (\<forall>u \<in> set us. get (the (map_of cur' u)) \<le> get (the (map_of cur u)) \<and> other (the (map_of cur' u)) = other (the (map_of cur u)))"
proof -
  have held: "holds cur us" using assms(1) by (simp add: vm_alloc_def)
  let ?t = "share_sum get cur us"
  show ?thesis
  proof (cases "1 < ?t")
    case True
    obtain cur' where run: "rfold (\<lambda>u cur. rbind (dict_get cur u) (\<lambda>a. Inr (dict_set u (upd (\<lambda>x. x / ?t) a) cur))) us cur = Inr cur'"
      "vm_alloc us cur'" "\<And>u. map_of cur' u = (if u \<in> set us then map_option (upd (\<lambda>x. x / ?t)) (map_of cur u) else map_of cur u)"
      using scale_all [OF assms(1,2) order_refl, of "upd (\<lambda>x. x / ?t)"] nn(1) True by blast
    have "share_sum get cur' us = ?t / ?t" "share_sum other cur' us = share_sum other cur us"
      using share_sum_map [OF held, of cur' "upd (\<lambda>x. x / ?t)"] run(3) sel
      by (simp_all add: share_sum_def sum_list_divide)
    moreover have "get (the (map_of cur' u)) \<le> get (the (map_of cur u)) \<and> other (the (map_of cur' u)) = other (the (map_of cur u))"
      if u: "u \<in> set us" for u
    proof -
      obtain a where a: "map_of cur u = Some a" "nonneg a" using holdsD [OF held u] by blast
      have "get a / ?t \<le> get a" using nn(2) [OF a(2)] True mult_left_mono [of 1 ?t "get a"] by (simp add: pos_divide_le_eq)
      then show ?thesis using run(3) [of u] u a(1) sel by simp
    qed
    ultimately show ?thesis using True run(1,2) sum_shares_eq [OF held, of get 0] by (simp add: normalize_resource_def)
  next
    case False
    then show ?thesis using sum_shares_eq [OF held, of get 0] assms(1) by (simp add: normalize_resource_def)
  qed
qed

lemma normalize_ok:
  assumes "vm_alloc us cur" and "distinct us"
  shows "\<exists>cur'. normalize_allocations us cur = Inr cur' \<and> vm_alloc us cur' \<and> shares_fit cur' us \<and>
    (\<forall>u \<in> set us. cache (the (map_of cur' u)) \<le> cache (the (map_of cur u)) \<and>
       mem_bw (the (map_of cur' u)) \<le> mem_bw (the (map_of cur u)))"
proof -
  obtain c1 where c1: "normalize_resource cache cache_update us cur = Inr c1" "vm_alloc us c1" "share_sum cache c1 us \<le> 1"
    "\<forall>u \<in> set us. cache (the (map_of c1 u)) \<le> cache (the (map_of cur u)) \<and> mem_bw (the (map_of c1 u)) = mem_bw (the (map_of cur u))"
    using normalize_one [OF assms, of cache cache_update mem_bw] by (auto simp: nonneg_def)
  obtain c2 where "normalize_resource mem_bw mem_bw_update us c1 = Inr c2" "vm_alloc us c2" "share_sum mem_bw c2 us \<le> 1"
    "share_sum cache c2 us = share_sum cache c1 us"
    "\<forall>u \<in> set us. mem_bw (the (map_of c2 u)) \<le> mem_bw (the (map_of c1 u)) \<and> cache (the (map_of c2 u)) = cache (the (map_of c1 u))"
    using normalize_one [OF c1(2) assms(2), of mem_bw mem_bw_update cache] by (auto simp: nonneg_def)
  then show ?thesis using c1 by (simp add: normalize_allocations_def shares_fit_def)
qed

section \<open>Rounds of equal shares without a complete mapping\<close>

lemma add_vms_hold:
  assumes "\<forall>u a. map_of la u = Some a \<longrightarrow> nonneg a"
  shows "\<exists>d' la'. rfold (\<lambda>k. add_vm_allocation rs (f k)) ks (d, la) = Inr (d', la') \<and>
    (\<forall>u a. map_of la' u = Some a \<longrightarrow> nonneg a) \<and>
    (\<forall>u. map_of la u \<noteq> None \<or> (\<exists>k \<in> set ks. u \<in> set (f k)) \<longrightarrow> map_of la' u \<noteq> None)"
  using assms
proof (induction ks arbitrary: d la)
  case (Cons k ks)
  obtain d1 la1 where one: "add_vm_allocation rs (f k) (d, la) = Inr (d1, la1)"
    "\<forall>u. map_of la1 u = (if u \<in> set (f k) then Some (mk_alloc (1 / of_nat (length (f k))) (1 / of_nat (length (f k)))) else map_of la u)"
    using add_vm_allocation_eq [of rs "f k" d la] by blast
  have "\<forall>u a. map_of la1 u = Some a \<longrightarrow> nonneg a" using one(2) Cons.prems by (auto simp: nonneg_def split: if_splits)
  from Cons.IH [OF this, of d1] obtain d' la' where
    "rfold (\<lambda>k. add_vm_allocation rs (f k)) ks (d1, la1) = Inr (d', la')" "\<forall>u a. map_of la' u = Some a \<longrightarrow> nonneg a"
    "\<forall>u. map_of la1 u \<noteq> None \<or> (\<exists>k \<in> set ks. u \<in> set (f k)) \<longrightarrow> map_of la' u \<noteq> None"
    by blast
  then show ?case using one by (intro exI [of _ d'] exI [of _ la']) auto
qed simp

text \<open>The virtual VMs hold every user.\<close>

lemma virtual_vms_cover:
  assumes "0 < n" and "u \<in> set users"
  shows "\<exists>k \<in> set [0..<nat n]. u \<in> set (virtual_vm_apps users n k)"
proof -
  define per where "per = max 1 (int (length users) div n)"
  obtain j where j: "j < length users" "u = users ! j" using assms(2) by (metis in_set_conv_nth)
  define k where "k = min (nat (int j div per)) (nat n - 1)"
  have per: "1 \<le> per" by (simp add: per_def)
  have low: "int j div per * per \<le> int j" using div_mult_le_int [of per "int j"] per by simp
  have high: "int j < int j div per * per + per" using div_mult_mod_eq [of "int j" per] pos_mod_bound [of per "int j"] per by linarith
  define a where "a = int k * per"
  define b where "b = (if int k < n - 1 then a + per else int (length users))"
  have q: "0 \<le> int j div per" using per by (simp add: pos_imp_zdiv_nonneg_iff)
  have "k \<le> nat (int j div per)" by (simp add: k_def)
  then have "int k \<le> int j div per" using q by linarith
  then have "a \<le> int j div per * per" unfolding a_def using per by (intro mult_right_mono) simp_all
  then have start: "a \<le> int j" using low by linarith
  have "0 \<le> a" using per by (simp add: a_def)
  have stop: "int j < b"
  proof (cases "int k < n - 1")
    case True
    then have "k \<noteq> nat n - 1" using assms(1) by linarith
    then have "k = nat (int j div per)" unfolding k_def by (metis min_def)
    then have "int k = int j div per" using q by simp
    then show ?thesis using True high by (simp add: b_def a_def)
  qed (use j(1) in \<open>simp add: b_def\<close>)
  have "u = take (nat (b - a)) (drop (nat a) users) ! (j - nat a)" "j - nat a < length (take (nat (b - a)) (drop (nat a) users))"
    using j start stop \<open>0 \<le> a\<close> by auto
  then have "u \<in> set (take (nat (b - a)) (drop (nat a) users))" using nth_mem by metis
  moreover have "virtual_vm_apps users n k = take (nat (b - a)) (drop (nat a) users)"
    by (simp add: virtual_vm_apps_def Let_def a_def b_def per_def)
  moreover have "k \<in> set [0..<nat n]" using assms(1) by (auto simp: k_def)
  ultimately show ?thesis by (intro bexI [of _ k]) simp_all
qed

lemma flat_round_holds:
  assumes "0 < n"
  shows "\<exists>d la. get_static_allocation_with_vm_mapping rs n users m False = Inr (d, la) \<and> holds la users"
proof -
  obtain d la where run: "rfold (\<lambda>k. add_vm_allocation rs (virtual_vm_apps users n k)) [0..<nat n] ([], []) = Inr (d, la)"
    "\<forall>u a. map_of la u = Some a \<longrightarrow> nonneg a"
    "\<And>u. \<exists>k \<in> set [0..<nat n]. u \<in> set (virtual_vm_apps users n k) \<Longrightarrow> map_of la u \<noteq> None"
    using add_vms_hold [of "[]" rs "virtual_vm_apps users n" "[0..<nat n]" "[]"] by auto
  have "holds la users" unfolding holds_def using run(2) run(3) [OF virtual_vms_cover [OF assms]] by blast
  then show ?thesis using run(1) assms by (simp add: get_static_allocation_with_vm_mapping_def)
qed

section \<open>The contract of a trade within a VM\<close>

text \<open>The outcome of a computation: it raises only if it is not \<open>safe\<close>, and otherwise has a property.\<close>

definition outcome :: "bool \<Rightarrow> ('a \<Rightarrow> bool) \<Rightarrow> 'a res \<Rightarrow> bool" where
  "outcome safe P r \<longleftrightarrow> (case r of Inl e \<Rightarrow> \<not> safe | Inr x \<Rightarrow> P x)"

lemma outcome_Inr [simp]: "outcome safe P (Inr x) = P x"
  by (simp add: outcome_def)

lemma outcome_rbind:
  "outcome safe P r \<Longrightarrow> (\<And>x. r = Inr x \<Longrightarrow> P x \<Longrightarrow> outcome safe Q (f x)) \<Longrightarrow> outcome safe Q (rbind r f)"
  by (cases r) (auto simp: outcome_def)

lemma outcome_returns: "outcome True P r \<Longrightarrow> \<exists>x. r = Inr x \<and> P x"
  by (cases r) (auto simp: outcome_def)

text \<open>The state of a trading allocator between rounds; \<open>fit\<close> says whether the last shares have to fit the
  VMs of a mapping.\<close>

definition trade_inv :: "bool \<Rightarrow> int list \<Rightarrow> vm_map \<Rightarrow> 'a trade_scheme \<Rightarrow> bool" where
  "trade_inv fit users m s \<longleftrightarrow>
    (case t_last_allocation s of
       None \<Rightarrow> t_last_static_allocation s = None \<and> t_last_static_performance s = None
     | Some la \<Rightarrow> holds la users \<and> (fit \<longrightarrow> (\<forall>(vm, apps) \<in> set m. shares_fit la (trade_vm_apps users apps))))"

text \<open>A scale as \<open>main_memcached.py\<close> sets it up: positive totals, all limits present, none negative.\<close>

definition trade_scale :: "resource_scale \<Rightarrow> bool" where
  "trade_scale rs \<longleftrightarrow> 0 < rs_cache rs \<and> 0 < rs_mem_bw rs \<and>
     (\<exists>mn mx. rs_min_cache rs = Some mn \<and> rs_max_cache rs = Some mx \<and> 0 \<le> mn) \<and>
     (\<exists>mn mx. rs_min_mem_bw rs = Some mn \<and> rs_max_mem_bw rs = Some mx \<and> 0 \<le> mn)"

definition trade_setup :: "trade_params \<Rightarrow> resource_scale \<Rightarrow> bool" where
  "trade_setup par rs \<longleftrightarrow> trade_scale rs \<and> 0 \<le> tp_search_granularity par"

text \<open>Inputs with a complete VM mapping, for users for which the trade is \<open>ready\<close>.\<close>

definition trade_good ::
  "trade_params \<Rightarrow> resource_scale \<Rightarrow> (trade_input \<Rightarrow> int \<Rightarrow> bool) \<Rightarrow> int list \<Rightarrow> vm_map \<Rightarrow> trade_input \<Rightarrow> bool" where
  "trade_good par rs ready users m i \<longleftrightarrow> trade_setup par rs \<and>
     get_app_ids (ti_estimator i) = Inr users \<and> vm_to_app_map (ti_monitor i) = m \<and>
     complete_vm_map m users \<and> distinct (mapped_apps m) \<and> (\<forall>u \<in> set users. ready i u)"

text \<open>Inputs with any mapping, complete or not.\<close>

definition trade_any :: "trade_params \<Rightarrow> resource_scale \<Rightarrow> int list \<Rightarrow> trade_input \<Rightarrow> bool" where
  "trade_any par rs users i \<longleftrightarrow> trade_setup par rs \<and> get_app_ids (ti_estimator i) = Inr users \<and>
     distinct (mapped_apps (vm_to_app_map (ti_monitor i))) \<and> 0 < get_num_vms (ti_estimator i)"

definition same_static :: "'a trade_scheme \<Rightarrow> 'a trade_scheme \<Rightarrow> bool" where
  "same_static s s' \<longleftrightarrow> t_last_static_allocation s' = t_last_static_allocation s \<and>
     t_last_static_performance s' = t_last_static_performance s"

text \<open>What a successful call of \<open>allocate\<close> promises for a VM's users.\<close>

definition vm_traded :: "('a trade_scheme \<Rightarrow> bool) \<Rightarrow> int list \<Rightarrow> 'a trade_scheme \<Rightarrow> allocs \<Rightarrow> 'a trade_scheme \<times> allocs \<Rightarrow> bool" where
  "vm_traded own us s la st \<longleftrightarrow>
     own (fst st) \<and> same_static s (fst st) \<and> vm_alloc us (snd st) \<and> shares_fit (snd st) us \<and>
     (\<exists>la'. t_last_allocation (fst st) = Some la' \<and> (\<forall>u. u \<notin> set us \<longrightarrow> map_of la' u = map_of la u))"

text \<open>What holds once the trade of one VM, or of several VMs, is recorded.\<close>

definition vm_recorded ::
  "('a trade_scheme \<Rightarrow> bool) \<Rightarrow> resource_scale \<Rightarrow> int list \<Rightarrow> 'a trade_scheme \<Rightarrow> allocs \<Rightarrow> deployment \<Rightarrow>
   'a trade_scheme \<times> deployment \<Rightarrow> bool" where
  "vm_recorded own rs us s la d st \<longleftrightarrow>
    (\<exists>la'. own (fst st) \<and> same_static s (fst st) \<and> t_last_allocation (fst st) = Some la' \<and> holds la' us \<and> shares_fit la' us \<and>
       deploys rs la' (snd st) us \<and> (\<forall>u. u \<notin> set us \<longrightarrow> map_of la' u = map_of la u \<and> map_of (snd st) u = map_of d u))"

definition vms_recorded ::
  "('a trade_scheme \<Rightarrow> bool) \<Rightarrow> resource_scale \<Rightarrow> int list \<Rightarrow> vm_map \<Rightarrow> 'a trade_scheme \<Rightarrow> allocs \<Rightarrow> deployment \<Rightarrow>
   'a trade_scheme \<times> deployment \<Rightarrow> bool" where
  "vms_recorded own rs users es s la d st \<longleftrightarrow>
    (\<exists>la'. own (fst st) \<and> same_static s (fst st) \<and> t_last_allocation (fst st) = Some la' \<and> holds la' users \<and>
       (\<forall>(vm, apps) \<in> set es. shares_fit la' (trade_vm_apps users apps) \<and> deploys rs la' (snd st) (trade_vm_apps users apps)) \<and>
       (\<forall>u. u \<notin> set (mapped_apps es) \<longrightarrow> map_of la' u = map_of la u \<and> map_of (snd st) u = map_of d u))"

lemma deploys_all_fit:
  assumes scale: "trade_scale rs" and "holds la users"
    and "\<forall>(vm, apps) \<in> set m. shares_fit la (trade_vm_apps users apps) \<and> deploys rs la d (trade_vm_apps users apps)"
  shows "fits rs 0 users m d"
  unfolding fits_def
proof (intro ballI case_prodI2)
  fix e vm apps
  assume "e \<in> set m" "e = (vm, apps)"
  then have "deploys rs la d (trade_vm_apps users apps)" "shares_fit la (trade_vm_apps users apps)"
    "holds la (trade_vm_apps users apps)" using assms by (auto simp: holds_def)
  then have "vm_fits rs 0 (trade_vm_apps users apps) d" using deploys_fit scale unfolding trade_scale_def by blast
  then show "vm_fits rs 0 (vm_users users apps) d" by (simp add: vm_fits_def sum_trade_vm_apps)
qed

text \<open>Recording a trade.\<close>

lemma record_traded:
  assumes "vm_traded own us s la (s1, cur)" and "\<And>s x. own s \<Longrightarrow> own (s\<lparr>t_last_allocation := x\<rparr>)"
    and "t_last_allocation s1 = Some la1" and "fold (record_allocation rs) cur (la1, d) = (la', d')"
  shows "vm_recorded own rs us s la d (s1\<lparr>t_last_allocation := Some la'\<rparr>, d')"
proof -
  have cur: "wf_dict cur" "set (keys cur) = set us" "holds cur us" "shares_fit cur us" and s1: "own s1" "same_static s s1"
    using assms(1) unfolding vm_traded_def vm_alloc_def fst_conv snd_conv by blast+
  have la1: "map_of la1 u = map_of la u" if "u \<notin> set us" for u
    using assms(1,3) that unfolding vm_traded_def fst_conv by auto
  have maps: "map_of la' = map_of la1 ++ map_of cur" "map_of d' = map_of d ++ (map_option (deployed_units rs) \<circ> map_of cur)"
    using record_allocation_fold [OF cur(1) assms(4)] by simp_all
  have out: "map_of cur u = None" if "u \<notin> set us" for u
    using that unfolding cur(2) [symmetric] by (simp add: map_of_eq_None_iff)
  have agree: "map_of la' u = map_of cur u" "map_of d' u = map_option (deployed_units rs) (map_of cur u)"
    if u: "u \<in> set us" for u
    using holdsD [OF cur(3) u] maps by (auto simp: map_add_def)
  have "holds la' us" "shares_fit la' us" "deploys rs la' d' us"
    using cur(3,4) agree holds_cong [of us la' cur] shares_fit_cong [of us la' cur] by (auto simp: deploys_def)
  moreover have "map_of la' u = map_of la u \<and> map_of d' u = map_of d u" if "u \<notin> set us" for u
    using out [OF that] la1 [OF that] maps by (simp add: map_add_def)
  ultimately show ?thesis using assms(2) s1 by (simp add: vm_recorded_def same_static_def)
qed

text \<open>Recording more VMs.\<close>

lemma add_recorded:
  assumes "vms_recorded own rs users es s1 la1 d1 st" and "same_static s s1"
    and "holds la1 (trade_vm_apps users apps)" and "shares_fit la1 (trade_vm_apps users apps)"
    and "deploys rs la1 d1 (trade_vm_apps users apps)"
    and "\<And>u. u \<notin> set (trade_vm_apps users apps) \<Longrightarrow> map_of la1 u = map_of la u \<and> map_of d1 u = map_of d u"
    and "set apps \<inter> set (mapped_apps es) = {}"
  shows "vms_recorded own rs users ((vm, apps) # es) s la d st"
proof -
  let ?us = "trade_vm_apps users apps"
  obtain la' where more: "own (fst st)" "same_static s1 (fst st)" "t_last_allocation (fst st) = Some la'" "holds la' users"
    "\<forall>(vm, apps) \<in> set es. shares_fit la' (trade_vm_apps users apps) \<and> deploys rs la' (snd st) (trade_vm_apps users apps)"
    "\<And>u. u \<notin> set (mapped_apps es) \<Longrightarrow> map_of la' u = map_of la1 u \<and> map_of (snd st) u = map_of d1 u"
    using assms(1) unfolding vms_recorded_def by blast
  have keep: "map_of la' u = map_of la1 u" "map_of (snd st) u = map_of d1 u" if "u \<in> set ?us" for u
    using more(6) [of u] that assms(7) by auto
  have "shares_fit la' ?us" "deploys rs la' (snd st) ?us"
    using assms(4,5) shares_fit_cong [of ?us la' la1] deploys_cong [of ?us la' la1 "snd st" d1 rs] keep by simp_all
  moreover have "map_of la' u = map_of la u \<and> map_of (snd st) u = map_of d u" if "u \<notin> set (mapped_apps ((vm, apps) # es))" for u
    using more(6) [of u] assms(6) [of u] that by (auto simp: mapped_apps_def)
  moreover have "same_static s (fst st)" using assms(2) more(2) by (simp add: same_static_def)
  ultimately show ?thesis using more(1,3-5) unfolding vms_recorded_def by (intro exI [of _ la']) auto
qed

text \<open>The contract.  An allocator with \<open>needs_fit\<close> keeps a VM's totals and so promises shares that fit only for
  last shares that fit.\<close>

locale vm_trader =
  fixes update_static :: "resource_scale \<Rightarrow> monitor \<Rightarrow> int list \<Rightarrow> 'a trade_scheme \<Rightarrow> 'a trade_scheme res"
    and allocate_vm :: "trade_input \<Rightarrow> int \<Rightarrow> int list \<Rightarrow> 'a trade_scheme \<Rightarrow> ('a trade_scheme \<times> allocs) res"
    and par :: trade_params
    and rs :: resource_scale
    and ready :: "trade_input \<Rightarrow> int \<Rightarrow> bool"
    and own :: "'a trade_scheme \<Rightarrow> bool"
    and needs_fit :: bool
  assumes own_last: "own s \<Longrightarrow> own (s\<lparr>t_last_allocation := x\<rparr>)"
    and own_static: "own s \<Longrightarrow> own (s\<lparr>t_last_static_allocation := x\<rparr>)"
    and update_static: "trade_setup par rs \<Longrightarrow> own s \<Longrightarrow> (t_last_allocation s = None \<longrightarrow> t_last_static_allocation s = None) \<Longrightarrow>
      \<exists>s'. update_static rs m users s = Inr s' \<and> own s' \<and> t_last_allocation s' = t_last_allocation s \<and>
        t_last_static_allocation s' = t_last_static_allocation s \<and>
        (t_last_allocation s = None \<longrightarrow> t_last_static_performance s' = t_last_static_performance s)"
    and allocate_vm: "trade_setup par rs \<Longrightarrow> own s \<Longrightarrow> t_last_allocation s = Some la \<Longrightarrow> us \<noteq> [] \<Longrightarrow> distinct us \<Longrightarrow> holds la us \<Longrightarrow>
      (needs_fit \<longrightarrow> shares_fit la us) \<Longrightarrow>
      outcome (\<forall>u \<in> set us. ready i u) (vm_traded own us s la) (allocate_vm i vm us s)"
begin

lemma trade_vm_ok:
  assumes config: "trade_setup par rs" and "own s" and "t_last_allocation s = Some la" and "distinct apps"
    and "holds la (trade_vm_apps users apps)" and "needs_fit \<longrightarrow> shares_fit la (trade_vm_apps users apps)"
  shows "outcome (\<forall>u \<in> set users. ready i u) (vm_recorded own rs (trade_vm_apps users apps) s la d)
    (trade_vm (allocate_vm i) rs users (vm, apps) (s, d))"
proof (cases "trade_vm_apps users apps = []")
  case True
  then show ?thesis using assms(2,3)
    by (simp add: trade_vm_def vm_recorded_def same_static_def holds_def shares_fit_def share_sum_def deploys_def)
next
  case False
  let ?us = "trade_vm_apps users apps"
  have "outcome (\<forall>u \<in> set ?us. ready i u) (vm_traded own ?us s la) (allocate_vm i vm ?us s)"
    by (rule allocate_vm [OF assms(1-3) False distinct_trade_vm_apps [OF assms(4)] assms(5,6)])
  then have *: "outcome (\<forall>u \<in> set users. ready i u) (vm_traded own ?us s la) (allocate_vm i vm ?us s)"
    by (cases "allocate_vm i vm ?us s") (auto simp: outcome_def)
  have step: "outcome (\<forall>u \<in> set users. ready i u) (vm_recorded own rs ?us s la d)
      (case t_last_allocation s1 of
         None \<Rightarrow> if cur = [] then Inr (s1, d) else Inl TypeError
       | Some la \<Rightarrow> (case fold (record_allocation rs) cur (la, d) of (la', d') \<Rightarrow> Inr (s1\<lparr>t_last_allocation := Some la'\<rparr>, d')))"
    if tr: "vm_traded own ?us s la (s1, cur)" for s1 cur
  proof -
    obtain la1 where la1: "t_last_allocation s1 = Some la1" using tr by (auto simp: vm_traded_def)
    obtain la' d' where "fold (record_allocation rs) cur (la1, d) = (la', d')" by force
    then show ?thesis using la1 record_traded [OF tr own_last la1] by simp
  qed
  show ?thesis unfolding trade_vm_def Let_def prod.case fst_conv snd_conv if_not_P [OF False]
  proof (rule outcome_rbind [OF *])
    fix x
    assume "vm_traded own ?us s la x"
    moreover obtain s1 cur where "x = (s1, cur)" by force
    ultimately show "outcome (\<forall>u \<in> set users. ready i u) (vm_recorded own rs ?us s la d)
      (case x of (s1, cur) \<Rightarrow>
        (case t_last_allocation s1 of
           None \<Rightarrow> if cur = [] then Inr (s1, d) else Inl TypeError
         | Some la \<Rightarrow> (case fold (record_allocation rs) cur (la, d) of (la', d') \<Rightarrow> Inr (s1\<lparr>t_last_allocation := Some la'\<rparr>, d'))))"
      using step [of s1 cur] by simp
  qed
qed

lemma trade_vms_ok:
  assumes config: "trade_setup par rs" and "own s" and "t_last_allocation s = Some la" and "distinct (mapped_apps es)" and "holds la users"
    and "needs_fit \<longrightarrow> (\<forall>(vm, apps) \<in> set es. shares_fit la (trade_vm_apps users apps))"
  shows "outcome (\<forall>u \<in> set users. ready i u) (vms_recorded own rs users es s la d)
    (rfold (trade_vm (allocate_vm i) rs users) es (s, d))"
  using assms(2-6)
proof (induction es arbitrary: s d la)
  case Nil
  then show ?case by (auto simp: vms_recorded_def same_static_def)
next
  case (Cons e es)
  obtain vm apps where e: "e = (vm, apps)" by force
  let ?us = "trade_vm_apps users apps" and ?R = "\<forall>u \<in> set users. ready i u"
  have disj: "distinct apps" "distinct (mapped_apps es)" "set apps \<inter> set (mapped_apps es) = {}"
    using Cons.prems(3) e by (auto simp: mapped_apps_def)
  have "outcome ?R (vm_recorded own rs ?us s la d) (trade_vm (allocate_vm i) rs users (vm, apps) (s, d))"
    by (rule trade_vm_ok [OF config Cons.prems(1,2) disj(1)]) (use Cons.prems(4,5) e in \<open>auto simp: holds_def\<close>)
  then have "outcome ?R (vms_recorded own rs users (e # es) s la d)
      (rbind (trade_vm (allocate_vm i) rs users (vm, apps) (s, d)) (rfold (trade_vm (allocate_vm i) rs users) es))"
  proof (rule outcome_rbind)
    fix st1
    assume "vm_recorded own rs ?us s la d st1"
    then obtain s1 d1 la1 where st1: "st1 = (s1, d1)" and one: "own s1" "same_static s s1" "t_last_allocation s1 = Some la1"
      "holds la1 ?us" "shares_fit la1 ?us" "deploys rs la1 d1 ?us"
      "\<And>u. u \<notin> set ?us \<Longrightarrow> map_of la1 u = map_of la u \<and> map_of d1 u = map_of d u"
      by (cases st1) (auto simp: vm_recorded_def)
    have held: "holds la1 users" unfolding holds_def using one(4,7) Cons.prems(4) by (metis holds_def)
    have fit: "needs_fit \<longrightarrow> (\<forall>(vm, apps) \<in> set es. shares_fit la1 (trade_vm_apps users apps))"
    proof (intro impI ballI case_prodI2)
      fix e' vm' apps'
      assume *: needs_fit "e' \<in> set es" "e' = (vm', apps')"
      then have "set apps' \<subseteq> set (mapped_apps es)" by (auto simp: mapped_apps_def)
      then have "shares_fit la1 (trade_vm_apps users apps') = shares_fit la (trade_vm_apps users apps')"
        using disj(3) one(7) by (intro shares_fit_cong) auto
      then show "shares_fit la1 (trade_vm_apps users apps')" using Cons.prems(5) * by auto
    qed
    from Cons.IH [OF one(1,3) disj(2) held fit, of d1]
    show "outcome ?R (vms_recorded own rs users (e # es) s la d) (rfold (trade_vm (allocate_vm i) rs users) es st1)"
      unfolding st1
    proof (cases "rfold (trade_vm (allocate_vm i) rs users) es (s1, d1)")
      case (Inr st2)
      with Cons.IH [OF one(1,3) disj(2) held fit, of d1] have "vms_recorded own rs users es s1 la1 d1 st2" by simp
      then show "outcome ?R (vms_recorded own rs users (e # es) s la d) (rfold (trade_vm (allocate_vm i) rs users) es (s1, d1))"
        using add_recorded [OF _ one(2) one(4-7) disj(3)] Inr e by simp
    qed (auto simp: outcome_def)
  qed
  then show ?case using e by simp
qed

end

context vm_trader
begin

lemma trade_round_complete:
  assumes config: "trade_setup par rs" and in_m: "get_app_ids (ti_estimator i) = Inr users" "get_vm_to_app_mapping (ti_monitor i) = m"
    "complete_vm_map m users" "distinct (mapped_apps m)" and inv: "trade_inv needs_fit users m s" "own s"
  shows "outcome (\<forall>u \<in> set users. ready i u) (\<lambda>(s', d). own s' \<and> trade_inv needs_fit users m s' \<and> fits rs 0 users m d)
    (trade_allocate_and_parse update_static allocate_vm par rs i s)"
proof -
  have scale: "trade_scale rs" using config by (simp add: trade_setup_def)
  have none: "t_last_allocation s = None \<longrightarrow> t_last_static_allocation s = None" using inv(1) by (auto simp: trade_inv_def)
  obtain s1 where s1: "update_static rs (ti_monitor i) users s = Inr s1" "own s1"
    "t_last_allocation s1 = t_last_allocation s" "t_last_static_allocation s1 = t_last_static_allocation s"
    "t_last_allocation s = None \<longrightarrow> t_last_static_performance s1 = t_last_static_performance s"
    using update_static [OF config inv(2) none, of "ti_monitor i" users] by (elim exE conjE)
  note round = trade_allocate_and_parse_def [of update_static allocate_vm par rs i s] Let_def in_m(1,2) rbind_Inr
  show ?thesis
  proof (cases "is_static_allocation par (ti_skip_monitoring i) users (ti_monitor i) s1")
    case True
    obtain d la where st: "rfold (\<lambda>(vm, apps). add_vm_allocation rs (trade_vm_apps users apps)) m ([], []) = Inr (d, la)"
      "\<forall>(vm, apps) \<in> set m. shares_fit la (trade_vm_apps users apps) \<and> holds la (trade_vm_apps users apps) \<and>
       deploys rs la d (trade_vm_apps users apps)"
      using trade_static_vms [OF in_m(4), of rs users "[]" "[]"] by blast
    have held: "holds la users"
      unfolding holds_def
    proof
      fix u
      assume u: "u \<in> set users"
      then obtain vm apps where "(vm, apps) \<in> set m" "u \<in> set apps"
        using in_m(3) by (auto simp: complete_vm_map_def mapped_apps_def)
      then show "\<exists>a. map_of la u = Some a \<and> nonneg a" using st(2) u holdsD [of la "trade_vm_apps users apps" u] by auto
    qed
    let ?s' = "s1\<lparr>t_last_allocation := Some la, t_last_static_allocation := Some la\<rparr>"
    have "fits rs 0 users m d" by (rule deploys_all_fit [OF scale held]) (use st(2) in auto)
    moreover have "own ?s'" by (intro own_static own_last s1(2))
    moreover have "trade_inv needs_fit users m ?s'" using held st(2) by (auto simp: trade_inv_def)
    ultimately show ?thesis unfolding round
      using True in_m(3) s1(1) st(1) by (simp add: get_static_allocation_with_vm_mapping_def)
  next
    case False
    then obtain la where la: "t_last_allocation s1 = Some la"
      using inv(1) s1(3,5) by (cases "t_last_allocation s") (auto simp: is_static_allocation_def trade_inv_def)
    then have "holds la users" "needs_fit \<longrightarrow> (\<forall>(vm, apps) \<in> set m. shares_fit la (trade_vm_apps users apps))"
      using inv(1) s1(3) by (simp_all add: trade_inv_def)
    note rec = trade_vms_ok [OF config s1(2) la in_m(4) this, of i "[]"]
    have "own (fst st) \<and> trade_inv needs_fit users m (fst st) \<and> fits rs 0 users m (snd st)"
      if recorded: "vms_recorded own rs users m s1 la [] st" for st
    proof -
      obtain la' where "own (fst st)" "t_last_allocation (fst st) = Some la'" and la': "holds la' users"
        "\<forall>(vm, apps) \<in> set m. shares_fit la' (trade_vm_apps users apps) \<and> deploys rs la' (snd st) (trade_vm_apps users apps)"
        using recorded unfolding vms_recorded_def by blast
      then show ?thesis using deploys_all_fit [OF scale la'] by (auto simp: trade_inv_def)
    qed
    then show ?thesis unfolding round
      using False in_m(3) s1(1) rec by (auto simp: outcome_def split: sum.splits prod.splits)
  qed
qed

lemma trade_round_flat:
  assumes "get_app_ids (ti_estimator i) = Inr users" and "\<not> complete_vm_map (vm_to_app_map (ti_monitor i)) users"
    and "0 < get_num_vms (ti_estimator i)" and "own s"
  shows "\<exists>s' d. trade_allocate_and_parse update_static allocate_vm par rs i s = Inr (s', d) \<and> own s' \<and> trade_inv False users [] s'"
proof -
  obtain d la where run: "get_static_allocation_with_vm_mapping rs (get_num_vms (ti_estimator i)) users
      (vm_to_app_map (ti_monitor i)) False = Inr (d, la)" "holds la users"
    using flat_round_holds [OF assms(3), of rs users "vm_to_app_map (ti_monitor i)"] by blast
  let ?s' = "s\<lparr>t_last_allocation := Some la, t_last_static_allocation := Some la\<rparr>"
  have "trade_allocate_and_parse update_static allocate_vm par rs i s = Inr (?s', d)"
    unfolding trade_allocate_and_parse_def Let_def get_vm_to_app_mapping_def assms(1) rbind_Inr
    using assms(2) run(1) by simp
  moreover have "own ?s'" by (intro own_static own_last assms(4))
  ultimately show ?thesis using run(2) by (auto simp: trade_inv_def)
qed

end

text \<open>Hence a trading allocator is an allocator that never raises and never overcommits a VM, as long as the
  mapping stays the same.\<close>

sublocale vm_trader \<subseteq> tr: total_allocator "trade_allocate_and_parse update_static allocate_vm par rs"
  "trade_good par rs ready users m" "\<lambda>s. own s \<and> trade_inv needs_fit users m s" "\<lambda>_. fits rs 0 users m" for users m
proof unfold_locales
  fix i s s' d
  assume run: "trade_allocate_and_parse update_static allocate_vm par rs i s = Inr (s', d)"
    and good: "trade_good par rs ready users m i" and inv: "own s \<and> trade_inv needs_fit users m s"
  show "own s' \<and> trade_inv needs_fit users m s'" "fits rs 0 users m d"
    using trade_round_complete [of i users m s] good inv run by (auto simp: trade_good_def get_vm_to_app_mapping_def)
next
  fix i s
  assume good: "trade_good par rs ready users m i" and inv: "own s \<and> trade_inv needs_fit users m s"
  then show "returns (trade_allocate_and_parse update_static allocate_vm par rs i s)"
    using trade_round_complete [of i users m s]
    by (auto simp: trade_good_def get_vm_to_app_mapping_def returns_def outcome_def split: sum.splits)
qed

text \<open>A trader that needs nothing of the last shares never overcommits a VM whatever mapping comes.\<close>

locale free_trader = vm_trader update_static allocate_vm par rs ready own False
  for update_static :: "resource_scale \<Rightarrow> monitor \<Rightarrow> int list \<Rightarrow> 'a trade_scheme \<Rightarrow> 'a trade_scheme res"
    and allocate_vm par rs ready own

sublocale free_trader \<subseteq> tv: vm_allocator "trade_allocate_and_parse update_static allocate_vm par rs"
  "trade_any par rs users" "\<lambda>s. own s \<and> trade_inv False users [] s"
  "\<lambda>i d. complete_vm_map (vm_to_app_map (ti_monitor i)) users \<longrightarrow> fits rs 0 users (vm_to_app_map (ti_monitor i)) d" for users
proof -
  have *: "(own s' \<and> trade_inv False users [] s') \<and>
      (complete_vm_map (vm_to_app_map (ti_monitor i)) users \<longrightarrow> fits rs 0 users (vm_to_app_map (ti_monitor i)) d)"
    if "trade_any par rs users i" "own s" "trade_inv False users [] s"
      "trade_allocate_and_parse update_static allocate_vm par rs i s = Inr (s', d)" for i s s' d
  proof (cases "complete_vm_map (vm_to_app_map (ti_monitor i)) users")
    case True
    have "trade_inv False users (vm_to_app_map (ti_monitor i)) s" using that(3) by (auto simp: trade_inv_def split: option.splits)
    then show ?thesis
      using trade_round_complete [of i users "vm_to_app_map (ti_monitor i)" s] that True
      by (auto simp: trade_any_def get_vm_to_app_mapping_def trade_inv_def split: option.splits)
  next
    case False
    then show ?thesis using trade_round_flat [of i users s] that by (auto simp: trade_any_def)
  qed
  show "vm_allocator (trade_allocate_and_parse update_static allocate_vm par rs) (trade_any par rs users)
    (\<lambda>s. own s \<and> trade_inv False users [] s)
    (\<lambda>i d. complete_vm_map (vm_to_app_map (ti_monitor i)) users \<longrightarrow> fits rs 0 users (vm_to_app_map (ti_monitor i)) d)"
    by unfold_locales (use * in blast)+
qed

text \<open>What a round returns is a dictionary.\<close>

lemma wf_record_allocation: "fold (record_allocation rs) cur (la, d) = (la', d') \<Longrightarrow> wf_dict d \<Longrightarrow> wf_dict d'"
  by (induction cur arbitrary: la d) (auto simp: record_allocation_def)

lemma wf_add_vms:
  assumes "rfold body ks st = Inr st'" and "\<And>k. \<exists>us. body k = add_vm_allocation rs us" and "wf_dict (fst st)"
  shows "wf_dict (fst st')"
  using assms(1)
proof (rule rfold_invariant [where P = "\<lambda>st. wf_dict (fst st)"])
  fix k st1 st2
  assume "wf_dict (fst st1)" "body k st1 = Inr st2"
  then show "wf_dict (fst st2)"
    using assms(2) [of k] by (auto simp: add_vm_allocation_def rbind_eq_Inr)
qed (rule assms(3))

lemma wf_static_round:
  assumes "get_static_allocation_with_vm_mapping rs n users m b = Inr (d, la)"
  shows "wf_dict d"
proof (cases b)
  case True
  then have "rfold (\<lambda>(vm, apps). add_vm_allocation rs (trade_vm_apps users apps)) m ([], []) = Inr (d, la)"
    using assms by (simp add: get_static_allocation_with_vm_mapping_def)
  from wf_add_vms [OF this, of rs] show ?thesis by (auto split: prod.splits)
next
  case False
  then have "rfold (\<lambda>k. add_vm_allocation rs (virtual_vm_apps users n k)) [0..<nat n] ([], []) = Inr (d, la)"
    using assms by (simp add: get_static_allocation_with_vm_mapping_def split: if_splits)
  from wf_add_vms [OF this, of rs] show ?thesis by auto
qed

lemma wf_trade_vm:
  assumes "trade_vm allocate_vm rs users e st = Inr st'" and "wf_dict (snd st)"
  shows "wf_dict (snd st')"
  using assms
  by (auto simp: trade_vm_def Let_def rbind_eq_Inr split: prod.splits if_splits option.splits
      intro: wf_record_allocation)

lemma wf_trade:
  assumes "trade_allocate_and_parse update_static allocate_vm par rs i s = Inr (s', d)"
  shows "wf_dict d"
proof -
  have "wf_dict (snd st')" if "rfold (trade_vm f rs users) m (s1, []) = Inr st'" for f users m s1 and st' :: "'a trade_scheme \<times> deployment"
    using that by (rule rfold_invariant [where P = "\<lambda>st. wf_dict (snd st)"]) (auto intro: wf_trade_vm)
  then show ?thesis
    using assms by (fastforce simp: trade_allocate_and_parse_def Let_def rbind_eq_Inr split: if_splits dest: wf_static_round)
qed

end
