(* ===== verification/Fij.thy ===== *)
theory Fij
  imports Trade_Rounds
begin

text \<open>
  \<open>src/res_allocation/allocators/fij_trade_allocator.py\<close>: in each VM the allocator looks for a user that
  gains from more cache and less bandwidth and one that gains from the opposite, and lets them trade one
  unit of each.  The theory has the model, the proof that a trade makes both partners better off, keeps
  the totals and respects the limits they trade towards, and the interpretation of \<open>vm_trader\<close> that gives
  the guarantees for all rounds.

  The state is that of \<open>Trade\<close>; user ids are integers, so the code's tests of a user id for truth reject
  the id 0.
\<close>

section \<open>Sensitivity\<close>

record sensitivity =
  cache_sensitivity :: rat
  bw_sensitivity :: rat
  current_perf :: rat

text \<open>The limits of the scale as shares; a missing maximum is the whole.\<close>

definition limit_shares :: "resource_scale \<Rightarrow> (rat \<times> rat \<times> rat \<times> rat) res" where
  "limit_shares rs =
     rbind (fdiv (lb_of (rs_min_cache rs)) (rs_cache rs)) (\<lambda>min_cache_norm.
     rbind (fdiv (case rs_max_cache rs of None \<Rightarrow> rs_cache rs | Some x \<Rightarrow> x) (rs_cache rs)) (\<lambda>max_cache_norm.
     rbind (fdiv (lb_of (rs_min_mem_bw rs)) (rs_mem_bw rs)) (\<lambda>min_mem_bw_norm.
     rbind (fdiv (case rs_max_mem_bw rs of None \<Rightarrow> rs_mem_bw rs | Some x \<Rightarrow> x) (rs_mem_bw rs)) (\<lambda>max_mem_bw_norm.
     Inr (min_cache_norm, max_cache_norm, min_mem_bw_norm, max_mem_bw_norm)))))"

definition utility :: "estimation \<Rightarrow> resource_scale \<Rightarrow> int \<Rightarrow> rat \<Rightarrow> rat \<Rightarrow> rat res" where
  "utility est rs user c b = est user (c * rs_cache rs) (b * rs_mem_bw rs)"

definition relative_gain :: "rat option \<Rightarrow> rat \<Rightarrow> rat res" where
  "relative_gain perf current = (case perf of None \<Rightarrow> Inr 0 | Some x \<Rightarrow> fdiv (x - current) current)"

definition user_sensitivity :: "estimation \<Rightarrow> resource_scale \<Rightarrow> rat \<Rightarrow> int \<Rightarrow> alloc \<Rightarrow> sensitivity res" where
  "user_sensitivity est rs unit user a =
     rbind (utility est rs user (cache a) (mem_bw a)) (\<lambda>current.
     rbind (limit_shares rs) (\<lambda>(min_c, max_c, min_b, max_b).
     rbind (if cache a + unit \<le> max_c \<and> mem_bw a - unit \<ge> min_b
            then rbind (utility est rs user (cache a + unit) (mem_bw a - unit)) (\<lambda>x. Inr (Some x))
            else Inr None) (\<lambda>more_cache_less_bw_perf.
     rbind (if cache a - unit \<ge> min_c \<and> mem_bw a + unit \<le> max_b
            then rbind (utility est rs user (cache a - unit) (mem_bw a + unit)) (\<lambda>x. Inr (Some x))
            else Inr None) (\<lambda>less_cache_more_bw_perf.
     rbind (relative_gain more_cache_less_bw_perf current) (\<lambda>cs.
     rbind (relative_gain less_cache_more_bw_perf current) (\<lambda>bs.
     Inr \<lparr>cache_sensitivity = cs, bw_sensitivity = bs, current_perf = current\<rparr>))))))"

definition calculate_sensitivity_scores ::
  "estimation \<Rightarrow> resource_scale \<Rightarrow> rat \<Rightarrow> int list \<Rightarrow> allocs \<Rightarrow> int set \<Rightarrow> (int, sensitivity) dict res" where
  "calculate_sensitivity_scores est rs unit users cur adjusted =
     rfold (\<lambda>user scores.
       case map_of cur user of
         None \<Rightarrow> Inr scores
       | Some a \<Rightarrow>
           if user \<in> adjusted then Inr scores
           else rbind (user_sensitivity est rs unit user a) (\<lambda>s. Inr (dict_set user s scores))) users []"

section \<open>Trading partners\<close>

definition find_most_cache_sensitive_user :: "(int, sensitivity) dict \<Rightarrow> int option" where
  "find_most_cache_sensitive_user scores =
     fst (fold (\<lambda>(user, s) (best, best_score).
       if cache_sensitivity s > 0 \<and> cache_sensitivity s > bw_sensitivity s \<and>
          (best = None \<or> cache_sensitivity s > best_score)
       then (Some user, cache_sensitivity s) else (best, best_score)) scores (None, 0))"

definition find_most_bw_sensitive_user :: "(int, sensitivity) dict \<Rightarrow> int option \<Rightarrow> int option" where
  "find_most_bw_sensitive_user scores exclude_user =
     fst (fold (\<lambda>(user, s) (best, best_score).
       if Some user = exclude_user then (best, best_score)
       else if bw_sensitivity s > 0 \<and> bw_sensitivity s > cache_sensitivity s \<and>
          (best = None \<or> bw_sensitivity s > best_score)
       then (Some user, bw_sensitivity s) else (best, best_score)) scores (None, 0))"

text \<open>The truth value of a user id or \<open>None\<close>.\<close>

definition truthy :: "int option \<Rightarrow> bool" where
  "truthy u = (case u of None \<Rightarrow> False | Some n \<Rightarrow> n \<noteq> 0)"

section \<open>The trade\<close>

definition mark_adjusted :: "int \<Rightarrow> int \<Rightarrow> int \<Rightarrow> 'a trade_scheme \<Rightarrow> 'a trade_scheme" where
  "mark_adjusted vm_id u v self =
     self\<lparr>last_adjusted_users := dict_set vm_id (insert v (insert u (adjusted_users self vm_id))) (last_adjusted_users self)\<rparr>"

text \<open>The performance before the trade is read, but not used.\<close>

definition trade_resources ::
  "resource_scale \<Rightarrow> monitor \<Rightarrow> int \<Rightarrow> rat \<Rightarrow> int option \<Rightarrow> int option \<Rightarrow> allocs \<Rightarrow> trade \<Rightarrow> (trade \<times> allocs) res" where
  "trade_resources rs m vm_id unit cache_user bw_user cur self =
    (case (cache_user, bw_user) of
       (Some u, Some v) \<Rightarrow>
         if \<not> truthy cache_user \<or> \<not> truthy bw_user then Inr (self, cur)
         else
           let la = (case t_last_allocation self of None \<Rightarrow> [] | Some la \<Rightarrow> la);
               old_cache_perf = get_current_performance rs m la u;
               old_bw_perf = get_current_performance rs m la v
           in
           rbind (dict_get cur u) (\<lambda>a.
           let cur = dict_set u (a\<lparr>cache := cache a + unit, mem_bw := mem_bw a - unit\<rparr>) cur in
           rbind (dict_get cur v) (\<lambda>b.
           let cur = dict_set v (b\<lparr>mem_bw := mem_bw b + unit, cache := cache b - unit\<rparr>) cur in
           Inr (mark_adjusted vm_id u v self, cur)))
     | _ \<Rightarrow> Inr (self, cur))"

definition fij_allocate ::
  "estimation \<Rightarrow> resource_scale \<Rightarrow> monitor \<Rightarrow> rat \<Rightarrow> int \<Rightarrow> int list \<Rightarrow> trade \<Rightarrow> (trade \<times> allocs) res" where
  "fij_allocate est rs m search_granularity vm_id users self =
    (let self = (if has_key (last_adjusted_users self) vm_id then self
                 else self\<lparr>last_adjusted_users := dict_set vm_id {} (last_adjusted_users self)\<rparr>)
     in
     rbind (initialize_allocation (t_last_allocation self) users) (\<lambda>cur.
     rbind (calculate_sensitivity_scores est rs search_granularity users cur (adjusted_users self vm_id)) (\<lambda>scores.
     let self = self\<lparr>last_adjusted_users := dict_set vm_id {} (last_adjusted_users self)\<rparr>;
         cache_user = find_most_cache_sensitive_user scores;
         bw_user = find_most_bw_sensitive_user scores cache_user
     in
     rbind (case (cache_user, bw_user) of
              (Some u, Some v) \<Rightarrow>
                if truthy cache_user \<and> truthy bw_user
                then rbind (trade_resources rs m vm_id search_granularity cache_user bw_user cur self) (\<lambda>(self, cur).
                     Inr (mark_adjusted vm_id u v self, cur))
                else Inr (self, cur)
            | _ \<Rightarrow> Inr (self, cur)) (\<lambda>(self, cur).
     rbind (normalize_allocations users cur) (\<lambda>cur.
     Inr (self, cur))))))"

section \<open>A round\<close>

definition fij_update_last_static_performance ::
  "resource_scale \<Rightarrow> monitor \<Rightarrow> int list \<Rightarrow> trade \<Rightarrow> trade res" where
  "fij_update_last_static_performance rs m users self =
     rbind (static_performance rs m users self) (\<lambda>perfs.
     Inr (case perfs of None \<Rightarrow> self | Some p \<Rightarrow> self\<lparr>t_last_static_performance := Some p\<rparr>))"

definition fij_allocate_vm ::
  "trade_params \<Rightarrow> resource_scale \<Rightarrow> trade_input \<Rightarrow> int \<Rightarrow> int list \<Rightarrow> trade \<Rightarrow> (trade \<times> allocs) res" where
  "fij_allocate_vm par rs i vm_id vm_apps self =
     fij_allocate (get_estimation (ti_env i)) rs (ti_monitor i) (tp_search_granularity par) vm_id vm_apps self"

definition fij_allocate_and_parse ::
  "trade_params \<Rightarrow> resource_scale \<Rightarrow> trade_input \<Rightarrow> trade \<Rightarrow> (trade \<times> deployment) res" where
  "fij_allocate_and_parse par rs i self =
     trade_allocate_and_parse fij_update_last_static_performance (fij_allocate_vm par rs) par rs i self"

section \<open>Partners gain\<close>

text \<open>A change of a user's allocation that its estimate prefers.\<close>

definition gains :: "estimation \<Rightarrow> resource_scale \<Rightarrow> int \<Rightarrow> alloc \<Rightarrow> alloc \<Rightarrow> bool" where
  "gains est rs u a a' \<longleftrightarrow>
    (\<exists>p x. utility est rs u (cache a) (mem_bw a) = Inr p \<and> utility est rs u (cache a') (mem_bw a') = Inr x \<and> 0 < p \<and> p < x)"

text \<open>The share towards which a partner trades stays below its maximum, the other one above its minimum.\<close>

definition limits_kept :: "resource_scale \<Rightarrow> alloc \<Rightarrow> alloc \<Rightarrow> bool" where
  "limits_kept rs a a' \<longleftrightarrow>
     (cache a < cache a' \<longrightarrow> cache a' * rs_cache rs \<le> the (rs_max_cache rs)) \<and>
     (cache a' < cache a \<longrightarrow> the (rs_min_cache rs) \<le> cache a' * rs_cache rs) \<and>
     (mem_bw a < mem_bw a' \<longrightarrow> mem_bw a' * rs_mem_bw rs \<le> the (rs_max_mem_bw rs)) \<and>
     (mem_bw a' < mem_bw a \<longrightarrow> the (rs_min_mem_bw rs) \<le> mem_bw a' * rs_mem_bw rs)"

abbreviation buy_cache :: "rat \<Rightarrow> alloc \<Rightarrow> alloc" where
  "buy_cache unit a \<equiv> a\<lparr>cache := cache a + unit, mem_bw := mem_bw a - unit\<rparr>"

abbreviation buy_bw :: "rat \<Rightarrow> alloc \<Rightarrow> alloc" where
  "buy_bw unit a \<equiv> a\<lparr>mem_bw := mem_bw a + unit, cache := cache a - unit\<rparr>"

lemma limit_shares_eq:
  assumes "trade_scale rs"
  shows "limit_shares rs = Inr (the (rs_min_cache rs) / rs_cache rs, the (rs_max_cache rs) / rs_cache rs,
    the (rs_min_mem_bw rs) / rs_mem_bw rs, the (rs_max_mem_bw rs) / rs_mem_bw rs)"
  using assms by (auto simp: trade_scale_def limit_shares_def lb_of_def)

text \<open>An estimator that returns a positive utility or the marker \<open>-1\<close>.\<close>

locale marked_estimator = utility_estimator +
  assumes marks: "est e u c b = Inr v \<Longrightarrow> v = - 1 \<or> 0 < v"
begin

lemma relative_gain_positive:
  assumes "utility (est e) rs u c b = Inr p" and "relative_gain x p = Inr g" and "0 < g"
    and "\<And>v. x = Some v \<Longrightarrow> utility (est e) rs u c' b' = Inr v"
  shows "\<exists>v. x = Some v \<and> utility (est e) rs u c' b' = Inr v \<and> 0 < p \<and> p < v"
proof -
  obtain v where v: "x = Some v" "p \<noteq> 0" "g = (v - p) / p"
    using assms(2,3) by (cases x) (auto simp: relative_gain_def fdiv_eq_Inr)
  have "p = - 1 \<or> 0 < p" "v = - 1 \<or> 0 < v"
    using marks assms(1) assms(4) [OF v(1)] unfolding utility_def by blast+
  then show ?thesis using v assms(3) assms(4) [OF v(1)] by (auto simp: zero_less_divide_iff)
qed

lemma sensitivity_gains:
  assumes "user_sensitivity (est e) rs unit u a = Inr s" and "trade_scale rs" and "0 \<le> unit"
  shows "0 < cache_sensitivity s \<Longrightarrow> gains (est e) rs u a (buy_cache unit a) \<and> limits_kept rs a (buy_cache unit a) \<and>
      0 \<le> mem_bw a - unit"
    and "0 < bw_sensitivity s \<Longrightarrow> gains (est e) rs u a (buy_bw unit a) \<and> limits_kept rs a (buy_bw unit a) \<and>
      0 \<le> cache a - unit"
proof -
  note scale = assms(2) [unfolded trade_scale_def]
  have low: "0 \<le> the (rs_min_mem_bw rs) / rs_mem_bw rs" "0 \<le> the (rs_min_cache rs) / rs_cache rs" using scale by auto
  obtain p more less where run: "utility (est e) rs u (cache a) (mem_bw a) = Inr p"
    "(if cache a + unit \<le> the (rs_max_cache rs) / rs_cache rs \<and> the (rs_min_mem_bw rs) / rs_mem_bw rs \<le> mem_bw a - unit
      then rbind (utility (est e) rs u (cache a + unit) (mem_bw a - unit)) (\<lambda>x. Inr (Some x)) else Inr None) = Inr more"
    "(if the (rs_min_cache rs) / rs_cache rs \<le> cache a - unit \<and> mem_bw a + unit \<le> the (rs_max_mem_bw rs) / rs_mem_bw rs
      then rbind (utility (est e) rs u (cache a - unit) (mem_bw a + unit)) (\<lambda>x. Inr (Some x)) else Inr None) = Inr less"
    "relative_gain more p = Inr (cache_sensitivity s)" "relative_gain less p = Inr (bw_sensitivity s)"
    using assms(1) unfolding user_sensitivity_def limit_shares_eq [OF assms(2)] by (auto elim!: rbind_eq_InrE)
  {
    assume pos: "0 < cache_sensitivity s"
    have "\<exists>v. more = Some v \<and> utility (est e) rs u (cache a + unit) (mem_bw a - unit) = Inr v \<and> 0 < p \<and> p < v"
      by (rule relative_gain_positive [OF run(1,4) pos]) (use run(2) in \<open>auto elim!: rbind_eq_InrE split: if_splits\<close>)
    moreover from this have "cache a + unit \<le> the (rs_max_cache rs) / rs_cache rs \<and>
      the (rs_min_mem_bw rs) / rs_mem_bw rs \<le> mem_bw a - unit" using run(2) by (auto split: if_splits)
    moreover from this have "0 \<le> mem_bw a - unit" using low by linarith
    ultimately show "gains (est e) rs u a (buy_cache unit a) \<and> limits_kept rs a (buy_cache unit a) \<and> 0 \<le> mem_bw a - unit"
      using run(1) assms(3) scale by (auto simp: gains_def limits_kept_def pos_le_divide_eq pos_divide_le_eq)
  }
  {
    assume pos: "0 < bw_sensitivity s"
    have "\<exists>v. less = Some v \<and> utility (est e) rs u (cache a - unit) (mem_bw a + unit) = Inr v \<and> 0 < p \<and> p < v"
      by (rule relative_gain_positive [OF run(1,5) pos]) (use run(3) in \<open>auto elim!: rbind_eq_InrE split: if_splits\<close>)
    moreover from this have "the (rs_min_cache rs) / rs_cache rs \<le> cache a - unit \<and>
      mem_bw a + unit \<le> the (rs_max_mem_bw rs) / rs_mem_bw rs" using run(3) by (auto split: if_splits)
    moreover from this have "0 \<le> cache a - unit" using low by linarith
    ultimately show "gains (est e) rs u a (buy_bw unit a) \<and> limits_kept rs a (buy_bw unit a) \<and> 0 \<le> cache a - unit"
      using run(1) assms(3) scale by (auto simp: gains_def limits_kept_def pos_le_divide_eq pos_divide_le_eq)
  }
qed

lemma user_sensitivity_returns:
  assumes "ready e u" and "trade_scale rs"
  shows "returns (user_sensitivity (est e) rs unit u a)"
proof -
  have "p \<noteq> 0" if "utility (est e) rs u c b = Inr p" for p c b
    using marks that unfolding utility_def by fastforce
  then show ?thesis unfolding user_sensitivity_def limit_shares_eq [OF assms(2)] relative_gain_def
    using assms(1) by (intro returns_intros) (auto simp: utility_def intro!: ready_returns)
qed

end

lemma estimate_marks: "get_estimation env u c b = Inr v \<Longrightarrow> v = - 1 \<or> 0 < v"
  by (cases rule: get_estimation_cases [of env u c]) (auto simp: rbind_eq_Inr inverse_clip_range)

interpretation rtm: marked_estimator get_estimation est_ready
  by unfold_locales (rule estimate_marks)

section \<open>The trade of one VM\<close>

lemma scores_entries:
  assumes "calculate_sensitivity_scores est rs unit us cur adjusted = Inr scores" and "(u, s) \<in> set scores"
  shows "u \<in> set us - adjusted \<and> (\<exists>a. map_of cur u = Some a \<and> user_sensitivity est rs unit u a = Inr s)"
proof -
  let ?P = "\<lambda>scores. wf_dict scores \<and> (\<forall>u s. map_of scores u = Some s \<longrightarrow> u \<in> set us - adjusted \<and>
    (\<exists>a. map_of cur u = Some a \<and> user_sensitivity est rs unit u a = Inr s))"
  have "?P scores"
    using assms(1) unfolding calculate_sensitivity_scores_def
    by (rule rfold_invariant) (auto simp: rbind_eq_Inr wf_dict_set split: option.splits if_splits)
  then show ?thesis using assms(2) by auto
qed

text \<open>A loop that keeps its best user or replaces it by the current one.\<close>

lemma fold_best:
  assumes "\<And>e acc. fst (f e acc) = fst acc \<or> fst (f e acc) = Some (fst e) \<and> P e"
    and "fst (fold f xs acc) = Some u"
  shows "fst acc = Some u \<or> (\<exists>s. (u, s) \<in> set xs \<and> P (u, s))"
  using assms(2)
proof (induction xs arbitrary: acc)
  case (Cons e xs)
  then have "fst (f e acc) = Some u \<or> (\<exists>s. (u, s) \<in> set xs \<and> P (u, s))" by simp
  then show ?case using assms(1) [of e acc] by (cases e) auto
qed simp

lemma find_cache_user:
  assumes "find_most_cache_sensitive_user scores = Some u"
  shows "\<exists>s. (u, s) \<in> set scores \<and> 0 < cache_sensitivity s"
  using fold_best [OF _ assms [unfolded find_most_cache_sensitive_user_def], of "\<lambda>e. 0 < cache_sensitivity (snd e)"]
  by (simp add: case_prod_unfold)

lemma find_bw_user:
  assumes "find_most_bw_sensitive_user scores ex = Some u"
  shows "Some u \<noteq> ex \<and> (\<exists>s. (u, s) \<in> set scores \<and> 0 < bw_sensitivity s)"
proof -
  have "\<exists>s. (u, s) \<in> set scores \<and> Some u \<noteq> ex \<and> 0 < bw_sensitivity s"
    using fold_best [OF _ assms [unfolded find_most_bw_sensitive_user_def],
        of "\<lambda>e. Some (fst e) \<noteq> ex \<and> 0 < bw_sensitivity (snd e)"]
    by (simp add: case_prod_unfold)
  then show ?thesis by blast
qed

text \<open>What a trade does to the entry of a user: nothing, or a change that the user's estimate prefers and
  that marks the user for the next round; users marked in the last round are left alone.\<close>

definition fij_entry :: "estimation \<Rightarrow> resource_scale \<Rightarrow> int set \<Rightarrow> int set \<Rightarrow> int \<Rightarrow> alloc \<Rightarrow> alloc \<Rightarrow> bool" where
  "fij_entry est rs before after u a a' \<longleftrightarrow>
     cache a' = cache a \<and> mem_bw a' = mem_bw a \<or>
     gains est rs u a a' \<and> limits_kept rs a a' \<and> u \<notin> before \<and> u \<in> after"

lemma fij_entry_start:
  "fij_entry est rs A B u (mk_alloc (cache a) (mem_bw a)) a' = fij_entry est rs A B u a a'"
  by (simp add: fij_entry_def gains_def limits_kept_def)

text \<open>The entries after a trade between \<open>u\<close> and \<open>v\<close>.\<close>

lemma traded_entry:
  assumes ab: "map_of cur u = Some a" "map_of cur v = Some b"
    and u: "gains est rs u a (buy_cache unit a)" "limits_kept rs a (buy_cache unit a)"
    and v: "gains est rs v b (buy_bw unit b)" "limits_kept rs b (buy_bw unit b)"
    and cur': "map_of cur' = (map_of cur)(u \<mapsto> buy_cache unit a, v \<mapsto> buy_bw unit b)"
    and sets: "u \<notin> A" "v \<notin> A" "u \<in> B" "v \<in> B" "u \<noteq> v"
    and w: "map_of cur w = Some (mk_alloc (cache x) (mem_bw x))"
  shows "fij_entry est rs A B w x (the (map_of cur' w))"
proof -
  consider "w = u" | "w = v" | "w \<noteq> u" "w \<noteq> v" by blast
  then have "fij_entry est rs A B w (mk_alloc (cache x) (mem_bw x)) (the (map_of cur' w))"
  proof cases
    case 1
    then show ?thesis using ab(1) u cur' sets w by (simp add: fij_entry_def)
  next
    case 2
    then show ?thesis using ab(2) v cur' sets w by (simp add: fij_entry_def)
  next
    case 3
    then show ?thesis using cur' w by (simp add: fij_entry_def)
  qed
  then show ?thesis by (simp add: fij_entry_start)
qed

lemma trade_resources_ok:
  assumes "vm_alloc us cur" and "distinct us" and "u \<in> set us" and "v \<in> set us" and "u \<noteq> v" and "u \<noteq> 0" and "v \<noteq> 0"
    and a: "map_of cur u = Some a" and b: "map_of cur v = Some b"
    and "0 \<le> unit" and "0 \<le> mem_bw a - unit" and "0 \<le> cache b - unit"
  shows "\<exists>cur'. trade_resources rs m vm unit (Some u) (Some v) cur self = Inr (mark_adjusted vm u v self, cur') \<and>
    vm_alloc us cur' \<and> map_of cur' = (map_of cur)(u \<mapsto> buy_cache unit a, v \<mapsto> buy_bw unit b) \<and>
    share_sum cache cur' us = share_sum cache cur us \<and> share_sum mem_bw cur' us = share_sum mem_bw cur us"
proof -
  let ?c1 = "dict_set u (buy_cache unit a) cur"
  let ?c2 = "dict_set v (buy_bw unit b) ?c1"
  have nn: "nonneg a" "nonneg b" using assms(1,3,4) a b holdsD by (fastforce simp: vm_alloc_def)+
  have c1: "vm_alloc us ?c1"
    by (rule vm_alloc_set [OF assms(1,3)]) (use nn assms(10,11) in \<open>auto simp: nonneg_def\<close>)
  have c2: "vm_alloc us ?c2"
    by (rule vm_alloc_set [OF c1 assms(4)]) (use nn assms(10,12) in \<open>auto simp: nonneg_def\<close>)
  have v1: "map_of ?c1 v = Some b" using assms(5) b by simp
  have "trade_resources rs m vm unit (Some u) (Some v) cur self = Inr (mark_adjusted vm u v self, ?c2)"
    using assms(6,7) by (simp add: trade_resources_def truthy_def Let_def dict_get_Some [OF a] dict_get_Some [OF v1])
  moreover have "share_sum get ?c2 us = share_sum get cur us - get a + get (buy_cache unit a) - get b + get (buy_bw unit b)"
    for get :: "alloc \<Rightarrow> rat"
    using share_sum_dict_set [OF assms(2,4), of get "buy_bw unit b" ?c1]
      share_sum_dict_set [OF assms(2,3), of get "buy_cache unit a" cur] v1 a by simp
  ultimately show ?thesis using c2 by (intro exI [of _ ?c2]) (simp add: fun_eq_iff)
qed

lemma adjusted_mark [simp]: "adjusted_users (mark_adjusted vm u v self) vm = insert v (insert u (adjusted_users self vm))"
  by (simp add: mark_adjusted_def adjusted_users_def)

lemma mark_adjusted_fields [simp]:
  "t_last_allocation (mark_adjusted vm u v self) = t_last_allocation self"
  "t_last_static_allocation (mark_adjusted vm u v self) = t_last_static_allocation self"
  "t_last_static_performance (mark_adjusted vm u v self) = t_last_static_performance self"
  by (simp_all add: mark_adjusted_def)

lemma scores_return:
  assumes "\<And>u. u \<in> set us \<Longrightarrow> est_ready env u" and "trade_scale rs"
  shows "returns (calculate_sensitivity_scores (get_estimation env) rs unit us cur adjusted)"
  unfolding calculate_sensitivity_scores_def
  by (intro returns_intros rtm.user_sensitivity_returns assms)

text \<open>The pairs of partners that a round may find in a VM, with the start of their entries.\<close>

lemma partners:
  assumes "calculate_sensitivity_scores (get_estimation env) rs unit us cur adjusted = Inr scores"
    and "find_most_cache_sensitive_user scores = Some u" and "find_most_bw_sensitive_user scores (Some u) = Some v"
    and scale: "trade_scale rs" and unit: "0 \<le> unit"
  obtains a b where "u \<in> set us - adjusted" "v \<in> set us - adjusted" "u \<noteq> v"
    "map_of cur u = Some a" "map_of cur v = Some b"
    "gains (get_estimation env) rs u a (buy_cache unit a)" "limits_kept rs a (buy_cache unit a)" "0 \<le> mem_bw a - unit"
    "gains (get_estimation env) rs v b (buy_bw unit b)" "limits_kept rs b (buy_bw unit b)" "0 \<le> cache b - unit"
proof -
  obtain su sv where s: "(u, su) \<in> set scores" "0 < cache_sensitivity su" "(v, sv) \<in> set scores" "0 < bw_sensitivity sv" "u \<noteq> v"
    using find_cache_user [OF assms(2)] find_bw_user [OF assms(3)] by blast
  obtain a b where ab: "map_of cur u = Some a" "user_sensitivity (get_estimation env) rs unit u a = Inr su" "u \<in> set us - adjusted"
    "map_of cur v = Some b" "user_sensitivity (get_estimation env) rs unit v b = Inr sv" "v \<in> set us - adjusted"
    using scores_entries [OF assms(1) s(1)] scores_entries [OF assms(1) s(3)] by blast
  show thesis
    using that [OF ab(3,6) s(5) ab(1,4)] rtm.sensitivity_gains(1) [OF ab(2) scale unit s(2)]
      rtm.sensitivity_gains(2) [OF ab(5) scale unit s(4)] by blast
qed

text \<open>The steps of \<open>allocate\<close> up to the trade.\<close>

lemma fij_allocate_steps:
  assumes "t_last_allocation self = Some la" and "initialize_allocation (Some la) us = Inr cur"
    and "calculate_sensitivity_scores est rs unit us cur (adjusted_users self vm) = Inr scores"
  defines "c \<equiv> find_most_cache_sensitive_user scores"
  defines "b \<equiv> find_most_bw_sensitive_user scores c"
  obtains self2 where "t_last_allocation self2 = Some la" "same_static self self2" "adjusted_users self2 vm = {}"
    "fij_allocate est rs m unit vm us self =
       rbind (case (c, b) of (Some u, Some v) \<Rightarrow>
           if truthy c \<and> truthy b
           then rbind (trade_resources rs m vm unit c b cur self2) (\<lambda>(self, cur). Inr (mark_adjusted vm u v self, cur))
           else Inr (self2, cur)
         | _ \<Rightarrow> Inr (self2, cur)) (\<lambda>(self, cur). rbind (normalize_allocations us cur) (\<lambda>cur. Inr (self, cur)))"
proof -
  define self1 where "self1 = (if has_key (last_adjusted_users self) vm then self
    else self\<lparr>last_adjusted_users := dict_set vm {} (last_adjusted_users self)\<rparr>)"
  define self2 where "self2 = self1\<lparr>last_adjusted_users := dict_set vm {} (last_adjusted_users self1)\<rparr>"
  have self1: "t_last_allocation self1 = Some la" "adjusted_users self1 vm = adjusted_users self vm"
    using assms(1) by (auto simp: self1_def adjusted_users_def has_key_def)
  show thesis
  proof (rule that)
    show "t_last_allocation self2 = Some la" "same_static self self2" "adjusted_users self2 vm = {}"
      using assms(1) by (auto simp: self2_def self1_def same_static_def adjusted_users_def)
  qed (unfold fij_allocate_def Let_def self1_def [symmetric] self1 assms(2,3) rbind_Inr self2_def [symmetric]
      c_def [symmetric] b_def [symmetric], rule refl)
qed

lemma fij_before_normalize:
  assumes scale: "trade_scale rs" and la: "t_last_allocation self = Some la" and us: "us \<noteq> []" "distinct us"
    and held: "holds la us" and unit: "0 \<le> unit" and cur: "initialize_allocation (Some la) us = Inr cur"
    and scores: "calculate_sensitivity_scores (get_estimation env) rs unit us cur (adjusted_users self vm) = Inr scores"
  obtains self' cur' where "fij_allocate (get_estimation env) rs m unit vm us self = rbind (normalize_allocations us cur') (\<lambda>cur. Inr (self', cur))"
    "t_last_allocation self' = Some la" "same_static self self'" "vm_alloc us cur'"
    "share_sum cache cur' us = share_sum cache la us" "share_sum mem_bw cur' us = share_sum mem_bw la us"
    "\<And>u. u \<in> set us \<Longrightarrow> fij_entry (get_estimation env) rs (adjusted_users self vm) (adjusted_users self' vm) u
       (the (map_of la u)) (the (map_of cur' u))"
proof -
  have cur2: "vm_alloc us cur" "\<forall>u \<in> set us. map_of cur u = map_option (\<lambda>a. mk_alloc (cache a) (mem_bw a)) (map_of la u)"
    using initialize_ok [OF us(1) held] cur by auto
  note sums = initialize_shares [OF cur2(2) held]
  have start: "map_of cur u = Some (mk_alloc (cache (the (map_of la u))) (mem_bw (the (map_of la u))))" if "u \<in> set us" for u
    using cur2(2) holdsD [OF held that] that by auto
  let ?cu = "find_most_cache_sensitive_user scores"
  let ?bu = "find_most_bw_sensitive_user scores ?cu"
  obtain self2 where self2: "t_last_allocation self2 = Some la" "same_static self self2" "adjusted_users self2 vm = {}"
    and run: "fij_allocate (get_estimation env) rs m unit vm us self =
      rbind (case (?cu, ?bu) of (Some u, Some v) \<Rightarrow>
          if truthy ?cu \<and> truthy ?bu
          then rbind (trade_resources rs m vm unit ?cu ?bu cur self2) (\<lambda>(self, cur). Inr (mark_adjusted vm u v self, cur))
          else Inr (self2, cur)
        | _ \<Rightarrow> Inr (self2, cur)) (\<lambda>(self, cur). rbind (normalize_allocations us cur) (\<lambda>cur. Inr (self, cur)))"
    by (rule fij_allocate_steps [OF la cur scores])
  show thesis
  proof (cases "truthy ?cu \<and> truthy ?bu")
    case True
    then obtain u v where uv: "?cu = Some u" "?bu = Some v" "u \<noteq> 0" "v \<noteq> 0"
      by (auto simp: truthy_def split: option.splits)
    obtain a b where ab: "u \<in> set us - adjusted_users self vm" "v \<in> set us - adjusted_users self vm" "u \<noteq> v"
      "map_of cur u = Some a" "map_of cur v = Some b"
      "gains (get_estimation env) rs u a (buy_cache unit a)" "limits_kept rs a (buy_cache unit a)" "0 \<le> mem_bw a - unit"
      "gains (get_estimation env) rs v b (buy_bw unit b)" "limits_kept rs b (buy_bw unit b)" "0 \<le> cache b - unit"
      by (rule partners [OF scores uv(1) uv(2) [unfolded uv(1)] scale unit])
    obtain cur' where tr: "trade_resources rs m vm unit (Some u) (Some v) cur self2 = Inr (mark_adjusted vm u v self2, cur')"
      "vm_alloc us cur'" "map_of cur' = (map_of cur)(u \<mapsto> buy_cache unit a, v \<mapsto> buy_bw unit b)"
      "share_sum cache cur' us = share_sum cache cur us" "share_sum mem_bw cur' us = share_sum mem_bw cur us"
      using trade_resources_ok [OF cur2(1) us(2) _ _ ab(3) uv(3,4) ab(4,5) unit ab(8,11)] ab(1,2) by blast
    show thesis
    proof (rule that [of cur' "mark_adjusted vm u v (mark_adjusted vm u v self2)"])
      show "fij_entry (get_estimation env) rs (adjusted_users self vm) (adjusted_users (mark_adjusted vm u v (mark_adjusted vm u v self2)) vm) w
         (the (map_of la w)) (the (map_of cur' w))" if "w \<in> set us" for w
        using traded_entry [OF ab(4-7) ab(9,10) tr(3)] start [OF that] ab(1,2,3) self2(3) by simp
    qed (use run uv True tr sums self2 in \<open>simp_all add: same_static_def\<close>)
  next
    case False
    show thesis
    proof (rule that [of cur self2])
      show "fij_entry (get_estimation env) rs (adjusted_users self vm) (adjusted_users self2 vm) w (the (map_of la w)) (the (map_of cur w))"
        if "w \<in> set us" for w
        using start [OF that] by (simp add: fij_entry_def)
    qed (use run False self2 cur2(1) sums in \<open>auto split: option.splits\<close>)
  qed
qed

lemma fij_allocate_ok:
  assumes scale: "trade_scale rs" and la: "t_last_allocation self = Some la" and us: "us \<noteq> []" "distinct us"
    and held: "holds la us" and fit: "shares_fit la us" and unit: "0 \<le> unit" and ready: "\<And>u. u \<in> set us \<Longrightarrow> est_ready env u"
  shows "\<exists>self' cur. fij_allocate (get_estimation env) rs m unit vm us self = Inr (self', cur) \<and>
    share_sum cache cur us = share_sum cache la us \<and> share_sum mem_bw cur us = share_sum mem_bw la us \<and>
    (\<forall>u \<in> set us. fij_entry (get_estimation env) rs (adjusted_users self vm) (adjusted_users self' vm) u
       (the (map_of la u)) (the (map_of cur u)))"
proof -
  obtain cur where cur: "initialize_allocation (Some la) us = Inr cur" using initialize_ok [OF us(1) held] by blast
  obtain scores where scores: "calculate_sensitivity_scores (get_estimation env) rs unit us cur (adjusted_users self vm) = Inr scores"
    using returnsD [OF scores_return [OF ready scale]] by blast
  obtain self' cur' where *: "fij_allocate (get_estimation env) rs m unit vm us self =
      rbind (normalize_allocations us cur') (\<lambda>cur. Inr (self', cur))" "vm_alloc us cur'"
    "share_sum cache cur' us = share_sum cache la us" "share_sum mem_bw cur' us = share_sum mem_bw la us"
    "\<And>u. u \<in> set us \<Longrightarrow> fij_entry (get_estimation env) rs (adjusted_users self vm) (adjusted_users self' vm) u
       (the (map_of la u)) (the (map_of cur' u))"
    using fij_before_normalize [OF scale la us held unit cur scores, of m] by metis
  have "normalize_allocations us cur' = Inr cur'"
    using normalize_fitting [of cur' us] *(2-4) fit by (simp add: vm_alloc_def shares_fit_def)
  then show ?thesis using * by auto
qed

lemma fij_allocate_outcome:
  assumes scale: "trade_scale rs" and la: "t_last_allocation self = Some la" and us: "us \<noteq> []" "distinct us"
    and held: "holds la us" and unit: "0 \<le> unit"
  shows "outcome (\<forall>u \<in> set us. est_ready env u) (vm_traded (\<lambda>_. True) us self la)
    (fij_allocate (get_estimation env) rs m unit vm us self)"
proof -
  obtain cur where cur: "initialize_allocation (Some la) us = Inr cur" "vm_alloc us cur"
    using initialize_ok [OF us(1) held] by blast
  show ?thesis
  proof (cases "calculate_sensitivity_scores (get_estimation env) rs unit us cur (adjusted_users self vm)")
    case (Inl e)
    have "fij_allocate (get_estimation env) rs m unit vm us self = Inl e"
      using Inl la cur(1) by (auto simp: fij_allocate_def Let_def adjusted_users_def has_key_def)
    moreover have "\<not> (\<forall>u \<in> set us. est_ready env u)"
    proof
      assume "\<forall>u \<in> set us. est_ready env u"
      then have "returns (calculate_sensitivity_scores (get_estimation env) rs unit us cur (adjusted_users self vm))"
        by (intro scores_return scale) blast
      then show False using Inl by (simp add: returns_def)
    qed
    ultimately show ?thesis by (simp add: outcome_def)
  next
    case (Inr scores)
    obtain self' cur' where *: "fij_allocate (get_estimation env) rs m unit vm us self =
        rbind (normalize_allocations us cur') (\<lambda>cur. Inr (self', cur))" "t_last_allocation self' = Some la"
      "same_static self self'" "vm_alloc us cur'"
      using fij_before_normalize [OF scale la us held unit cur(1) Inr, of m] by metis
    obtain cur2 where "normalize_allocations us cur' = Inr cur2" "vm_alloc us cur2" "shares_fit cur2 us"
      using normalize_ok [OF *(4) us(2)] by blast
    then show ?thesis using * by (simp add: vm_traded_def)
  qed
qed

section \<open>All rounds\<close>

lemma fij_update_ok:
  assumes "t_last_allocation s = None \<longrightarrow> t_last_static_allocation s = None"
  shows "\<exists>s'. fij_update_last_static_performance rs m users s = Inr s' \<and>
    t_last_allocation s' = t_last_allocation s \<and> t_last_static_allocation s' = t_last_static_allocation s \<and>
    (t_last_allocation s = None \<longrightarrow> t_last_static_performance s' = t_last_static_performance s)"
proof -
  obtain r where "static_performance rs m users s = Inr r" "t_last_allocation s = None \<longrightarrow> r = None"
    using static_performance_ok [OF assms] by blast
  then show ?thesis by (cases r) (auto simp: fij_update_last_static_performance_def)
qed

definition fij_ready :: "trade_input \<Rightarrow> int \<Rightarrow> bool" where
  "fij_ready i u \<longleftrightarrow> est_ready (ti_env i) u"

interpretation fij: free_trader fij_update_last_static_performance "fij_allocate_vm par rs" par rs fij_ready "\<lambda>_. True"
  for par rs
proof unfold_locales
  fix s :: trade and m users
  assume "t_last_allocation s = None \<longrightarrow> t_last_static_allocation s = None"
  from fij_update_ok [OF this]
  show "\<exists>s'. fij_update_last_static_performance rs m users s = Inr s' \<and> True \<and> t_last_allocation s' = t_last_allocation s \<and>
    t_last_static_allocation s' = t_last_static_allocation s \<and>
    (t_last_allocation s = None \<longrightarrow> t_last_static_performance s' = t_last_static_performance s)" by simp
next
  fix s :: trade and la us i vm
  assume *: "trade_setup par rs" "t_last_allocation s = Some la" "us \<noteq> []" "distinct us" "holds la us"
  then have "trade_scale rs" "0 \<le> tp_search_granularity par" by (simp_all add: trade_setup_def)
  from fij_allocate_outcome [OF this(1) *(2-5) this(2)]
  show "outcome (\<forall>u \<in> set us. fij_ready i u) (vm_traded (\<lambda>_. True) us s la) (fij_allocate_vm par rs i vm us s)"
    by (simp add: fij_allocate_vm_def fij_ready_def)
qed simp_all

section \<open>Properties\<close>

text \<open>Two users of one VM: the first has a steep miss rate curve, the second one a flat curve.\<close>

definition trade_env :: est_env where
  "trade_env =
     \<lparr>env_alloc = Some (Some [(1, \<lparr>d_cache = 1000, d_mem_bw = 1024\<rparr>), (2, \<lparr>d_cache = 1000, d_mem_bw = 1024\<rparr>)]),
      env_monitor = Some (\<lambda>u. if u = 1 then [(500, 9 / 10), (1500, 1 / 10)] else [(500, 1 / 2), (1500, 1 / 2)],
        \<lambda>_. Some \<lparr>u_cache = 1000, u_mem_bw = 1000\<rparr>)\<rparr>"

definition trade_rs :: resource_scale where
  "trade_rs = \<lparr>rs_cache = 2000, rs_mem_bw = 2, rs_min_cache = Some 200, rs_max_cache = Some 1800,
     rs_min_mem_bw = Some 0, rs_max_mem_bw = Some 2\<rparr>"

definition trade_la :: allocs where
  "trade_la = [(1, mk_alloc (1 / 2) (1 / 2)), (2, mk_alloc (1 / 2) (1 / 2))]"

definition trade_state :: trade where
  "trade_state = init_trade\<lparr>t_last_allocation := Some trade_la\<rparr>"

definition trade_profile :: "int \<Rightarrow> profile" where
  "trade_profile u = \<lparr>pf_user_id = Some u, pf_file = Some [], pf_sensitivity = None, pf_oracle = None,
     pf_clip_l3miss = None, pf_clip_iteration = None\<rparr>"

definition trade_sample :: trade_input where
  "trade_sample =
     \<lparr>ti_estimator = \<lparr>profiles_config = Some [trade_profile 1, trade_profile 2], l3miss_clip = [], iteration_clip = [],
        e_num_vms = None\<rparr>,
      ti_monitor = (init_monitor None)\<lparr>vm_to_app_map := [(0, [1, 2])]\<rparr>, ti_env = trade_env, ti_now = (\<lambda>_. 0),
      ti_skip_monitoring = False\<rparr>"

lemma trade_scale_sample: "trade_scale trade_rs"
  by (simp add: trade_scale_def trade_rs_def)

lemma trade_sample_good: "trade_good default_trade_params trade_rs fij_ready [1, 2] [(0, [1, 2])] trade_sample"
  by (simp add: trade_good_def trade_setup_def trade_scale_sample trade_sample_def trade_profile_def get_app_ids_def complete_vm_map_def
      mapped_apps_def fij_ready_def default_trade_params_def est_ready_def trade_env_def init_monitor_def)

lemma trade_sample_run:
  "case fij_allocate (get_estimation trade_env) trade_rs (init_monitor None) (1 / 4) 0 [1, 2] trade_state of
     Inl e \<Rightarrow> False
   | Inr (s, cur) \<Rightarrow> cur = [(1, mk_alloc (3 / 4) (1 / 4)), (2, mk_alloc (1 / 4) (3 / 4))]"
  by code_simp

text \<open>C25. A round of the trade in one VM returns and is a Pareto improvement within the limits: the VM's totals
  of either resource stay as they were, and every user keeps its amounts or ends with an allocation for
  which the estimator gives strictly more; a changed share that grows stays below its maximum, one that
  shrinks above its minimum; and users that traded in the last round do not trade in this one.\<close>

theorem fij_trade_improves:
  assumes "trade_scale rs" and "t_last_allocation self = Some la" and "us \<noteq> []" and "distinct us"
    and "holds la us" and "shares_fit la us" and "0 \<le> unit" and "\<forall>u \<in> set us. est_ready env u"
  shows "\<exists>self' cur. fij_allocate (get_estimation env) rs m unit vm us self = Inr (self', cur) \<and>
    share_sum cache cur us = share_sum cache la us \<and> share_sum mem_bw cur us = share_sum mem_bw la us \<and>
    (\<forall>u \<in> set us. fij_entry (get_estimation env) rs (adjusted_users self vm) (adjusted_users self' vm) u
       (the (map_of la u)) (the (map_of cur u)))"
  using fij_allocate_ok [OF assms(1-7), of env m vm] assms(8) by blast

theorem fij_trade_improves_witness:
  "gains (get_estimation trade_env) trade_rs 1 (mk_alloc (1 / 2) (1 / 2)) (mk_alloc (3 / 4) (1 / 4)) \<and>
   gains (get_estimation trade_env) trade_rs 2 (mk_alloc (1 / 2) (1 / 2)) (mk_alloc (1 / 4) (3 / 4))"
proof -
  have "\<exists>self' cur. fij_allocate (get_estimation trade_env) trade_rs (init_monitor None) (1 / 4) 0 [1, 2] trade_state = Inr (self', cur) \<and>
    share_sum cache cur [1, 2] = share_sum cache trade_la [1, 2] \<and> share_sum mem_bw cur [1, 2] = share_sum mem_bw trade_la [1, 2] \<and>
    (\<forall>u \<in> set [1, 2]. fij_entry (get_estimation trade_env) trade_rs (adjusted_users trade_state 0) (adjusted_users self' 0) u
       (the (map_of trade_la u)) (the (map_of cur u)))"
    by (rule fij_trade_improves)
      (simp_all add: trade_scale_sample trade_state_def trade_la_def holds_def nonneg_def shares_fit_def share_sum_def
        est_ready_def trade_env_def)
  then show ?thesis using trade_sample_run by (auto simp: fij_entry_def trade_la_def)
qed



end
