(* ===== verification/Fij_Control.thy ===== *)
theory Fij_Control
  imports Control_Loop Fij
begin

text \<open>
  The fij allocator in the control loop of \<open>allocator_base.py\<close>.  It normalises the shares of a VM after each
  trade, so it keeps its promise whatever mapping the monitor reports next: while the mapping is missing or
  incomplete, when it becomes complete and when it changes.
\<close>

definition trade_view :: "view \<Rightarrow> trade_input" where
  "trade_view v =
     \<lparr>ti_estimator = v_estimator v, ti_monitor = v_monitor v, ti_env = env_view v, ti_now = v_now v,
      ti_skip_monitoring = v_skip_monitoring v\<rparr>"

definition fij_on_view :: "trade_params \<Rightarrow> resource_scale \<Rightarrow> view \<Rightarrow> trade \<Rightarrow> (trade \<times> deployment) res" where
  "fij_on_view par rs v = fij_allocate_and_parse par rs (trade_view v)"

definition fij_config :: "trade_params \<Rightarrow> resource_scale \<Rightarrow> estimator \<Rightarrow> int list \<Rightarrow> bool" where
  "fij_config par rs est users \<longleftrightarrow> trade_setup par rs \<and> get_app_ids est = Inr users \<and> 0 < get_num_vms est"

text \<open>What the allocator promises for a round that sees the monitor in a view.\<close>

definition fits_if_complete :: "resource_scale \<Rightarrow> int list \<Rightarrow> view \<Rightarrow> deployment \<Rightarrow> bool" where
  "fits_if_complete rs users v d \<longleftrightarrow>
     (complete_vm_map (vm_to_app_map (v_monitor v)) users \<longrightarrow> fits rs 0 users (vm_to_app_map (v_monitor v)) d)"

definition fij_good :: "trade_params \<Rightarrow> resource_scale \<Rightarrow> int list \<Rightarrow> estimator \<Rightarrow> view \<Rightarrow> bool" where
  "fij_good par rs users est v \<longleftrightarrow> (fij_config par rs est users \<longrightarrow> trade_any par rs users (trade_view v))"

interpretation cfij: controlled "fij_on_view par rs" "fij_good par rs users est"
  "\<lambda>s. fij_config par rs est users \<and> trade_inv False users [] s" "fits_if_complete rs users" est interval
  for par rs users est interval
proof unfold_locales
  fix v :: view and s s' :: trade and d
  assume good: "fij_good par rs users est v" and inv: "fij_config par rs est users \<and> trade_inv False users [] s"
    and run: "fij_on_view par rs v s = Inr (s', d)"
  have any: "trade_any par rs users (trade_view v)" using good inv by (simp add: fij_good_def)
  have run': "trade_allocate_and_parse fij_update_last_static_performance (fij_allocate_vm par rs) par rs (trade_view v) s = Inr (s', d)"
    using run by (simp add: fij_on_view_def fij_allocate_and_parse_def)
  have "trade_inv False users [] s'" "complete_vm_map (vm_to_app_map (ti_monitor (trade_view v))) users \<longrightarrow>
      fits rs 0 users (vm_to_app_map (ti_monitor (trade_view v))) d"
    using fij.tv.step_inv [OF any _ run'] fij.tv.step_promise [OF any _ run'] inv by blast+
  then show "fij_config par rs est users \<and> trade_inv False users [] s'" "fits_if_complete rs users v d"
    using inv by (simp_all add: fits_if_complete_def trade_view_def)
next
  fix v :: view and s s' :: trade and d
  assume "fij_on_view par rs v s = Inr (s', d)"
  then show "wf_dict d" using wf_trade by (simp add: fij_on_view_def fij_allocate_and_parse_def)
qed (auto simp: fij_good_def fij_config_def trade_any_def trade_view_def wf_vm_map_def)

text \<open>C8. With the fij allocator the running controller never overcommits a VM, whatever the controller reports
  and whichever reset requests arrive: in every state, every allocation handed out in a round whose VM
  mapping had all the users fits the VMs of that mapping, even right after the mapping appeared or changed;
  the posted document reads back to exactly that allocation, and the estimator and the monitor look at the
  same last allocation.\<close>

theorem fij_controller_safe:
  assumes "fij_config par rs est users" and "ctl_state (fij_on_view par rs) skip (init_controller est interval init_trade) c"
  shows "reachable interval (c_monitor c) \<and>
    (\<forall>d. e2e_last_allocation c = Some d \<longrightarrow> mon_last_allocation (c_monitor c) = d) \<and>
    (\<forall>(v, d, doc) \<in> set (c_trace c). fits_if_complete rs users v d \<and>
       (d \<noteq> [] \<longrightarrow> (\<exists>document. doc = Some document \<and> read_document document = Inr d)))"
proof -
  have "fij_config par rs est users \<and> trade_inv False users [] init_trade"
    using assms(1) by (simp add: trade_inv_def init_trade_def)
  from cfij.ctl_state_inv [OF assms(2) cfij.init_inv [OF this]] show ?thesis unfolding ctl_inv_def by blast
qed

definition fij_estimator :: estimator where
  "fij_estimator = init_estimator\<lparr>profiles_config := Some [trade_profile 1, trade_profile 2, trade_profile 3]\<rparr>"

lemma fij_sample_run:
  "case start (fij_on_view default_trade_params trade_rs) (Some (loop_params_of 4)) 2 False (25 / 1000) sample_world
      (init_controller fij_estimator None init_trade) of
     Inl e \<Rightarrow> False
   | Inr c \<Rightarrow> map (\<lambda>(v, d, doc). vm_to_app_map (v_monitor v)) (c_trace c) = [[], [], [(0, [1, 2]), (1, [3])]]"
  by code_simp

theorem fij_controller_safe_witness:
  "\<exists>c. ctl_state (fij_on_view default_trade_params trade_rs) False (init_controller fij_estimator None init_trade) c \<and>
     (\<exists>(v, d, doc) \<in> set (c_trace c). vm_to_app_map (v_monitor v) = [(0, [1, 2]), (1, [3])] \<and>
        fits trade_rs 0 [1, 2, 3] [(0, [1, 2]), (1, [3])] d)"
proof -
  have config: "fij_config default_trade_params trade_rs fij_estimator [1, 2, 3]"
    by (simp add: fij_config_def trade_setup_def trade_scale_sample default_trade_params_def fij_estimator_def
        trade_profile_def init_estimator_def get_app_ids_def get_num_vms_def)
  obtain c where c: "start (fij_on_view default_trade_params trade_rs) (Some (loop_params_of 4)) 2 False (25 / 1000) sample_world
      (init_controller fij_estimator None init_trade) = Inr c"
    "map (\<lambda>(v, d, doc). vm_to_app_map (v_monitor v)) (c_trace c) = [[], [], [(0, [1, 2]), (1, [3])]]"
    using fij_sample_run by (auto split: sum.splits)
  have st: "ctl_state (fij_on_view default_trade_params trade_rs) False (init_controller fij_estimator None init_trade) c"
    by (rule start_state [OF c(1) sample_world_ok])
  have "[(0, [1, 2]), (1, [3])] \<in> set (map (\<lambda>(v, d, doc). vm_to_app_map (v_monitor v)) (c_trace c))" using c(2) by simp
  then obtain v d doc where e: "(v, d, doc) \<in> set (c_trace c)" "vm_to_app_map (v_monitor v) = [(0, [1, 2]), (1, [3])]" by force
  have "fits_if_complete trade_rs [1, 2, 3] v d" using fij_controller_safe [OF config st] e(1) by blast
  then have "fits trade_rs 0 [1, 2, 3] [(0, [1, 2]), (1, [3])] d"
    using e(2) by (simp add: fits_if_complete_def complete_vm_map_def mapped_apps_def)
  then show ?thesis using st e by blast
qed

end
