(* ===== verification/Inc.thy ===== *)
theory Inc
  imports Trade_Rounds
begin

text \<open>
  \<open>src/res_allocation/allocators/inc_trade_allocator.py\<close>: in each VM and round the allocator looks for the
  user with the worst performance relative to the rounds of equal shares and gives it a unit of one
  resource from a pool; if the pool is empty it takes a unit from the best user into the pool.

  The state extends that of \<open>Trade\<close> with the decisions taken for each VM, the last performance of each
  user and the pool.  \<open>num_conflict_resolve_th\<close>, \<open>num_conflict\<close>, \<open>max_iteration\<close> and \<open>was_converged\<close> are set
  in the constructor and never read; they are left out.  A performance may be \<open>None\<close> in the source's
  dictionaries, and computing with it raises.
\<close>

section \<open>State\<close>

datatype res_type = Cache | Mem_Bw

datatype direction = Up | Down

fun opposite_resource :: "res_type \<Rightarrow> res_type" where
  "opposite_resource Cache = Mem_Bw"
| "opposite_resource Mem_Bw = Cache"

record user_performance =
  up_res_type :: res_type
  up_direction :: direction
  up_performance :: "rat option"

record decision =
  dc_res_type :: res_type
  dc_direction :: direction
  dc_performance :: "rat option"
  dc_last_updated :: rat

record inc = trade +
  user_performances :: "(int, user_performance) dict"
  vm_allocation_decisions :: "(int, (int, decision) dict) dict"
  remaining_resources :: "res_type \<Rightarrow> rat"

definition init_inc :: inc where
  "init_inc =
     \<lparr>t_last_allocation = None, t_last_static_allocation = None, t_last_static_performance = None,
      last_adjusted_users = [], user_performances = [], vm_allocation_decisions = [],
      remaining_resources = (\<lambda>_. 0)\<rparr>"

text \<open>The entry of a user for a resource, and the last allocation (there is one: \<open>_initialize_allocation\<close>
  raises without it).\<close>

fun share :: "res_type \<Rightarrow> alloc \<Rightarrow> rat" where
  "share Cache a = cache a"
| "share Mem_Bw a = mem_bw a"

fun set_share :: "res_type \<Rightarrow> rat \<Rightarrow> alloc \<Rightarrow> alloc" where
  "set_share Cache x a = a\<lparr>cache := x\<rparr>"
| "set_share Mem_Bw x a = a\<lparr>mem_bw := x\<rparr>"

definition last_alloc :: "'a trade_scheme \<Rightarrow> allocs" where
  "last_alloc self = (case t_last_allocation self of None \<Rightarrow> [] | Some la \<Rightarrow> la)"

definition vm_decisions :: "inc \<Rightarrow> int \<Rightarrow> (int, decision) dict" where
  "vm_decisions self vm_id = (case map_of (vm_allocation_decisions self) vm_id of None \<Rightarrow> [] | Some d \<Rightarrow> d)"

text \<open>\<open>self.resource_scale["max_cache"] / self.resource_scale["cache"]\<close> and the like.\<close>

fun max_share :: "resource_scale \<Rightarrow> res_type \<Rightarrow> rat res" where
  "max_share rs Cache = rbind (field (rs_max_cache rs)) (\<lambda>x. fdiv x (rs_cache rs))"
| "max_share rs Mem_Bw = rbind (field (rs_max_mem_bw rs)) (\<lambda>x. fdiv x (rs_mem_bw rs))"

fun min_share :: "resource_scale \<Rightarrow> res_type \<Rightarrow> rat res" where
  "min_share rs Cache = rbind (field (rs_min_cache rs)) (\<lambda>x. fdiv x (rs_cache rs))"
| "min_share rs Mem_Bw = rbind (field (rs_min_mem_bw rs)) (\<lambda>x. fdiv x (rs_mem_bw rs))"

section \<open>Baseline\<close>

definition inc_update_last_static_performance ::
  "resource_scale \<Rightarrow> monitor \<Rightarrow> int list \<Rightarrow> inc \<Rightarrow> inc res" where
  "inc_update_last_static_performance rs m users self =
     rbind (static_performance rs m users self) (\<lambda>perfs.
     Inr (case perfs of
            None \<Rightarrow> self
          | Some p \<Rightarrow>
              self\<lparr>t_last_static_performance := Some p,
                   user_performances := fold (\<lambda>(user, x). dict_set user
                     \<lparr>up_res_type = Mem_Bw, up_direction = Up, up_performance = Some x\<rparr>) p (user_performances self)\<rparr>))"

section \<open>Checking the last decision\<close>

text \<open>The most recent decision for a user of this VM.\<close>

definition last_decided_user :: "int list \<Rightarrow> (int, decision) dict \<Rightarrow> int option" where
  "last_decided_user users decisions =
     snd (fold (\<lambda>(user, d) (last_updated_time, last_adjusted_user).
       if user \<in> set users \<and> dc_last_updated d > last_updated_time
       then (dc_last_updated d, Some user) else (last_updated_time, last_adjusted_user)) decisions (0, None))"

definition revoke :: "int \<Rightarrow> res_type \<Rightarrow> rat \<Rightarrow> inc \<Rightarrow> inc res" where
  "revoke user t unit self =
     rbind (dict_get (last_alloc self) user) (\<lambda>a.
     Inr (self\<lparr>t_last_allocation := Some (dict_set user (set_share t (share t a + unit) a) (last_alloc self)),
               remaining_resources := (remaining_resources self)(t := max 0 (remaining_resources self t - unit))\<rparr>))"

text \<open>The state after the check and the resource type to go on with.\<close>

definition judge_decision :: "int \<Rightarrow> decision \<Rightarrow> rat \<Rightarrow> rat \<Rightarrow> inc \<Rightarrow> (inc \<times> res_type) res" where
  "judge_decision user d perf unit self =
     rbind (case dc_performance d of None \<Rightarrow> Inl TypeError | Some p \<Rightarrow> Inr p) (\<lambda>old.
     case dc_direction d of
       Down \<Rightarrow>
         if perf < old - 1 / 100
         then rbind (if perf < old - 1 / 10 then revoke user (dc_res_type d) unit self else Inr self) (\<lambda>self.
              Inr (self, opposite_resource (dc_res_type d)))
         else Inr (self, dc_res_type d)
     | Up \<Rightarrow>
         Inr (self, if perf \<le> old - 1 / 100 then opposite_resource (dc_res_type d) else dc_res_type d))"

definition check_performance_changes ::
  "resource_scale \<Rightarrow> monitor \<Rightarrow> int \<Rightarrow> int list \<Rightarrow> rat \<Rightarrow> inc \<Rightarrow> inc res" where
  "check_performance_changes rs m vm_id users unit self =
    (case last_decided_user users (vm_decisions self vm_id) of
       None \<Rightarrow> Inr self
     | Some user \<Rightarrow>
         if user = 0 then Inr self
         else
           rbind (dict_get (vm_decisions self vm_id) user) (\<lambda>d.
           case get_current_performance rs m (last_alloc self) user of
             None \<Rightarrow> Inr self
           | Some perf \<Rightarrow>
               rbind (judge_decision user d perf unit self) (\<lambda>(self, t).
               let d = d\<lparr>dc_res_type := t, dc_performance := Some perf\<rparr> in
               Inr (self\<lparr>vm_allocation_decisions :=
                      dict_set vm_id (dict_set user d (vm_decisions self vm_id)) (vm_allocation_decisions self),
                    user_performances := dict_set user
                      \<lparr>up_res_type = t, up_direction = dc_direction d, up_performance = Some perf\<rparr>
                      (user_performances self)\<rparr>))))"

section \<open>Worst and best performers\<close>

definition get_resource_type_for_user :: "inc \<Rightarrow> int \<Rightarrow> int \<Rightarrow> res_type" where
  "get_resource_type_for_user self vm_id user =
    (case map_of (vm_decisions self vm_id) user of
       Some d \<Rightarrow> dc_res_type d
     | None \<Rightarrow>
         (case map_of (user_performances self) user of Some p \<Rightarrow> up_res_type p | None \<Rightarrow> Cache))"

text \<open>The performance relative to the baseline, if both are known.\<close>

definition performance_ratio :: "resource_scale \<Rightarrow> monitor \<Rightarrow> inc \<Rightarrow> int \<Rightarrow> ext option" where
  "performance_ratio rs m self user =
    (case get_current_performance rs m (last_alloc self) user of
       None \<Rightarrow> None
     | Some perf \<Rightarrow>
         (case t_last_static_performance self of
            None \<Rightarrow> None
          | Some base \<Rightarrow>
              (case map_of base user of
                 None \<Rightarrow> None
               | Some b \<Rightarrow> Some (if b > 0 then Fin (perf / b) else PosInf))))"

text \<open>The bodies of the two loops.\<close>

definition worst_step ::
  "resource_scale \<Rightarrow> monitor \<Rightarrow> int \<Rightarrow> rat \<Rightarrow> allocs \<Rightarrow> inc \<Rightarrow> int \<Rightarrow> int option \<times> ext \<times> (int, ext) dict \<Rightarrow>
   (int option \<times> ext \<times> (int, ext) dict) res" where
  "worst_step rs m vm_id unit cur self user acc =
    (case acc of (worst_user, worst_ratio, ratios) \<Rightarrow>
       if user \<in> adjusted_users self vm_id then Inr acc
       else
         (case performance_ratio rs m self user of
            None \<Rightarrow> Inr acc
          | Some ratio \<Rightarrow>
              let ratios = dict_set user ratio ratios in
              if ratio < worst_ratio
              then
                let t = get_resource_type_for_user self vm_id user in
                rbind (dict_get cur user) (\<lambda>a.
                rbind (max_share rs t) (\<lambda>mx.
                if share t a + unit > mx then Inr (worst_user, worst_ratio, ratios)
                else Inr (Some user, ratio, ratios)))
              else Inr (worst_user, worst_ratio, ratios)))"

definition find_worst_performer_for_allocation ::
  "resource_scale \<Rightarrow> monitor \<Rightarrow> int \<Rightarrow> int list \<Rightarrow> rat \<Rightarrow> allocs \<Rightarrow> inc \<Rightarrow> (int option \<times> (int, ext) dict) res" where
  "find_worst_performer_for_allocation rs m vm_id users unit cur self =
     rbind (rfold (worst_step rs m vm_id unit cur self) users (None, PosInf, []))
       (\<lambda>(worst_user, worst_ratio, ratios). Inr (worst_user, ratios))"

definition best_step ::
  "resource_scale \<Rightarrow> int \<Rightarrow> res_type \<Rightarrow> rat \<Rightarrow> allocs \<Rightarrow> inc \<Rightarrow> int \<times> ext \<Rightarrow> int option \<times> ext \<Rightarrow> (int option \<times> ext) res" where
  "best_step rs vm_id t unit cur self entry acc =
    (case (entry, acc) of ((user, ratio), (best_user, best_ratio)) \<Rightarrow>
       if user \<in> adjusted_users self vm_id then Inr acc
       else if ratio > best_ratio
       then
         rbind (dict_get cur user) (\<lambda>a.
         rbind (min_share rs t) (\<lambda>mn.
         if share t a - unit < mn then Inr acc else Inr (Some user, ratio)))
       else Inr acc)"

definition find_best_performer_for_harvest ::
  "resource_scale \<Rightarrow> int \<Rightarrow> (int, ext) dict \<Rightarrow> res_type \<Rightarrow> rat \<Rightarrow> allocs \<Rightarrow> inc \<Rightarrow> int option res" where
  "find_best_performer_for_harvest rs vm_id ratios t unit cur self =
     rbind (rfold (best_step rs vm_id t unit cur self) ratios (None, NegInf)) (\<lambda>(best_user, best_ratio). Inr best_user)"

section \<open>Giving and taking\<close>

text \<open>Recording a decision for a user of a VM.\<close>

definition record_decision :: "int \<Rightarrow> int \<Rightarrow> res_type \<Rightarrow> direction \<Rightarrow> rat option \<Rightarrow> rat \<Rightarrow> inc \<Rightarrow> inc res" where
  "record_decision vm_id user t dir perf now self =
     rbind (dict_get (vm_allocation_decisions self) vm_id) (\<lambda>ds.
     Inr (self\<lparr>vm_allocation_decisions :=
            dict_set vm_id (dict_set user
              \<lparr>dc_res_type = t, dc_direction = dir, dc_performance = perf, dc_last_updated = now\<rparr> ds)
              (vm_allocation_decisions self),
          user_performances := dict_set user
            \<lparr>up_res_type = t, up_direction = dir, up_performance = perf\<rparr> (user_performances self)\<rparr>))"

definition allocate_resources ::
  "resource_scale \<Rightarrow> monitor \<Rightarrow> rat \<Rightarrow> int \<Rightarrow> int \<Rightarrow> res_type \<Rightarrow> rat \<Rightarrow> allocs \<Rightarrow> inc \<Rightarrow> (bool \<times> inc \<times> allocs) res" where
  "allocate_resources rs m now vm_id worst_user t unit cur self =
    (if remaining_resources self t > 0 then
       let self = self\<lparr>remaining_resources := (remaining_resources self)(t := remaining_resources self t - unit)\<rparr>;
           old_performance = get_current_performance rs m (last_alloc self) worst_user
       in
       rbind (dict_get cur worst_user) (\<lambda>a.
       let cur = dict_set worst_user (set_share t (share t a + unit) a) cur in
       rbind (record_decision vm_id worst_user t Up old_performance now self) (\<lambda>self.
       Inr (True, self, cur)))
     else Inr (False, self, cur))"

definition harvest_resources ::
  "resource_scale \<Rightarrow> monitor \<Rightarrow> rat \<Rightarrow> int \<Rightarrow> res_type \<Rightarrow> rat \<Rightarrow> (int, ext) dict \<Rightarrow> allocs \<Rightarrow> inc \<Rightarrow>
   (int option \<times> inc \<times> allocs) res" where
  "harvest_resources rs m now vm_id t unit ratios cur self =
     rbind (find_best_performer_for_harvest rs vm_id ratios t unit cur self) (\<lambda>best_user.
     case best_user of
       None \<Rightarrow> Inr (None, self, cur)
     | Some user \<Rightarrow>
         let old_performance = get_current_performance rs m (last_alloc self) user in
         rbind (dict_get cur user) (\<lambda>a.
         let x = share t a - unit;
             cur = dict_set user (set_share t (if x < 0 then 0 else x) a) cur;
             self = self\<lparr>remaining_resources := (remaining_resources self)(t := remaining_resources self t + unit)\<rparr>
         in
         rbind (record_decision vm_id user (opposite_resource t) Down old_performance now self) (\<lambda>self.
         Inr (Some user, self, cur))))"

section \<open>The trade of one VM\<close>

definition inc_start :: "int \<Rightarrow> inc \<Rightarrow> inc" where
  "inc_start vm_id self =
    (let self = (if has_key (vm_allocation_decisions self) vm_id then self
                 else self\<lparr>vm_allocation_decisions := dict_set vm_id [] (vm_allocation_decisions self)\<rparr>)
     in if has_key (last_adjusted_users self) vm_id then self
        else self\<lparr>last_adjusted_users := dict_set vm_id {} (last_adjusted_users self)\<rparr>)"

definition set_adjusted :: "int \<Rightarrow> int set \<Rightarrow> inc \<Rightarrow> inc" where
  "set_adjusted vm_id us self = self\<lparr>last_adjusted_users := dict_set vm_id us (last_adjusted_users self)\<rparr>"

definition inc_allocate ::
  "resource_scale \<Rightarrow> monitor \<Rightarrow> rat \<Rightarrow> rat \<Rightarrow> int \<Rightarrow> int list \<Rightarrow> inc \<Rightarrow> (inc \<times> allocs) res" where
  "inc_allocate rs m unit now vm_id users self =
    (let self = inc_start vm_id self in
     rbind (initialize_allocation (t_last_allocation self) users) (\<lambda>cur.
     rbind (check_performance_changes rs m vm_id users unit self) (\<lambda>self.
     rbind (find_worst_performer_for_allocation rs m vm_id users unit cur self) (\<lambda>(worst_user, ratios).
     case worst_user of
       None \<Rightarrow> Inr (self, cur)
     | Some user \<Rightarrow>
         let t = get_resource_type_for_user self vm_id user in
         rbind (allocate_resources rs m now vm_id user t unit cur self) (\<lambda>(adjustment_made, self, cur).
         rbind (if \<not> adjustment_made
                then rbind (harvest_resources rs m now vm_id t unit ratios cur self) (\<lambda>(best_user, self, cur).
                     Inr (set_adjusted vm_id (set_option best_user) self, cur))
                else Inr (set_adjusted vm_id {user} self, cur)) (\<lambda>(self, cur).
         rbind (normalize_allocations users cur) (\<lambda>cur.
         Inr (self, cur))))))))"

section \<open>A round\<close>

definition inc_allocate_vm ::
  "trade_params \<Rightarrow> resource_scale \<Rightarrow> trade_input \<Rightarrow> int \<Rightarrow> int list \<Rightarrow> inc \<Rightarrow> (inc \<times> allocs) res" where
  "inc_allocate_vm par rs i vm_id vm_apps self =
     inc_allocate rs (ti_monitor i) (tp_search_granularity par) (ti_now i vm_id) vm_id vm_apps self"

definition inc_allocate_and_parse ::
  "trade_params \<Rightarrow> resource_scale \<Rightarrow> trade_input \<Rightarrow> inc \<Rightarrow> (inc \<times> deployment) res" where
  "inc_allocate_and_parse par rs i self =
     trade_allocate_and_parse inc_update_last_static_performance (inc_allocate_vm par rs) par rs i self"

section \<open>The allocator's own invariant\<close>

text \<open>Every decision has a performance, and the pool holds a whole number of units of each resource.\<close>

definition inc_ok :: "rat \<Rightarrow> inc \<Rightarrow> bool" where
  "inc_ok unit s \<longleftrightarrow>
     (\<forall>vm ds u d. map_of (vm_allocation_decisions s) vm = Some ds \<longrightarrow> map_of ds u = Some d \<longrightarrow> dc_performance d \<noteq> None) \<and>
     (\<forall>t. \<exists>k::nat. remaining_resources s t = of_nat k * unit)"

text \<open>What the steps before the trade keep: the baseline, the users adjusted in the last round and the
  entries of other VMs.\<close>

definition inc_keeps :: "int \<Rightarrow> int list \<Rightarrow> inc \<Rightarrow> allocs \<Rightarrow> inc \<Rightarrow> bool" where
  "inc_keeps vm us s la s' \<longleftrightarrow>
     same_static s s' \<and> adjusted_users s' vm = adjusted_users s vm \<and> has_key (vm_allocation_decisions s') vm \<and>
     (\<exists>la'. t_last_allocation s' = Some la' \<and> (\<forall>u. u \<notin> set us \<longrightarrow> map_of la' u = map_of la u))"

lemma share_set_share [simp]:
  "share t (set_share t x a) = x" "t \<noteq> t' \<Longrightarrow> share t (set_share t' x a) = share t a"
  by (cases t; simp) (cases t; cases t'; simp)

lemma share_nonneg: "nonneg a \<Longrightarrow> 0 \<le> share t a"
  by (cases t) (simp_all add: nonneg_def)

lemma nonneg_set_share: "nonneg a \<Longrightarrow> 0 \<le> x \<Longrightarrow> nonneg (set_share t x a)"
  by (cases t) (simp_all add: nonneg_def)

lemma whole_units_more: "\<exists>k::nat. of_nat n * unit + unit = of_nat k * (unit::rat)"
  by (rule exI [of _ "Suc n"]) (simp add: distrib_right)

lemma whole_units_less:
  assumes "0 < of_nat n * unit \<or> 0 \<le> unit"
  shows "\<exists>k::nat. max 0 (of_nat n * unit - unit) = of_nat k * (unit::rat)"
proof (cases n)
  case 0
  then show ?thesis using assms by (intro exI [of _ 0]) (simp add: max_def)
next
  case (Suc k)
  then show ?thesis
    by (cases "0 \<le> unit") (auto simp: distrib_right max_def intro: exI [of _ k] exI [of _ 0])
qed

lemma inc_okD:
  assumes "inc_ok unit s" and "map_of (vm_decisions s vm) u = Some d"
  shows "\<exists>p. dc_performance d = Some p"
  using assms by (fastforce simp: inc_ok_def vm_decisions_def split: option.splits)

lemma inc_ok_decision:
  assumes "inc_ok unit s" and "dc_performance d \<noteq> None"
  shows "inc_ok unit (s\<lparr>vm_allocation_decisions := dict_set vm (dict_set u d (vm_decisions s vm)) (vm_allocation_decisions s),
    user_performances := p\<rparr>)"
  using assms by (fastforce simp: inc_ok_def vm_decisions_def split: option.splits if_splits)

lemma inc_start_ok:
  assumes "inc_ok unit s" and "t_last_allocation s = Some la"
  shows "inc_ok unit (inc_start vm s) \<and> inc_keeps vm us s la (inc_start vm s) \<and>
    t_last_allocation (inc_start vm s) = Some la"
  using assms
  by (auto simp: inc_start_def inc_ok_def inc_keeps_def same_static_def adjusted_users_def has_key_def Let_def)

section \<open>Checking the last decision\<close>

lemma last_decided_in:
  assumes "last_decided_user us ds = Some u"
  shows "u \<in> set us \<and> (\<exists>d. (u, d) \<in> set ds)"
proof -
  let ?f = "\<lambda>(user, d) (t, best). if user \<in> set us \<and> dc_last_updated d > t then (dc_last_updated d, Some user) else (t, best)"
  have "snd (fold ?f xs acc) = Some u \<Longrightarrow> snd acc = Some u \<or> u \<in> set us \<and> (\<exists>d. (u, d) \<in> set xs)" for xs acc
  proof (induction xs arbitrary: acc)
    case (Cons e xs)
    obtain w d where e: "e = (w, d)" by force
    from Cons.prems have "snd (fold ?f xs (?f e acc)) = Some u" by simp
    from Cons.IH [OF this] show ?case using e by (auto simp: case_prod_unfold split: if_splits)
  qed simp
  from this [of ds "(0, None)"] show ?thesis using assms by (auto simp: last_decided_user_def)
qed

lemma revoke_ok:
  assumes "inc_ok unit s" and "t_last_allocation s = Some la" and "holds la us" and "u \<in> set us" and "0 \<le> unit"
    and "has_key (vm_allocation_decisions s) vm"
  shows "\<exists>s'. revoke u t unit s = Inr s' \<and> inc_ok unit s' \<and> inc_keeps vm us s la s' \<and>
    vm_allocation_decisions s' = vm_allocation_decisions s"
proof -
  obtain a where a: "map_of la u = Some a" using holdsD [OF assms(3,4)] by blast
  obtain k where "remaining_resources s t = of_nat k * unit" using assms(1) unfolding inc_ok_def by blast
  then have "\<exists>k::nat. max 0 (remaining_resources s t - unit) = of_nat k * unit"
    using whole_units_less [of k unit] assms(5) by simp
  then show ?thesis using assms a
    by (auto simp: revoke_def last_alloc_def dict_get_Some inc_ok_def inc_keeps_def same_static_def adjusted_users_def)
qed

lemma judge_ok:
  assumes "inc_ok unit s" and "t_last_allocation s = Some la" and "holds la us" and "u \<in> set us" and "0 \<le> unit"
    and "has_key (vm_allocation_decisions s) vm" and "dc_performance d = Some p"
  shows "\<exists>s' t. judge_decision u d perf unit s = Inr (s', t) \<and> inc_ok unit s' \<and> inc_keeps vm us s la s' \<and>
    vm_allocation_decisions s' = vm_allocation_decisions s"
proof -
  have keep: "inc_keeps vm us s la s" using assms(2,6) by (simp add: inc_keeps_def same_static_def)
  obtain s' where "revoke u (dc_res_type d) unit s = Inr s'" "inc_ok unit s'" "inc_keeps vm us s la s'"
    "vm_allocation_decisions s' = vm_allocation_decisions s"
    using revoke_ok [OF assms(1-6)] by blast
  then show ?thesis using keep assms(1,7)
    by (cases "dc_direction d") (simp_all add: judge_decision_def)
qed

lemma check_ok:
  assumes "inc_ok unit s" and "t_last_allocation s = Some la" and "holds la us" and "0 \<le> unit"
    and "has_key (vm_allocation_decisions s) vm"
  shows "\<exists>s'. check_performance_changes rs m vm us unit s = Inr s' \<and> inc_ok unit s' \<and> inc_keeps vm us s la s'"
proof -
  have keep: "inc_keeps vm us s la s" using assms(2,5) by (simp add: inc_keeps_def same_static_def)
  show ?thesis
  proof (cases "last_decided_user us (vm_decisions s vm)")
    case None
    then show ?thesis using assms(1) keep by (simp add: check_performance_changes_def)
  next
    case (Some u)
    have u: "u \<in> set us" "has_key (vm_decisions s vm) u"
      using last_decided_in [OF Some] by (auto simp: has_key_iff rev_image_eqI)
    then obtain d where "map_of (vm_decisions s vm) u = Some d" by (auto simp: has_key_def)
    then obtain p where d: "map_of (vm_decisions s vm) u = Some d" "dc_performance d = Some p"
      using inc_okD [OF assms(1)] by blast
    show ?thesis
    proof (cases "u = 0 \<or> get_current_performance rs m (last_alloc s) u = None")
      case True
      then show ?thesis using Some d assms(1) keep by (auto simp: check_performance_changes_def dict_get_Some)
    next
      case False
      then obtain perf where perf: "get_current_performance rs m (last_alloc s) u = Some perf" "u \<noteq> 0" by auto
      obtain s1 t where j: "judge_decision u d perf unit s = Inr (s1, t)" "inc_ok unit s1" "inc_keeps vm us s la s1"
        using judge_ok [OF assms(1-3) u(1) assms(4,5) d(2)] by blast
      let ?s' = "s1\<lparr>vm_allocation_decisions := dict_set vm (dict_set u (d\<lparr>dc_res_type := t, dc_performance := Some perf\<rparr>)
          (vm_decisions s1 vm)) (vm_allocation_decisions s1),
        user_performances := dict_set u \<lparr>up_res_type = t, up_direction = dc_direction d, up_performance = Some perf\<rparr> (user_performances s1)\<rparr>"
      have "check_performance_changes rs m vm us unit s = Inr ?s'"
        using Some perf j(1) by (simp add: check_performance_changes_def dict_get_Some [OF d(1)])
      moreover have "inc_ok unit ?s'" by (rule inc_ok_decision [OF j(2)]) simp
      moreover have "inc_keeps vm us s la ?s'"
        using j(3) by (simp add: inc_keeps_def same_static_def adjusted_users_def)
      ultimately show ?thesis by blast
    qed
  qed
qed

section \<open>Worst and best performers\<close>

definition has_perf :: "resource_scale \<Rightarrow> monitor \<Rightarrow> inc \<Rightarrow> int \<Rightarrow> bool" where
  "has_perf rs m s u \<longleftrightarrow> get_current_performance rs m (last_alloc s) u \<noteq> None"

lemma performance_ratio_perf: "performance_ratio rs m s u = Some r \<Longrightarrow> has_perf rs m s u"
  by (auto simp: performance_ratio_def has_perf_def split: option.splits)

lemma share_limits_return [returns_intros]:
  "trade_scale rs \<Longrightarrow> returns (max_share rs t)" "trade_scale rs \<Longrightarrow> returns (min_share rs t)"
  by (cases t; fastforce simp: trade_scale_def field_def)+

lemma worst_step_ok:
  assumes "trade_scale rs" and "vm_alloc us cur" and u: "u \<in> set us"
    and P: "\<forall>v. w = Some v \<longrightarrow> ok v" "\<forall>v \<in> set (keys ratios). ok v"
    and ok: "\<And>r. u \<notin> adjusted_users s vm \<Longrightarrow> performance_ratio rs m s u = Some r \<Longrightarrow> ok u"
  shows "\<exists>w' r' ratios'. worst_step rs m vm unit cur s u (w, r, ratios) = Inr (w', r', ratios') \<and>
    (\<forall>v. w' = Some v \<longrightarrow> ok v) \<and> (\<forall>v \<in> set (keys ratios'). ok v)"
proof (cases "u \<in> adjusted_users s vm \<or> performance_ratio rs m s u = None")
  case True
  then show ?thesis using P by (auto simp: worst_step_def)
next
  case False
  then obtain ratio where ratio: "performance_ratio rs m s u = Some ratio" "u \<notin> adjusted_users s vm" by auto
  obtain a where a: "map_of cur u = Some a" using vm_allocD [OF assms(2) u] by blast
  obtain mx where mx: "max_share rs (get_resource_type_for_user s vm u) = Inr mx"
    using returnsD [OF share_limits_return(1) [OF assms(1)]] by blast
  have keys: "\<forall>v \<in> set (keys (dict_set u ratio ratios)). ok v"
    using P(2) ok [OF ratio(2,1)] unfolding set_keys_dict_set by auto
  show ?thesis using P(1) ok [OF ratio(2,1)] keys ratio
    by (simp add: worst_step_def Let_def dict_get_Some [OF a] mx del: set_map)
qed

lemma find_worst_ok:
  assumes "trade_scale rs" and "vm_alloc us cur"
  shows "\<exists>w ratios. find_worst_performer_for_allocation rs m vm us unit cur s = Inr (w, ratios) \<and>
    (\<forall>u. w = Some u \<longrightarrow> u \<in> set us - adjusted_users s vm \<and> has_perf rs m s u) \<and>
    (\<forall>u \<in> set (keys ratios). u \<in> set us - adjusted_users s vm \<and> has_perf rs m s u)"
proof -
  let ?ok = "\<lambda>u. u \<in> set us - adjusted_users s vm \<and> has_perf rs m s u"
  let ?P = "\<lambda>(w, r :: ext, ratios :: (int, ext) dict). (\<forall>u. w = Some u \<longrightarrow> ?ok u) \<and> (\<forall>u \<in> set (keys ratios). ?ok u)"
  have "\<exists>acc. rfold (worst_step rs m vm unit cur s) us (None, PosInf, []) = Inr acc \<and> ?P acc"
  proof (rule rfold_total)
    fix u acc
    assume u: "u \<in> set us" and P: "?P acc"
    obtain w r ratios where acc: "acc = (w, r, ratios)" by (cases acc) auto
    have "\<exists>w' r' ratios'. worst_step rs m vm unit cur s u (w, r, ratios) = Inr (w', r', ratios') \<and>
      (\<forall>v. w' = Some v \<longrightarrow> ?ok v) \<and> (\<forall>v \<in> set (keys ratios'). ?ok v)"
      by (rule worst_step_ok [OF assms u]) (use P acc u performance_ratio_perf in auto)
    then show "\<exists>acc'. worst_step rs m vm unit cur s u acc = Inr acc' \<and> ?P acc'" unfolding acc by auto
  qed simp
  then show ?thesis by (auto simp: find_worst_performer_for_allocation_def)
qed

lemma find_best_ok:
  assumes "trade_scale rs" and "vm_alloc us cur" and "set (keys ratios) \<subseteq> set us"
  shows "\<exists>b. find_best_performer_for_harvest rs vm ratios t unit cur s = Inr b \<and> (\<forall>u. b = Some u \<longrightarrow> u \<in> set (keys ratios))"
proof -
  let ?P = "\<lambda>(b, r :: ext). \<forall>u. b = Some u \<longrightarrow> u \<in> set (keys ratios)"
  have "\<exists>acc. rfold (best_step rs vm t unit cur s) ratios (None, NegInf) = Inr acc \<and> ?P acc"
  proof (rule rfold_total)
    fix e acc
    assume e: "e \<in> set ratios" and P: "?P acc"
    obtain u r where ur: "e = (u, r)" by force
    have u: "u \<in> set (keys ratios)" using e ur by force
    then obtain a where a: "map_of cur u = Some a" using vm_allocD [OF assms(2)] assms(3) by blast
    obtain mn where mn: "min_share rs t = Inr mn" using returnsD [OF share_limits_return(2) [OF assms(1)]] by blast
    show "\<exists>acc'. best_step rs vm t unit cur s e acc = Inr acc' \<and> ?P acc'"
      using P u unfolding ur by (cases acc) (simp add: best_step_def dict_get_Some [OF a] mn del: set_map)
  qed simp
  then show ?thesis by (auto simp: find_best_performer_for_harvest_def)
qed

section \<open>Giving and taking\<close>

lemma inc_keeps_trans:
  assumes "inc_keeps vm us s la s1" and "t_last_allocation s1 = Some la1" and "inc_keeps vm us s1 la1 s2"
  shows "inc_keeps vm us s la s2"
  using assms by (auto simp: inc_keeps_def same_static_def)

text \<open>A change of the pool that keeps it whole, followed by a decision.\<close>

lemma record_ok:
  assumes "inc_ok unit s" and "t_last_allocation s = Some la" and "has_key (vm_allocation_decisions s) vm"
    and "perf \<noteq> None" and "\<exists>k::nat. x = of_nat k * unit"
  shows "\<exists>s'. record_decision vm u t dir perf now (s\<lparr>remaining_resources := (remaining_resources s)(r := x)\<rparr>) = Inr s' \<and>
    inc_ok unit s' \<and> inc_keeps vm us s la s'"
proof -
  let ?s = "s\<lparr>remaining_resources := (remaining_resources s)(r := x)\<rparr>"
  let ?d = "\<lparr>dc_res_type = t, dc_direction = dir, dc_performance = perf, dc_last_updated = now\<rparr>"
  let ?p = "dict_set u \<lparr>up_res_type = t, up_direction = dir, up_performance = perf\<rparr> (user_performances ?s)"
  let ?s' = "?s\<lparr>vm_allocation_decisions := dict_set vm (dict_set u ?d (vm_decisions ?s vm)) (vm_allocation_decisions ?s),
    user_performances := ?p\<rparr>"
  have ok: "inc_ok unit ?s" using assms(1,5) by (simp add: inc_ok_def)
  obtain ds where ds: "map_of (vm_allocation_decisions s) vm = Some ds" using assms(3) by (auto simp: has_key_def)
  have "record_decision vm u t dir perf now ?s = Inr ?s'"
    using ds by (simp add: record_decision_def vm_decisions_def dict_get_Some)
  moreover have "inc_ok unit ?s'" by (rule inc_ok_decision [OF ok]) (use assms(4) in simp)
  moreover have "inc_keeps vm us s la ?s'"
    using assms(2) by (simp add: inc_keeps_def same_static_def adjusted_users_def)
  ultimately show ?thesis by blast
qed

lemma allocate_resources_ok:
  assumes "inc_ok unit s" and "t_last_allocation s = Some la" and "has_key (vm_allocation_decisions s) vm"
    and "vm_alloc us cur" and "u \<in> set us" and "has_perf rs m s u" and "0 \<le> unit"
  shows "\<exists>made s' cur'. allocate_resources rs m now vm u t unit cur s = Inr (made, s', cur') \<and> inc_ok unit s' \<and>
    inc_keeps vm us s la s' \<and> vm_alloc us cur' \<and> (\<not> made \<longrightarrow> s' = s \<and> cur' = cur) \<and>
    (\<forall>v. v \<noteq> u \<longrightarrow> map_of cur' v = map_of cur v)"
proof (cases "remaining_resources s t > 0")
  case True
  obtain a where a: "map_of cur u = Some a" "nonneg a" using vm_allocD [OF assms(4,5)] by blast
  obtain k where k: "remaining_resources s t = of_nat k * unit" using assms(1) unfolding inc_ok_def by blast
  then have "remaining_resources s t - unit = of_nat (k - 1) * unit"
    using True by (cases k) (simp_all add: distrib_right)
  then have whole: "\<exists>k::nat. remaining_resources s t - unit = of_nat k * unit" by blast
  have perf: "get_current_performance rs m (last_alloc s) u \<noteq> None" using assms(6) by (simp add: has_perf_def)
  obtain s' where s': "record_decision vm u t Up (get_current_performance rs m (last_alloc s) u) now
      (s\<lparr>remaining_resources := (remaining_resources s)(t := remaining_resources s t - unit)\<rparr>) = Inr s'"
    "inc_ok unit s'" "inc_keeps vm us s la s'"
    using record_ok [OF assms(1-3) perf whole] by blast
  let ?cur = "dict_set u (set_share t (share t a + unit) a) cur"
  have "vm_alloc us ?cur"
    by (rule vm_alloc_set [OF assms(4,5)]) (use a(2) share_nonneg [OF a(2)] assms(7) in \<open>simp add: nonneg_set_share\<close>)
  moreover have "allocate_resources rs m now vm u t unit cur s = Inr (True, s', ?cur)"
    using True s'(1) by (simp add: allocate_resources_def Let_def dict_get_Some [OF a(1)] last_alloc_def)
  ultimately show ?thesis using s'(2,3) by auto
next
  case False
  then show ?thesis using assms
    by (intro exI [of _ False] exI [of _ s] exI [of _ cur]) (simp add: allocate_resources_def inc_keeps_def same_static_def)
qed

lemma harvest_ok:
  assumes "inc_ok unit s" and "t_last_allocation s = Some la" and "has_key (vm_allocation_decisions s) vm"
    and "vm_alloc us cur" and ratios: "\<forall>u \<in> set (keys ratios). u \<in> set us - A \<and> has_perf rs m s u"
    and "trade_scale rs"
  shows "\<exists>b s' cur'. harvest_resources rs m now vm t unit ratios cur s = Inr (b, s', cur') \<and> inc_ok unit s' \<and>
    inc_keeps vm us s la s' \<and> vm_alloc us cur' \<and> (\<forall>v \<in> A. map_of cur' v = map_of cur v)"
proof -
  have sub: "set (keys ratios) \<subseteq> set us" using ratios by blast
  obtain b where b: "find_best_performer_for_harvest rs vm ratios t unit cur s = Inr b" "\<forall>u. b = Some u \<longrightarrow> u \<in> set (keys ratios)"
    using find_best_ok [OF assms(6,4) sub] by blast
  show ?thesis
  proof (cases b)
    case None
    then show ?thesis using b(1) assms by (simp add: harvest_resources_def inc_keeps_def same_static_def)
  next
    case (Some u)
    then have u: "u \<in> set us" "u \<notin> A" "has_perf rs m s u" using b(2) ratios by blast+
    obtain a where a: "map_of cur u = Some a" "nonneg a" using vm_allocD [OF assms(4) u(1)] by blast
    obtain k where k: "remaining_resources s t = of_nat k * unit" using assms(1) unfolding inc_ok_def by blast
    have perf: "get_current_performance rs m (last_alloc s) u \<noteq> None" using u(3) by (simp add: has_perf_def)
    obtain s' where s': "record_decision vm u (opposite_resource t) Down (get_current_performance rs m (last_alloc s) u) now
        (s\<lparr>remaining_resources := (remaining_resources s)(t := remaining_resources s t + unit)\<rparr>) = Inr s'"
      "inc_ok unit s'" "inc_keeps vm us s la s'"
      using record_ok [OF assms(1-3) perf] whole_units_more [of k unit] k by metis
    let ?cur = "dict_set u (set_share t (if share t a - unit < 0 then 0 else share t a - unit) a) cur"
    have "vm_alloc us ?cur" by (rule vm_alloc_set [OF assms(4) u(1)]) (simp add: nonneg_set_share a(2))
    moreover have "harvest_resources rs m now vm t unit ratios cur s = Inr (Some u, s', ?cur)"
      unfolding harvest_resources_def b(1) Some Let_def using s'(1) by (simp add: dict_get_Some [OF a(1)])
    moreover have "\<forall>v \<in> A. map_of ?cur v = map_of cur v" using u(2) by auto
    ultimately show ?thesis using s'(2,3) by blast
  qed
qed

section \<open>The trade of one VM\<close>

text \<open>The part of \<open>allocate\<close> for a worst performer, up to the normalisation.\<close>

definition adjust_for :: "resource_scale \<Rightarrow> monitor \<Rightarrow> rat \<Rightarrow> rat \<Rightarrow> int \<Rightarrow> int \<Rightarrow> (int, ext) dict \<Rightarrow> allocs \<Rightarrow> inc \<Rightarrow> (inc \<times> allocs) res" where
  "adjust_for rs m unit now vm user ratios cur s =
    (let t = get_resource_type_for_user s vm user in
     rbind (allocate_resources rs m now vm user t unit cur s) (\<lambda>(adjustment_made, self, cur).
     if \<not> adjustment_made
     then rbind (harvest_resources rs m now vm t unit ratios cur self) (\<lambda>(best_user, self, cur).
          Inr (set_adjusted vm (set_option best_user) self, cur))
     else Inr (set_adjusted vm {user} self, cur)))"

lemma adjusted_keeps:
  assumes "inc_ok unit s'" and "inc_keeps vm us s la s'"
  shows "inc_ok unit (set_adjusted vm A s') \<and> same_static s (set_adjusted vm A s') \<and>
    (\<exists>la'. t_last_allocation (set_adjusted vm A s') = Some la' \<and> (\<forall>u. u \<notin> set us \<longrightarrow> map_of la' u = map_of la u))"
  using assms by (auto simp: set_adjusted_def inc_ok_def inc_keeps_def same_static_def)

lemma adjust_ok:
  assumes "inc_ok unit s" and "t_last_allocation s = Some la" and "has_key (vm_allocation_decisions s) vm"
    and "vm_alloc us cur" and u: "u \<in> set us - A" "has_perf rs m s u" and "0 \<le> unit"
    and ratios: "\<forall>u \<in> set (keys ratios). u \<in> set us - A \<and> has_perf rs m s u" and "trade_scale rs"
  shows "\<exists>s' cur'. adjust_for rs m unit now vm u ratios cur s = Inr (s', cur') \<and> inc_ok unit s' \<and> same_static s s' \<and>
    (\<exists>la'. t_last_allocation s' = Some la' \<and> (\<forall>u. u \<notin> set us \<longrightarrow> map_of la' u = map_of la u)) \<and>
    vm_alloc us cur' \<and> (\<forall>v \<in> A. map_of cur' v = map_of cur v)"
proof -
  let ?t = "get_resource_type_for_user s vm u"
  obtain made s1 c1 where al: "allocate_resources rs m now vm u ?t unit cur s = Inr (made, s1, c1)" "inc_ok unit s1"
    "inc_keeps vm us s la s1" "vm_alloc us c1" "\<not> made \<longrightarrow> s1 = s \<and> c1 = cur" "\<forall>v. v \<noteq> u \<longrightarrow> map_of c1 v = map_of cur v"
    using allocate_resources_ok [OF assms(1-4) _ u(2) assms(7)] u(1) by blast
  show ?thesis
  proof (cases made)
    case True
    have "adjust_for rs m unit now vm u ratios cur s = Inr (set_adjusted vm {u} s1, c1)"
      using al(1) True by (simp add: adjust_for_def Let_def)
    moreover have "\<forall>v \<in> A. map_of c1 v = map_of cur v" using al(6) u(1) by auto
    ultimately show ?thesis using adjusted_keeps [OF al(2,3)] al(4) by blast
  next
    case False
    obtain b s2 c2 where "harvest_resources rs m now vm ?t unit ratios cur s = Inr (b, s2, c2)" "inc_ok unit s2"
      "inc_keeps vm us s la s2" "vm_alloc us c2" "\<forall>v \<in> A. map_of c2 v = map_of cur v"
      using harvest_ok [OF assms(1-4) ratios assms(9)] by blast
    moreover from this have "adjust_for rs m unit now vm u ratios cur s = Inr (set_adjusted vm (set_option b) s2, c2)"
      using al(1,5) False by (simp add: adjust_for_def Let_def)
    ultimately show ?thesis using adjusted_keeps [of unit s2 vm us s la] by blast
  qed
qed

lemma inc_allocate_eq:
  assumes "initialize_allocation (t_last_allocation (inc_start vm self)) us = Inr cur"
    and "check_performance_changes rs m vm us unit (inc_start vm self) = Inr s"
    and "find_worst_performer_for_allocation rs m vm us unit cur s = Inr (w, ratios)"
  shows "inc_allocate rs m unit now vm us self =
    (case w of
       None \<Rightarrow> Inr (s, cur)
     | Some user \<Rightarrow>
         rbind (adjust_for rs m unit now vm user ratios cur s) (\<lambda>(self, cur).
         rbind (normalize_allocations us cur) (\<lambda>cur. Inr (self, cur))))"
proof -
  have if_rbind: "rbind (if b then x else y) f = (if b then rbind x f else rbind y f)" for b and x y :: "(inc \<times> allocs) res" and f :: "inc \<times> allocs \<Rightarrow> (inc \<times> allocs) res"
    by simp
  show ?thesis unfolding inc_allocate_def adjust_for_def Let_def assms rbind_Inr
    by (cases w) (simp_all add: rbind_assoc case_prod_unfold if_rbind cong: if_cong)
qed

lemma inc_allocate_ok:
  assumes scale: "trade_scale rs" and ok: "inc_ok unit self" and la: "t_last_allocation self = Some la" and us: "us \<noteq> []" "distinct us"
    and held: "holds la us" and fit: "shares_fit la us" and unit: "0 \<le> unit"
  shows "\<exists>self' cur. inc_allocate rs m unit now vm us self = Inr (self', cur) \<and> vm_traded (inc_ok unit) us self la (self', cur) \<and>
    (\<forall>u \<in> set us \<inter> adjusted_users self vm. cache (the (map_of cur u)) \<le> cache (the (map_of la u)) \<and>
       mem_bw (the (map_of cur u)) \<le> mem_bw (the (map_of la u)))"
proof -
  let ?A = "adjusted_users self vm"
  obtain cur where cur: "initialize_allocation (Some la) us = Inr cur" "vm_alloc us cur"
    "\<forall>u \<in> set us. map_of cur u = map_option (\<lambda>a. mk_alloc (cache a) (mem_bw a)) (map_of la u)"
    using initialize_ok [OF us(1) held] by blast
  have start: "cache (the (map_of cur u)) = cache (the (map_of la u)) \<and> mem_bw (the (map_of cur u)) = mem_bw (the (map_of la u))"
    if "u \<in> set us" for u using cur(3) that holdsD [OF held that] by auto
  have s0: "inc_ok unit (inc_start vm self)" "inc_keeps vm us self la (inc_start vm self)" "t_last_allocation (inc_start vm self) = Some la"
    using inc_start_ok [OF ok la] by blast+
  have key: "has_key (vm_allocation_decisions (inc_start vm self)) vm" using s0(2) by (simp add: inc_keeps_def)
  obtain s where s: "check_performance_changes rs m vm us unit (inc_start vm self) = Inr s" "inc_ok unit s"
    "inc_keeps vm us (inc_start vm self) la s" using check_ok [OF s0(1,3) held unit key] by blast
  then have s: "check_performance_changes rs m vm us unit (inc_start vm self) = Inr s" "inc_ok unit s" "inc_keeps vm us self la s"
    using inc_keeps_trans [OF s0(2,3)] by blast+
  then obtain la1 where la1: "t_last_allocation s = Some la1" "\<And>u. u \<notin> set us \<Longrightarrow> map_of la1 u = map_of la u"
    "has_key (vm_allocation_decisions s) vm" "adjusted_users s vm = ?A" "same_static self s" by (auto simp: inc_keeps_def)
  obtain w ratios where w: "find_worst_performer_for_allocation rs m vm us unit cur s = Inr (w, ratios)"
    "\<forall>u. w = Some u \<longrightarrow> u \<in> set us - ?A \<and> has_perf rs m s u" "\<forall>u \<in> set (keys ratios). u \<in> set us - ?A \<and> has_perf rs m s u"
    using find_worst_ok [OF scale cur(2), of m vm unit s] la1(4) by auto
  note run = inc_allocate_eq [OF cur(1) [folded s0(3)] s(1) w(1), of now]
  show ?thesis
  proof (cases w)
    case None
    have "shares_fit cur us" using fit initialize_shares [OF cur(3) held] by (simp add: shares_fit_def)
    then have "vm_traded (inc_ok unit) us self la (s, cur)" using s(2) la1 cur(2) by (auto simp: vm_traded_def)
    then show ?thesis using run None start by auto
  next
    case (Some u)
    obtain s' c1 where adj: "adjust_for rs m unit now vm u ratios cur s = Inr (s', c1)" "inc_ok unit s'" "same_static s s'"
      "\<exists>la'. t_last_allocation s' = Some la' \<and> (\<forall>u. u \<notin> set us \<longrightarrow> map_of la' u = map_of la1 u)"
      "vm_alloc us c1" "\<forall>v \<in> ?A. map_of c1 v = map_of cur v"
      using adjust_ok [OF s(2) la1(1,3) cur(2) _ _ unit w(3) scale] w(2) Some by blast
    obtain c2 where norm: "normalize_allocations us c1 = Inr c2" "vm_alloc us c2" "shares_fit c2 us"
      "\<forall>u \<in> set us. cache (the (map_of c2 u)) \<le> cache (the (map_of c1 u)) \<and> mem_bw (the (map_of c2 u)) \<le> mem_bw (the (map_of c1 u))"
      using normalize_ok [OF adj(5) us(2)] by blast
    have "vm_traded (inc_ok unit) us self la (s', c2)"
      using adj(2-4) norm(2,3) la1(2,5) by (auto simp: vm_traded_def same_static_def)
    moreover have "inc_allocate rs m unit now vm us self = Inr (s', c2)" using run Some adj(1) norm(1) by simp
    ultimately show ?thesis using norm(4) adj(6) start by (intro exI [of _ s'] exI [of _ c2]) auto
  qed
qed

section \<open>All rounds\<close>

lemma inc_update_ok:
  assumes "inc_ok unit s" and "t_last_allocation s = None \<longrightarrow> t_last_static_allocation s = None"
  shows "\<exists>s'. inc_update_last_static_performance rs m users s = Inr s' \<and> inc_ok unit s' \<and>
    t_last_allocation s' = t_last_allocation s \<and> t_last_static_allocation s' = t_last_static_allocation s \<and>
    (t_last_allocation s = None \<longrightarrow> t_last_static_performance s' = t_last_static_performance s)"
proof -
  obtain r where "static_performance rs m users s = Inr r" "t_last_allocation s = None \<longrightarrow> r = None"
    using static_performance_ok [OF assms(2)] by blast
  then show ?thesis using assms(1) by (cases r) (auto simp: inc_update_last_static_performance_def inc_ok_def)
qed

interpretation inc: vm_trader inc_update_last_static_performance "inc_allocate_vm par rs" par rs "\<lambda>_ _. True"
  "inc_ok (tp_search_granularity par)" True for par rs
proof unfold_locales
  fix s :: inc and m users
  assume "inc_ok (tp_search_granularity par) s" "t_last_allocation s = None \<longrightarrow> t_last_static_allocation s = None"
  from inc_update_ok [OF this]
  show "\<exists>s'. inc_update_last_static_performance rs m users s = Inr s' \<and> inc_ok (tp_search_granularity par) s' \<and>
    t_last_allocation s' = t_last_allocation s \<and> t_last_static_allocation s' = t_last_static_allocation s \<and>
    (t_last_allocation s = None \<longrightarrow> t_last_static_performance s' = t_last_static_performance s)" .
next
  fix s :: inc and la us vm and i :: trade_input
  assume *: "inc_ok (tp_search_granularity par) s" "t_last_allocation s = Some la" "us \<noteq> []" "distinct us"
    "holds la us" "True \<longrightarrow> shares_fit la us" and "trade_setup par rs"
  then have "trade_scale rs" "0 \<le> tp_search_granularity par" "shares_fit la us" by (simp_all add: trade_setup_def)
  from inc_allocate_ok [OF this(1) *(1-5) this(3,2), of "ti_monitor i" "ti_now i vm" vm]
  show "outcome (\<forall>u \<in> set us. True) (vm_traded (inc_ok (tp_search_granularity par)) us s la) (inc_allocate_vm par rs i vm us s)"
    by (elim exE conjE) (simp add: inc_allocate_vm_def)
qed (simp_all add: inc_ok_def)

section \<open>Properties\<close>

text \<open>Two users of one VM at equal shares, the first one at half of its baseline performance and the second
  one at twice its baseline.\<close>

definition inc_rs :: resource_scale where
  "inc_rs = \<lparr>rs_cache = 2000, rs_mem_bw = 2, rs_min_cache = Some 200, rs_max_cache = Some 1800,
     rs_min_mem_bw = Some 0, rs_max_mem_bw = Some 2\<rparr>"

definition inc_monitor :: "rat \<Rightarrow> rat \<Rightarrow> monitor" where
  "inc_monitor p q = (init_monitor None)
     \<lparr>vm_to_app_map := [(0, [1, 2])], collected_data := [(1, new_app_data), (2, new_app_data)],
      recent_measurement := [(1, [[\<lparr>me_cache_size = 1000, me_mem_bw_in_gbps = 1, me_perf = p\<rparr>]]),
                             (2, [[\<lparr>me_cache_size = 1000, me_mem_bw_in_gbps = 1, me_perf = q\<rparr>]])]\<rparr>"

definition inc_la :: allocs where
  "inc_la = [(1, mk_alloc (1 / 2) (1 / 2)), (2, mk_alloc (1 / 2) (1 / 2))]"

definition inc_state :: inc where
  "inc_state = init_inc\<lparr>t_last_allocation := Some inc_la, t_last_static_allocation := Some inc_la,
     t_last_static_performance := Some [(1, 10), (2, 10)]\<rparr>"

definition inc_profile :: "int \<Rightarrow> profile" where
  "inc_profile u = \<lparr>pf_user_id = Some u, pf_file = Some [], pf_sensitivity = None, pf_oracle = None,
     pf_clip_l3miss = None, pf_clip_iteration = None\<rparr>"

definition inc_sample :: trade_input where
  "inc_sample =
     \<lparr>ti_estimator = \<lparr>profiles_config = Some [inc_profile 1, inc_profile 2], l3miss_clip = [], iteration_clip = [],
        e_num_vms = None\<rparr>,
      ti_monitor = inc_monitor 5 20, ti_env = \<lparr>env_alloc = None, env_monitor = None\<rparr>, ti_now = (\<lambda>_. 1),
      ti_skip_monitoring = False\<rparr>"

lemma inc_sample_good: "trade_good default_trade_params inc_rs (\<lambda>_ _. True) [1, 2] [(0, [1, 2])] inc_sample"
  by (simp add: trade_good_def trade_setup_def trade_scale_def inc_rs_def inc_sample_def inc_profile_def get_app_ids_def complete_vm_map_def
      mapped_apps_def default_trade_params_def inc_monitor_def)

lemma inc_init_ok: "inc_ok unit init_inc \<and> trade_inv fit users m init_inc"
  by (auto simp: inc_ok_def trade_inv_def init_inc_def intro: exI [of _ 0])



text \<open>The users that may get another unit, with their relative performance.\<close>

definition can_grow :: "resource_scale \<Rightarrow> monitor \<Rightarrow> int \<Rightarrow> rat \<Rightarrow> allocs \<Rightarrow> inc \<Rightarrow> int \<Rightarrow> ext \<Rightarrow> bool" where
  "can_grow rs m vm unit cur s u r \<longleftrightarrow>
     u \<notin> adjusted_users s vm \<and> performance_ratio rs m s u = Some r \<and>
     (\<exists>a mx. map_of cur u = Some a \<and> max_share rs (get_resource_type_for_user s vm u) = Inr mx \<and>
        share (get_resource_type_for_user s vm u) a + unit \<le> mx)"

lemma worst_step_cases:
  assumes "worst_step rs m vm unit cur s u (w, r, ratios) = Inr (w', r', ratios')"
  shows "(w', r') = (w, r) \<and> (\<forall>x. can_grow rs m vm unit cur s u x \<longrightarrow> r \<le> x) \<or>
    w' = Some u \<and> can_grow rs m vm unit cur s u r' \<and> r' < r"
  using assms
  by (auto simp: worst_step_def can_grow_def Let_def elim!: rbind_eq_InrE split: option.splits if_splits)

lemma worst_fold:
  assumes "rfold (worst_step rs m vm unit cur s) us (w, r, ratios) = Inr (w', r', ratios')"
  shows "r' \<le> r \<and> (\<forall>u \<in> set us. \<forall>x. can_grow rs m vm unit cur s u x \<longrightarrow> r' \<le> x) \<and>
    ((w', r') = (w, r) \<or> (\<exists>u \<in> set us. w' = Some u \<and> can_grow rs m vm unit cur s u r'))"
  using assms
proof (induction us arbitrary: w r ratios)
  case (Cons u us)
  obtain w1 r1 ra1 where step: "worst_step rs m vm unit cur s u (w, r, ratios) = Inr (w1, r1, ra1)"
    "rfold (worst_step rs m vm unit cur s) us (w1, r1, ra1) = Inr (w', r', ratios')"
    using Cons.prems by (auto elim!: rbind_eq_InrE)
  note ih = Cons.IH [OF step(2)]
  have same: "x = r1" if "can_grow rs m vm unit cur s u r1" "can_grow rs m vm unit cur s u x" for x
    using that by (simp add: can_grow_def)
  from worst_step_cases [OF step(1)] show ?case
  proof
    assume "(w1, r1) = (w, r) \<and> (\<forall>x. can_grow rs m vm unit cur s u x \<longrightarrow> r \<le> x)"
    then show ?thesis using ih by (auto intro: order_trans)
  next
    assume new: "w1 = Some u \<and> can_grow rs m vm unit cur s u r1 \<and> r1 < r"
    then have "\<forall>x. can_grow rs m vm unit cur s u x \<longrightarrow> r' \<le> x" using ih same by blast
    then show ?thesis using ih new by (auto intro: order_trans less_imp_le)
  qed
qed simp

text \<open>The user that gets the next unit is the worst one that can use it: it was not adjusted in the last
  round, a further unit stays within its maximum, and no other such user has a lower performance relative
  to its baseline.\<close>

lemma inc_worst_performer:
  assumes "find_worst_performer_for_allocation rs m vm us unit cur s = Inr (Some w, ratios)"
  shows "\<exists>r. w \<in> set us \<and> can_grow rs m vm unit cur s w r \<and> (\<forall>u \<in> set us. \<forall>x. can_grow rs m vm unit cur s u x \<longrightarrow> r \<le> x)"
proof -
  obtain r where "rfold (worst_step rs m vm unit cur s) us (None, PosInf, []) = Inr (Some w, r, ratios)"
    using assms by (auto simp: find_worst_performer_for_allocation_def elim!: rbind_eq_InrE)
  from worst_fold [OF this] show ?thesis by auto
qed

text \<open>C28. A revoke has no effect on the allocation of the round that decides it: whatever
  \<open>_check_performance_changes\<close> does to the last allocation, a user that was adjusted in the last round ends
  with no more of either resource than it had, because the current allocation was copied from the last one
  before the check.\<close>

theorem inc_revoke_lost:
  assumes "trade_scale rs" and "inc_ok unit self" and "t_last_allocation self = Some la" and "us \<noteq> []" and "distinct us"
    and "holds la us" and "shares_fit la us" and "0 \<le> unit" and "u \<in> set us" and "u \<in> adjusted_users self vm"
  shows "\<exists>self' cur. inc_allocate rs m unit now vm us self = Inr (self', cur) \<and>
    cache (the (map_of cur u)) \<le> cache (the (map_of la u)) \<and> mem_bw (the (map_of cur u)) \<le> mem_bw (the (map_of la u))"
  using inc_allocate_ok [OF assms(1-8), of m now vm] assms(9,10) by blast

text \<open>A state in which user 2 was harvested in the last round and has lost half of its performance since: the
  check raises its last allocation.\<close>

definition inc_harvested :: inc where
  "inc_harvested = inc_state\<lparr>last_adjusted_users := [(0, {2})],
     vm_allocation_decisions := [(0, [(2, \<lparr>dc_res_type = Mem_Bw, dc_direction = Down, dc_performance = Some 20, dc_last_updated = 1\<rparr>)])]\<rparr>"

theorem inc_revoke_lost_witness:
  "(case check_performance_changes inc_rs (inc_monitor 5 10) 0 [1, 2] (1 / 8) inc_harvested of
      Inl e \<Rightarrow> False | Inr s \<Rightarrow> map_option mem_bw (map_of (last_alloc s) 2) = Some (5 / 8)) \<and>
   (\<exists>self' cur. inc_allocate inc_rs (inc_monitor 5 10) (1 / 8) 2 0 [1, 2] inc_harvested = Inr (self', cur) \<and>
      mem_bw (the (map_of cur 2)) \<le> 1 / 2)"
proof
  show "case check_performance_changes inc_rs (inc_monitor 5 10) 0 [1, 2] (1 / 8) inc_harvested of
      Inl e \<Rightarrow> False | Inr s \<Rightarrow> map_option mem_bw (map_of (last_alloc s) 2) = Some (5 / 8)" by code_simp
  have "\<exists>self' cur. inc_allocate inc_rs (inc_monitor 5 10) (1 / 8) 2 0 [1, 2] inc_harvested = Inr (self', cur) \<and>
    cache (the (map_of cur 2)) \<le> cache (the (map_of inc_la 2)) \<and> mem_bw (the (map_of cur 2)) \<le> mem_bw (the (map_of inc_la 2))"
    by (rule inc_revoke_lost)
      (auto simp: inc_ok_def inc_harvested_def inc_state_def init_inc_def inc_la_def trade_scale_def inc_rs_def holds_def
        nonneg_def shares_fit_def share_sum_def adjusted_users_def split: if_splits intro: exI [of _ 0])
  then show "\<exists>self' cur. inc_allocate inc_rs (inc_monitor 5 10) (1 / 8) 2 0 [1, 2] inc_harvested = Inr (self', cur) \<and>
      mem_bw (the (map_of cur 2)) \<le> 1 / 2" by (auto simp: inc_la_def)
qed

end
