(* ===== verification/Evaluation.thy ===== *)
theory Evaluation
  imports Fij_Control Inc Spirit_Rounds
begin

text \<open>
  \<open>src/res_allocation/utils/config.py\<close> and \<open>src/res_allocation/main_memcached.py\<close>: the configuration file is read
  and gives the resource scale, the allocator with its parameters, and the length of the run.  The file is
  given as its JSON document, with \<open>None\<close> where a key is missing; its numbers are rationals.  Starting and
  stopping the server thread and closing the log files are left out.
\<close>

section \<open>Configuration\<close>

record cluster_json =
  cj_name :: "string option"
  cj_total_cache_in_mb :: "rat option"
  cj_total_mem_bw_in_mbps :: "rat option"
  cj_min_cache_in_mb :: "rat option"
  cj_max_cache_in_mb :: "rat option"
  cj_min_mem_bw_in_mbps :: "rat option"
  cj_max_mem_bw_in_mbps :: "rat option"
  cj_num_vms :: "int option"

record controller_json =
  kj_base_url :: "string option"
  kj_collect_route :: "string option"
  kj_deploy_route :: "string option"

record config_json =
  js_cluster :: "cluster_json option"
  js_resource_controller :: "controller_json option"
  js_benchmark_map :: "(string, string) dict option"
  js_allocation_parameters :: "(string, rat) dict option"
  js_profiles :: "profile list option"

text \<open>The attributes of a \<open>Config\<close> object; the ones of the cluster and the benchmark map exist only when the
  file has them.\<close>

record cluster_config =
  cluster_name :: string
  cache_in_mb :: rat
  mem_bw_in_mbps :: rat
  min_cache_in_mb :: rat
  max_cache_in_mb :: rat
  min_mem_bw_in_mbps :: rat
  max_mem_bw_in_mbps :: rat

record config =
  cf_url :: string
  cf_collect_route :: string
  cf_deploy_route :: string
  cf_cluster :: "cluster_config option"
  cf_benchmark_map :: "(string, string) dict option"
  cf_allocation_parameters :: "(string, rat) dict option"
  cf_profiles :: "profile list option"

definition init_config :: config where
  "init_config =
     \<lparr>cf_url = ''http://localhost'', cf_collect_route = ''/collect'', cf_deploy_route = ''/deploy'', cf_cluster = None,
      cf_benchmark_map = None, cf_allocation_parameters = None, cf_profiles = None\<rparr>"

definition load_cluster :: "cluster_json \<Rightarrow> cluster_config res" where
  "load_cluster j =
     rbind (field (cj_name j)) (\<lambda>name.
     rbind (field (cj_total_cache_in_mb j)) (\<lambda>total_cache.
     rbind (field (cj_total_mem_bw_in_mbps j)) (\<lambda>total_bw.
     rbind (field (cj_min_cache_in_mb j)) (\<lambda>min_c.
     rbind (field (cj_min_mem_bw_in_mbps j)) (\<lambda>min_b.
     Inr \<lparr>cluster_name = name, cache_in_mb = total_cache, mem_bw_in_mbps = total_bw, min_cache_in_mb = min_c,
          max_cache_in_mb = (case cj_max_cache_in_mb j of None \<Rightarrow> total_cache | Some x \<Rightarrow> x),
          min_mem_bw_in_mbps = min_b,
          max_mem_bw_in_mbps = (case cj_max_mem_bw_in_mbps j of None \<Rightarrow> total_bw | Some x \<Rightarrow> x)\<rparr>)))))"

definition load_config :: "config_json \<Rightarrow> config res" where
  "load_config data =
     rbind (case js_cluster data of
              None \<Rightarrow> Inr init_config
            | Some j \<Rightarrow> rbind (load_cluster j) (\<lambda>c. Inr (init_config\<lparr>cf_cluster := Some c\<rparr>))) (\<lambda>cf.
     rbind (case js_resource_controller data of
              None \<Rightarrow> Inr cf
            | Some k \<Rightarrow>
                rbind (field (kj_base_url k)) (\<lambda>url.
                rbind (field (kj_collect_route k)) (\<lambda>collect_route.
                rbind (field (kj_deploy_route k)) (\<lambda>deploy_route.
                Inr (cf\<lparr>cf_url := url, cf_collect_route := collect_route, cf_deploy_route := deploy_route\<rparr>))))) (\<lambda>cf.
     Inr (cf\<lparr>cf_benchmark_map := (if js_benchmark_map data = None then cf_benchmark_map cf else js_benchmark_map data),
             cf_allocation_parameters :=
               (if js_allocation_parameters data = None then cf_allocation_parameters cf else js_allocation_parameters data),
             cf_profiles := (if js_profiles data = None then cf_profiles cf else js_profiles data)\<rparr>)))"

section \<open>Setting up a run\<close>

record args =
  arg_allocator :: string
  arg_alloc_interval :: int
  arg_max_iter :: int

datatype allocator_kind = Spirit_Kind | Static_Kind | Oracle_Kind | Inc_Trade_Kind | Fij_Trade_Kind

definition allocator_of :: "string \<Rightarrow> allocator_kind res" where
  "allocator_of name =
    (if name = ''spirit'' then Inr Spirit_Kind
     else if name = ''static'' then Inr Static_Kind
     else if name = ''oracle'' then Inr Oracle_Kind
     else if name = ''inc-trade'' then Inr Inc_Trade_Kind
     else if name = ''fij-trade'' then Inr Fij_Trade_Kind
     else Inl (PyException (''Unknown allocator type: '' @ name)))"

text \<open>\<open>a // b\<close> of numbers.\<close>

definition floor_div :: "rat \<Rightarrow> rat \<Rightarrow> rat res" where
  "floor_div a b = (if b = 0 then Inl ZeroDivisionError else Inr (of_int \<lfloor>a / b\<rfloor>))"

text \<open>An attribute that may not have been set.\<close>

definition attribute :: "'a option \<Rightarrow> 'a res" where
  "attribute x = (case x of None \<Rightarrow> Inl AttributeError | Some v \<Rightarrow> Inr v)"

definition configured_interval :: "config \<Rightarrow> rat option" where
  "configured_interval cf = Option.bind (cf_allocation_parameters cf) (\<lambda>d. map_of d ''allocation_interval_in_sec'')"

definition resource_scale_of :: "cluster_config \<Rightarrow> resource_scale" where
  "resource_scale_of c =
     \<lparr>rs_cache = cache_in_mb c, rs_mem_bw = mem_bw_in_mbps c / 1024,
      rs_min_cache = Some (min_cache_in_mb c), rs_max_cache = Some (max_cache_in_mb c),
      rs_min_mem_bw = Some (min_mem_bw_in_mbps c / 1024), rs_max_mem_bw = Some (max_mem_bw_in_mbps c / 1024)\<rparr>"

text \<open>What \<open>run_evaluation\<close> hands to \<open>start\<close>: the components, the parameters and the number of iterations.  The
  estimator reads the same file again.\<close>

record evaluation =
  ev_kind :: allocator_kind
  ev_scale :: resource_scale
  ev_estimator :: estimator
  ev_monitor_interval :: "int option"
  ev_params :: loop_params
  ev_max_iteration :: rat
  ev_init_phase_interval :: nat

definition run_evaluation :: "args \<Rightarrow> config_json \<Rightarrow> evaluation res" where
  "run_evaluation args data =
     rbind (load_config data) (\<lambda>cf.
     let interval = (case configured_interval cf of None \<Rightarrow> 10 | Some x \<Rightarrow> x) in
     rbind (floor_div (of_int (arg_max_iter args) * 10) interval) (\<lambda>max_iteration.
     rbind (attribute (cf_benchmark_map cf)) (\<lambda>benchmark_map.
     rbind (attribute (cf_cluster cf)) (\<lambda>cluster.
     rbind (allocator_of (arg_allocator args)) (\<lambda>kind.
     rbind (read_config (js_profiles data) (Option.bind (js_cluster data) cj_num_vms) init_estimator) (\<lambda>est.
     Inr \<lparr>ev_kind = kind, ev_scale = resource_scale_of cluster, ev_estimator = est,
          ev_monitor_interval = map_option py_int (configured_interval cf), ev_params = loop_params_of interval,
          ev_max_iteration = max_iteration,
          ev_init_phase_interval = (if kind = Inc_Trade_Kind then 3 * 3 else 3)\<rparr>))))))"

section \<open>Lemmas\<close>

lemma read_profiles_keep:
  assumes "rfold read_profile ps e = Inr e'"
  shows "profiles_config e' = profiles_config e \<and> e_num_vms e' = e_num_vms e \<and> (\<forall>p \<in> set ps. pf_user_id p \<noteq> None)"
  using assms
proof (induction ps arbitrary: e)
  case (Cons p ps)
  obtain e1 where e1: "read_profile p e = Inr e1" "rfold read_profile ps e1 = Inr e'"
    using Cons.prems by (auto simp: rbind_eq_Inr)
  have "profiles_config e1 = profiles_config e \<and> e_num_vms e1 = e_num_vms e \<and> pf_user_id p \<noteq> None"
    using e1(1) by (auto simp: read_profile_def Let_def split: option.splits)
  then show ?case using Cons.IH [OF e1(2)] by simp
qed simp

lemma app_ids_of_profiles:
  assumes "\<forall>p \<in> set ps. pf_user_id p \<noteq> None"
  shows "rfold (\<lambda>p ids. case pf_user_id p of None \<Rightarrow> Inl KeyError | Some u \<Rightarrow> Inr (ids @ [u])) ps ids =
    Inr (ids @ map (\<lambda>p. the (pf_user_id p)) ps)"
  using assms by (induction ps arbitrary: ids) auto

lemma read_config_users:
  assumes "read_config (Some ps) n init_estimator = Inr est"
  shows "get_app_ids est = Inr (map (\<lambda>p. the (pf_user_id p)) ps) \<and> e_num_vms est = n"
proof -
  have *: "profiles_config est = Some ps \<and> e_num_vms est = n \<and> (\<forall>p \<in> set ps. pf_user_id p \<noteq> None)"
    using assms read_profiles_keep [of ps _ est] by (auto simp: read_config_def Let_def)
  then show ?thesis using app_ids_of_profiles [of ps "[]"] by (simp add: get_app_ids_def)
qed

lemma load_config_cluster:
  assumes "load_config data = Inr cf" and "cf_cluster cf = Some c"
  obtains j where "js_cluster data = Some j" "load_cluster j = Inr c"
  using assms by (auto simp: load_config_def rbind_eq_Inr init_config_def split: option.splits)

lemma load_config_interval:
  assumes "load_config data = Inr cf"
  shows "cf_allocation_parameters cf = js_allocation_parameters data"
  using assms by (auto simp: load_config_def rbind_eq_Inr init_config_def split: option.splits if_splits)

lemma load_cluster_totals:
  assumes "load_cluster j = Inr c"
  shows "cj_total_cache_in_mb j = Some (cache_in_mb c)" "cj_total_mem_bw_in_mbps j = Some (mem_bw_in_mbps c)"
    "cj_min_cache_in_mb j = Some (min_cache_in_mb c)" "cj_min_mem_bw_in_mbps j = Some (min_mem_bw_in_mbps c)"
  using assms by (auto simp: load_cluster_def rbind_eq_Inr field_def split: option.splits)

text \<open>The interval that a run uses.\<close>

definition interval_of :: "config_json \<Rightarrow> rat" where
  "interval_of data =
    (case Option.bind (js_allocation_parameters data) (\<lambda>d. map_of d ''allocation_interval_in_sec'') of None \<Rightarrow> 10 | Some x \<Rightarrow> x)"

lemma run_evaluation_cases:
  assumes "run_evaluation args data = Inr ev"
  obtains j c where "js_cluster data = Some j" "load_cluster j = Inr c" "ev_scale ev = resource_scale_of c"
    "allocator_of (arg_allocator args) = Inr (ev_kind ev)"
    "read_config (js_profiles data) (cj_num_vms j) init_estimator = Inr (ev_estimator ev)"
    "ev_params ev = loop_params_of (interval_of data)" "interval_of data \<noteq> 0"
    "ev_max_iteration ev = of_int \<lfloor>of_int (arg_max_iter args) * 10 / interval_of data\<rfloor>"
proof -
  obtain cf where cf: "load_config data = Inr cf" using assms by (auto simp: run_evaluation_def rbind_eq_Inr)
  have iv: "(case configured_interval cf of None \<Rightarrow> 10 | Some x \<Rightarrow> x) = interval_of data"
    using load_config_interval [OF cf] by (simp add: configured_interval_def interval_of_def)
  obtain c where c: "cf_cluster cf = Some c" "ev_scale ev = resource_scale_of c"
    using assms by (auto simp: run_evaluation_def cf Let_def rbind_eq_Inr attribute_def split: option.splits)
  obtain j where j: "js_cluster data = Some j" "load_cluster j = Inr c" by (rule load_config_cluster [OF cf c(1)])
  show thesis
    by (rule that [OF j c(2)])
      (use assms iv j(1) in \<open>auto simp: run_evaluation_def cf Let_def rbind_eq_Inr floor_div_def split: if_splits\<close>)
qed

text \<open>A cluster with sensible numbers gives a scale that all allocators accept.\<close>

lemma resource_scale_ok:
  assumes "load_cluster j = Inr c" and "0 < cache_in_mb c" and "0 < mem_bw_in_mbps c"
    and "0 \<le> min_cache_in_mb c" and "0 \<le> min_mem_bw_in_mbps c"
  shows "trade_scale (resource_scale_of c)"
proof -
  have "rs_min_mem_bw (resource_scale_of c) = Some (min_mem_bw_in_mbps c / 1024)"
    "rs_max_mem_bw (resource_scale_of c) = Some (max_mem_bw_in_mbps c / 1024)" "0 \<le> min_mem_bw_in_mbps c / 1024"
    using assms(5) by (simp_all add: resource_scale_of_def)
  then have "\<exists>mn mx. rs_min_mem_bw (resource_scale_of c) = Some mn \<and> rs_max_mem_bw (resource_scale_of c) = Some mx \<and> 0 \<le> mn"
    by blast
  then show ?thesis unfolding trade_scale_def using assms(2-4) by (auto simp: resource_scale_of_def)
qed

text \<open>The option \<open>--alloc_interval\<close> is parsed, but a run does not depend on it.\<close>

lemma alloc_interval_ignored: "run_evaluation (args\<lparr>arg_alloc_interval := x\<rparr>) data = run_evaluation args data"
  by (simp add: run_evaluation_def)

lemma vm_fits_scale:
  "vm_fits (resource_scale_of c) 0 apps d \<longleftrightarrow>
     (\<Sum>u\<leftarrow>apps. of_int (cache_of d u)) \<le> cache_in_mb c \<and> (\<Sum>u\<leftarrow>apps. of_int (mem_bw_of d u)) \<le> mem_bw_in_mbps c"
  by (simp add: vm_fits_def resource_scale_of_def)

section \<open>A whole run\<close>

definition evaluate_static :: "evaluation \<Rightarrow> (nat \<Rightarrow> iter_env) \<Rightarrow> unit controller res" where
  "evaluate_static ev world =
     start (static_on_view (ev_scale ev)) (Some (ev_params ev)) (ev_max_iteration ev) False (25 / 1000) world
       (init_controller (ev_estimator ev) (ev_monitor_interval ev) ())"


definition sample_args :: args where
  "sample_args = \<lparr>arg_allocator = ''static'', arg_alloc_interval = 15, arg_max_iter = 6\<rparr>"

definition sample_config_json :: config_json where
  "sample_config_json =
     \<lparr>js_cluster = Some \<lparr>cj_name = Some ''mindv2'', cj_total_cache_in_mb = Some 10240, cj_total_mem_bw_in_mbps = Some 7680,
        cj_min_cache_in_mb = Some 512, cj_max_cache_in_mb = None, cj_min_mem_bw_in_mbps = Some 512, cj_max_mem_bw_in_mbps = None,
        cj_num_vms = Some 2\<rparr>,
      js_resource_controller = None, js_benchmark_map = Some [], js_allocation_parameters = Some [(''allocation_interval_in_sec'', 30)],
      js_profiles = Some [trade_profile 1, trade_profile 2, trade_profile 3]\<rparr>"

lemma sample_evaluation: "case run_evaluation sample_args sample_config_json of Inl e \<Rightarrow> False | Inr ev \<Rightarrow> True"
  by code_simp


end
