(* ===== verification/Oracle_Alloc.thy ===== *)
theory Oracle_Alloc
  imports Deployer
begin

text \<open>
  \<open>src/res_allocation/allocators/oracle_allocator.py\<close> and \<open>utils/helpers.py\<close>: the allocator that hands out the
  allocation of the configuration, and otherwise divides the resources by what the applications are sensitive
  to.  \<open>allocate_and_parse\<close> returns the dictionaries of the configuration as they are, so its result is what
  the deployer takes.  With \<open>alloc_remaining\<close>, which \<open>allocate_and_parse\<close> leaves at \<open>False\<close>, the amounts of
  the applications of a VM are scaled to its resources; the scaled amounts are written into the dictionaries
  of the configuration, and one call is modelled.
\<close>

section \<open>Model\<close>

definition create_app_to_vm_map :: "(int, int list) dict \<Rightarrow> (int, int) dict" where
  "create_app_to_vm_map vm_map =
     fold (\<lambda>(vm, apps). fold (\<lambda>app. dict_set app vm) apps) vm_map []"

text \<open>The value of \<open>oracle_allocation\<close> in a profile: cache and bandwidth, each of which may be missing.\<close>

type_synonym oracle_amounts = "(int option \<times> int option) option"

definition oracle_entry :: "oracle_amounts \<Rightarrow> resources" where
  "oracle_entry x =
    (case x of None \<Rightarrow> Not_Dict | Some (c, b) \<Rightarrow> Resources (map_option Int_Amount c) (map_option Int_Amount b))"

text \<open>Every profile has a \<open>user_id\<close> here: the caller has read them all before.\<close>

definition configured :: "profile list \<Rightarrow> (int, oracle_amounts) dict" where
  "configured ps = fold (\<lambda>p. dict_set (the (pf_user_id p)) (pf_oracle p)) ps []"

definition group_by_vm :: "(int, int) dict \<Rightarrow> int list \<Rightarrow> (int, int list) dict" where
  "group_by_vm app_to_vm_map users =
     fold (\<lambda>user vm_users.
       case map_of app_to_vm_map user of
         None \<Rightarrow> vm_users
       | Some vm \<Rightarrow> if vm \<noteq> 0 then dict_set vm (dict_at vm_users vm @ [user]) vm_users else vm_users) users []"

text \<open>\<open>.get("cache", 0)\<close> and \<open>.get("mem_bw", 0)\<close>\<close>

definition asked :: "oracle_amounts \<Rightarrow> (int \<times> int) res" where
  "asked x =
    (case x of
       None \<Rightarrow> Inl AttributeError
     | Some (c, b) \<Rightarrow> Inr (case c of None \<Rightarrow> 0 | Some n \<Rightarrow> n, case b of None \<Rightarrow> 0 | Some n \<Rightarrow> n))"

definition scaled :: "int \<Rightarrow> rat \<Rightarrow> int option \<Rightarrow> int option" where
  "scaled amount capacity x =
    (if amount > 0 then Some (py_int (of_int (case x of None \<Rightarrow> 0 | Some n \<Rightarrow> n) * capacity / of_int amount)) else x)"

definition normalise_vm :: "resource_scale \<Rightarrow> int list \<Rightarrow> (int, oracle_amounts) dict \<Rightarrow> (int, oracle_amounts) dict res" where
  "normalise_vm rs users allocation =
     rbind (rfold (\<lambda>user (total_cache, total_mem_bw).
         rbind (dict_get allocation user) (\<lambda>x.
         rbind (asked x) (\<lambda>(c, b). Inr (total_cache + c, total_mem_bw + b)))) users (0, 0)) (\<lambda>(total_cache, total_mem_bw).
     Inr (if of_int total_cache > rs_cache rs \<or> of_int total_mem_bw > rs_mem_bw rs * 1024
          then fold (\<lambda>user alloc. dict_set user
                 (map_option (\<lambda>(c, b). (scaled total_cache (rs_cache rs) c, scaled total_mem_bw (1024 * rs_mem_bw rs) b))
                   (the (map_of alloc user))) alloc) users allocation
          else allocation))"

definition normalise_remaining ::
  "resource_scale \<Rightarrow> (int, int list) dict \<Rightarrow> (int, oracle_amounts) dict \<Rightarrow> (int, oracle_amounts) dict res" where
  "normalise_remaining rs vm_map allocation =
     rfold (\<lambda>(vm, users). normalise_vm rs users)
       (group_by_vm (create_app_to_vm_map vm_map) (keys allocation)) allocation"

text \<open>\<open>None\<close> also stands for the end of the method without a \<open>return\<close>, and for every exception inside the
  \<open>try\<close> statement.\<close>

definition get_oracle_allocation ::
  "bool \<Rightarrow> resource_scale \<Rightarrow> (int, int list) dict \<Rightarrow> estimator \<Rightarrow> resource_alloc option" where
  "get_oracle_allocation alloc_remaining rs vm_map e =
    (case profiles_config e of
       None \<Rightarrow> None
     | Some ps \<Rightarrow>
         if 0 < length ps
         then
           (case if alloc_remaining then normalise_remaining rs vm_map (configured ps) else Inr (configured ps) of
              Inl _ \<Rightarrow> None
            | Inr allocation \<Rightarrow> Some (map (\<lambda>(u, x). (u, oracle_entry x)) allocation))
         else None)"

text \<open>The amounts for the applications of one kind of sensitivity: what is left of the resource when the
  others have their minimum.\<close>

definition sensitive_amounts :: "resource_scale \<Rightarrow> (string, int list) dict \<Rightarrow> ((rat \<times> rat) \<times> (rat \<times> rat)) res" where
  "sensitive_amounts rs sensitivity =
     rbind (case map_of sensitivity ''mem_bw'' of
              None \<Rightarrow> Inr (0, 0)
            | Some us \<Rightarrow> rbind (field (rs_min_cache rs)) (\<lambda>mn. Inr (of_nat (length us) * mn, of_nat (length us))))
       (\<lambda>(min_cache_for_mem_sensitive, mem_sensitive_users).
     rbind (case map_of sensitivity ''cache'' of
              None \<Rightarrow> Inr (0, 0)
            | Some us \<Rightarrow> rbind (field (rs_min_mem_bw rs)) (\<lambda>mn. Inr (of_nat (length us) * mn, of_nat (length us))))
       (\<lambda>(min_mem_bw_for_cache_sensitive, cache_sensitive_users).
     rbind (fdiv (rs_cache rs - min_cache_for_mem_sensitive) cache_sensitive_users) (\<lambda>c.
     rbind (field (rs_min_mem_bw rs)) (\<lambda>min_bw.
     rbind (field (rs_min_cache rs)) (\<lambda>min_cache.
     rbind (fdiv (rs_mem_bw rs - min_mem_bw_for_cache_sensitive) mem_sensitive_users) (\<lambda>b.
     Inr ((c, min_bw), (min_cache, b))))))))"

definition amount_entry :: "rat \<times> rat \<Rightarrow> resources" where
  "amount_entry x = Resources (Some (Int_Amount (py_int (fst x)))) (Some (Int_Amount (py_int (snd x * 1024))))"

definition sensitive_to :: "(string, int list) dict \<Rightarrow> string \<Rightarrow> int \<Rightarrow> bool" where
  "sensitive_to sensitivity kind u = (case map_of sensitivity kind of None \<Rightarrow> False | Some us \<Rightarrow> u \<in> set us)"

definition allocate_by_sensitivity :: "resource_scale \<Rightarrow> int list \<Rightarrow> (string, int list) dict \<Rightarrow> resource_alloc res" where
  "allocate_by_sensitivity rs users sensitivity =
     rbind (sensitive_amounts rs sensitivity) (\<lambda>(for_cache, for_mem_bw).
     Inr (fold (\<lambda>user. dict_set user
       (if sensitive_to sensitivity ''cache'' user then amount_entry for_cache
        else if sensitive_to sensitivity ''mem_bw'' user then amount_entry for_mem_bw
        else Resources None None)) users []))"

definition oracle_allocate_and_parse :: "resource_scale \<Rightarrow> (int, int list) dict \<Rightarrow> estimator \<Rightarrow> resource_alloc res" where
  "oracle_allocate_and_parse rs vm_map e =
     rbind (get_app_ids e) (\<lambda>users.
     case get_oracle_allocation False rs vm_map e of
       Some alloc \<Rightarrow> Inr alloc
     | None \<Rightarrow> rbind (get_sensitivity e) (allocate_by_sensitivity rs users))"

section \<open>Properties\<close>

lemma map_of_fold_keyed:
  "map_of (fold (\<lambda>p. dict_set (k p) (f p)) ps d) u =
    (case find (\<lambda>p. k p = u) (rev ps) of None \<Rightarrow> map_of d u | Some p \<Rightarrow> Some (f p))"
proof (induction ps arbitrary: d)
  case (Cons p ps)
  have "find (\<lambda>p. k p = u) (qs @ [p]) =
      (case find (\<lambda>p. k p = u) qs of None \<Rightarrow> if k p = u then Some p else None | Some q \<Rightarrow> Some q)" for qs
    by (induction qs) auto
  then show ?case using Cons.IH by (auto split: option.splits)
qed simp

lemma map_of_entries: "map_of (map (\<lambda>(u, x). (u, f x)) d) u = map_option f (map_of d u)"
  by (induction d) auto

text \<open>The oracle allocator hands out the configured allocation and nothing else: with profiles in the
  configuration it returns for each user the entry of the user's last profile, whatever it is; without
  profiles it raises \<open>ValueError\<close>, so the division by sensitivity is never reached.\<close>

lemma oracle_as_configured:
  assumes "profiles_config e = Some ps" and "\<forall>p \<in> set ps. pf_user_id p \<noteq> None"
  shows "if ps = [] then oracle_allocate_and_parse rs vm_map e = Inl ValueError
    else \<exists>alloc. oracle_allocate_and_parse rs vm_map e = Inr alloc \<and>
      (\<forall>u. map_of alloc u = map_option (\<lambda>p. oracle_entry (pf_oracle p)) (find (\<lambda>p. pf_user_id p = Some u) (rev ps)))"
proof -
  let ?body = "\<lambda>p ids. case pf_user_id p of None \<Rightarrow> Inl KeyError | Some u \<Rightarrow> Inr (ids @ [u])"
  have "\<exists>ids. rfold ?body ps ids0 = Inr ids" for ids0
    using assms(2) by (induction ps arbitrary: ids0) auto
  then obtain users where users: "get_app_ids e = Inr users" using assms(1) by (auto simp: get_app_ids_def)
  show ?thesis
  proof (cases "ps = []")
    case True
    then show ?thesis using users assms(1) by (simp add: oracle_allocate_and_parse_def get_oracle_allocation_def get_sensitivity_def)
  next
    case False
    have "find (\<lambda>p. the (pf_user_id p) = u) (rev ps) = find (\<lambda>p. pf_user_id p = Some u) (rev ps)" for u
      by (rule find_cong) (use assms(2) in auto)
    then show ?thesis using users assms(1) False
      by (auto simp: oracle_allocate_and_parse_def get_oracle_allocation_def configured_def
          map_of_entries map_of_fold_keyed split: option.splits)
  qed
qed

definition oracle_profile :: "int \<Rightarrow> profile" where
  "oracle_profile u = \<lparr>pf_user_id = Some u, pf_file = Some [], pf_sensitivity = Some ''cache'',
     pf_oracle = Some (Some 2048, Some (3948 + u)), pf_clip_l3miss = None, pf_clip_iteration = None\<rparr>"

section \<open>The scaled allocation\<close>

definition at_least_0 :: "int option \<Rightarrow> bool" where
  "at_least_0 x = (case x of None \<Rightarrow> True | Some n \<Rightarrow> 0 \<le> n)"

definition ok_amounts :: "oracle_amounts \<Rightarrow> bool" where
  "ok_amounts x = (case x of None \<Rightarrow> False | Some (c, b) \<Rightarrow> at_least_0 c \<and> at_least_0 b)"

definition amounts_of :: "(int, oracle_amounts) dict \<Rightarrow> int \<Rightarrow> int \<times> int" where
  "amounts_of d u =
    (case map_of d u of
       Some (Some (c, b)) \<Rightarrow> (case c of None \<Rightarrow> 0 | Some n \<Rightarrow> n, case b of None \<Rightarrow> 0 | Some n \<Rightarrow> n)
     | _ \<Rightarrow> (0, 0))"

definition vm_fits :: "resource_scale \<Rightarrow> (int, oracle_amounts) dict \<Rightarrow> int list \<Rightarrow> bool" where
  "vm_fits rs d users \<longleftrightarrow>
     of_int (\<Sum>u\<leftarrow>users. fst (amounts_of d u)) \<le> rs_cache rs \<and>
     of_int (\<Sum>u\<leftarrow>users. snd (amounts_of d u)) \<le> 1024 * rs_mem_bw rs"

definition all_ok :: "(int, oracle_amounts) dict \<Rightarrow> bool" where
  "all_ok d \<longleftrightarrow> (\<forall>u x. map_of d u = Some x \<longrightarrow> ok_amounts x)"

lemma totals_asked:
  assumes "all_ok d" and "set users \<subseteq> dom (map_of d)"
  shows "rfold (\<lambda>user (tc, tb). rbind (dict_get d user) (\<lambda>x. rbind (asked x) (\<lambda>(c, b). Inr (tc + c, tb + b)))) users (tc, tb)
    = Inr (tc + (\<Sum>u\<leftarrow>users. fst (amounts_of d u)), tb + (\<Sum>u\<leftarrow>users. snd (amounts_of d u)))"
  using assms(2)
proof (induction users arbitrary: tc tb)
  case (Cons u users)
  then obtain x where x: "map_of d u = Some x" by auto
  then have "ok_amounts x" using assms(1) by (simp add: all_ok_def)
  then obtain c b where "x = Some (c, b)" by (cases x) (auto simp: ok_amounts_def)
  then have "asked x = Inr (amounts_of d u)" using x by (auto simp: asked_def amounts_of_def)
  then show ?case using Cons by (simp add: dict_get_Some [OF x] split_def algebra_simps)
qed simp

lemma amounts_nonneg: "all_ok d \<Longrightarrow> 0 \<le> fst (amounts_of d u) \<and> 0 \<le> snd (amounts_of d u)"
proof (cases "map_of d u")
  case (Some x)
  moreover have "ok_amounts x" if "all_ok d" using that Some by (simp add: all_ok_def)
  ultimately show "all_ok d \<Longrightarrow> ?thesis"
    by (cases x) (auto simp: ok_amounts_def amounts_of_def at_least_0_def split: option.splits)
qed (simp add: amounts_of_def)

lemma map_of_fold_modify:
  "distinct users \<Longrightarrow> map_of (fold (\<lambda>u al. dict_set u (f (the (map_of al u))) al) users d) v =
    (if v \<in> set users then Some (f (the (map_of d v))) else map_of d v)"
  by (induction users arbitrary: d) auto

lemma keys_fold_modify:
  "set users \<subseteq> dom (map_of d) \<Longrightarrow> keys (fold (\<lambda>u al. dict_set u (f (the (map_of al u))) al) users d) = keys d"
proof (induction users arbitrary: d)
  case (Cons u users)
  have same: "keys (dict_set u (f (the (map_of d u))) d) = keys d"
    using Cons.prems by (subst keys_dict_set) (auto simp: has_key_iff dom_map_of_conv_image_fst)
  have "set users \<subseteq> dom (map_of (dict_set u (f (the (map_of d u))) d))" using Cons.prems by auto
  from Cons.IH [OF this] same show ?case by (simp only: fold_simps)
qed simp

lemma scaled_sum:
  assumes "\<forall>u \<in> set users. 0 \<le> a u" and "0 \<le> cap" and "0 < (\<Sum>u\<leftarrow>users. a u)"
  shows "of_int (\<Sum>u\<leftarrow>users. py_int (of_int (a u) * cap / of_int (\<Sum>u\<leftarrow>users. a u))) \<le> cap"
proof -
  define t where "t = (\<Sum>u\<leftarrow>users. a u)"
  have "of_int (py_int (of_int (a u) * cap / of_int t)) \<le> of_int (a u) * (cap / of_int t)" if "u \<in> set users" for u
    using py_int_le [of "of_int (a u) * cap / of_int t"] assms that by (simp add: t_def)
  then have "(\<Sum>u\<leftarrow>users. of_int (py_int (of_int (a u) * cap / of_int t))) \<le> (\<Sum>u\<leftarrow>users. of_int (a u) * (cap / of_int t))"
    by (intro sum_list_mono) simp
  also have "\<dots> = of_int t * (cap / of_int t)" by (simp add: t_def sum_list_mult_const of_int_sum_list comp_def del: times_divide_eq_right)
  also have "\<dots> = cap" using assms(3) unfolding t_def [symmetric] by simp
  finally have "of_int (\<Sum>u\<leftarrow>users. py_int (of_int (a u) * cap / of_int t)) \<le> cap"
    by (simp add: of_int_sum_list comp_def)
  then show ?thesis unfolding t_def .
qed

lemma normalise_vm_fits:
  assumes "all_ok d" and "distinct users" and "set users \<subseteq> dom (map_of d)" and "0 \<le> rs_cache rs" and "0 \<le> rs_mem_bw rs"
  shows "\<exists>d'. normalise_vm rs users d = Inr d' \<and> keys d' = keys d \<and> all_ok d' \<and>
    (\<forall>u. u \<notin> set users \<longrightarrow> map_of d' u = map_of d u) \<and> vm_fits rs d' users"
proof -
  define tc tb where "tc = (\<Sum>u\<leftarrow>users. fst (amounts_of d u))" and "tb = (\<Sum>u\<leftarrow>users. snd (amounts_of d u))"
  define f :: "oracle_amounts \<Rightarrow> oracle_amounts" where
    "f = map_option (\<lambda>(c, b). (scaled tc (rs_cache rs) c, scaled tb (1024 * rs_mem_bw rs) b))"
  define d' where "d' = fold (\<lambda>u al. dict_set u (f (the (map_of al u))) al) users d"
  have res: "normalise_vm rs users d = Inr (if of_int tc > rs_cache rs \<or> of_int tb > rs_mem_bw rs * 1024 then d' else d)"
    unfolding normalise_vm_def totals_asked [OF assms(1,3)] by (simp add: tc_def tb_def f_def d'_def)
  have at: "map_of d' u = (if u \<in> set users then Some (f (the (map_of d u))) else map_of d u)" for u
    unfolding d'_def by (rule map_of_fold_modify [OF assms(2)])
  have ok: "0 \<le> fst (amounts_of d u) \<and> 0 \<le> snd (amounts_of d u)" for u by (rule amounts_nonneg [OF assms(1)])
  have some: "\<exists>x. map_of d u = Some x" if "u \<in> set users" for u using assms(3) that by auto
  have new: "ok_amounts (f x) \<and> amounts_of d' u =
      (if tc > 0 then py_int (of_int (fst (amounts_of d u)) * rs_cache rs / of_int tc) else fst (amounts_of d u),
       if tb > 0 then py_int (of_int (snd (amounts_of d u)) * (1024 * rs_mem_bw rs) / of_int tb) else snd (amounts_of d u))"
    if "u \<in> set users" "map_of d u = Some x" for u x
  proof -
    have "ok_amounts x" using assms(1) that by (simp add: all_ok_def)
    then obtain c b where x: "x = Some (c, b)" "at_least_0 c" "at_least_0 b" by (cases x) (auto simp: ok_amounts_def)
    then show ?thesis using that at [of u] ok [of u] assms(4,5)
      by (auto simp: ok_amounts_def at_least_0_def f_def scaled_def amounts_of_def split: option.splits)
  qed
  have amt: "amounts_of d' u =
      (if tc > 0 then py_int (of_int (fst (amounts_of d u)) * rs_cache rs / of_int tc) else fst (amounts_of d u),
       if tb > 0 then py_int (of_int (snd (amounts_of d u)) * (1024 * rs_mem_bw rs) / of_int tb) else snd (amounts_of d u))"
    if "u \<in> set users" for u using new that some by blast
  have "all_ok d'" unfolding all_ok_def using new at assms(1,3) by (auto simp: all_ok_def split: if_splits)
  moreover have "vm_fits rs d' users"
  proof -
    have "(\<Sum>u\<leftarrow>users. fst (amounts_of d' u)) =
        (\<Sum>u\<leftarrow>users. if tc > 0 then py_int (of_int (fst (amounts_of d u)) * rs_cache rs / of_int tc) else fst (amounts_of d u))"
      "(\<Sum>u\<leftarrow>users. snd (amounts_of d' u)) =
        (\<Sum>u\<leftarrow>users. if tb > 0 then py_int (of_int (snd (amounts_of d u)) * (1024 * rs_mem_bw rs) / of_int tb) else snd (amounts_of d u))"
      by (simp_all add: amt cong: map_cong)
    then show ?thesis unfolding vm_fits_def
      using scaled_sum [of users "\<lambda>u. fst (amounts_of d u)" "rs_cache rs"]
        scaled_sum [of users "\<lambda>u. snd (amounts_of d u)" "1024 * rs_mem_bw rs"] ok assms(4,5)
      by (cases "tc > 0"; cases "tb > 0") (simp_all add: tc_def [symmetric] tb_def [symmetric])
  qed
  moreover have "keys d' = keys d" unfolding d'_def by (rule keys_fold_modify [OF assms(3)])
  ultimately show ?thesis using res at assms(1)
    by (auto simp: vm_fits_def tc_def [symmetric] tb_def [symmetric] mult.commute not_less)
qed

lemma map_of_group_by_vm:
  "map_of (group_by_vm a users) vm =
    (let us = filter (\<lambda>u. map_of a u = Some vm) users in if vm \<noteq> 0 \<and> us \<noteq> [] then Some us else None)"
  "wf_dict (group_by_vm a users)"
proof (induction users rule: rev_induct)
  case (snoc u users)
  {
    case 1
    show ?case using snoc.IH(1)
      by (cases "map_of a u") (auto simp: group_by_vm_def dict_at_def Let_def split: option.splits if_splits)
  next
    case 2
    show ?case using snoc.IH(2) by (auto simp: group_by_vm_def split: option.splits)
  }
qed (simp_all add: group_by_vm_def)

lemma normalise_groups:
  assumes "all_ok d" and "wf_dict gs" and "0 \<le> rs_cache rs" and "0 \<le> rs_mem_bw rs"
    and "\<forall>(vm, us) \<in> set gs. distinct us \<and> set us \<subseteq> set (keys d) \<and> (\<forall>u \<in> set us. place u = Some vm)"
  shows "\<exists>d'. rfold (\<lambda>(vm, us). normalise_vm rs us) gs d = Inr d' \<and> keys d' = keys d \<and> all_ok d' \<and>
    (\<forall>u. (\<forall>(vm, us) \<in> set gs. u \<notin> set us) \<longrightarrow> map_of d' u = map_of d u) \<and> (\<forall>(vm, us) \<in> set gs. vm_fits rs d' us)"
  using assms(1,2,5)
proof (induction gs arbitrary: d)
  case (Cons g gs)
  obtain vm us where g: "g = (vm, us)" by force
  have us: "distinct us" "set us \<subseteq> dom (map_of d)" "\<forall>u \<in> set us. place u = Some vm"
    using Cons.prems(3) g by (auto simp: dom_map_of_conv_image_fst)
  obtain d1 where d1: "normalise_vm rs us d = Inr d1" "keys d1 = keys d" "all_ok d1"
    "\<forall>u. u \<notin> set us \<longrightarrow> map_of d1 u = map_of d u" "vm_fits rs d1 us"
    using normalise_vm_fits [OF Cons.prems(1) us(1,2) assms(3,4)] by blast
  obtain d' where d': "rfold (\<lambda>(vm, us). normalise_vm rs us) gs d1 = Inr d'" "keys d' = keys d1" "all_ok d'"
    "\<forall>u. (\<forall>(vm, us) \<in> set gs. u \<notin> set us) \<longrightarrow> map_of d' u = map_of d1 u" "\<forall>(vm, us) \<in> set gs. vm_fits rs d' us"
    using Cons.IH [OF d1(3)] Cons.prems d1(2) g by (auto simp del: set_map)
  have "map_of d' u = map_of d1 u" if "u \<in> set us" for u
  proof -
    have "u \<notin> set ws" if "(w, ws) \<in> set gs" for w ws
    proof
      assume "u \<in> set ws"
      then have "w = vm" using Cons.prems(3) g us(3) \<open>u \<in> set us\<close> that by fastforce
      then show False using Cons.prems(2) g that by force
    qed
    then show ?thesis using d'(4) by blast
  qed
  then have "vm_fits rs d' us" using d1(5) by (simp add: vm_fits_def amounts_of_def cong: map_cong)
  then show ?case using d1 d' g by auto
qed simp

text \<open>The lookup map of an assignment gives the last VM that lists the application.\<close>

lemma app_to_vm_map_last:
  "map_of (create_app_to_vm_map vm_map) u = map_option fst (find (\<lambda>(vm, apps). u \<in> set apps) (rev vm_map))"
proof (induction vm_map rule: rev_induct)
  case (snoc x vm_map)
  obtain vm apps where x: "x = (vm, apps)" by force
  have "map_of (fold (\<lambda>app. dict_set app vm) apps d) u = (if u \<in> set apps then Some vm else map_of d u)" for d
    by (induction apps arbitrary: d) auto
  then show ?case using snoc x by (simp add: create_app_to_vm_map_def)
qed (simp add: create_app_to_vm_map_def)

text \<open>C34. With \<open>alloc_remaining\<close> the configured amounts are scaled for every VM but VM 0: the result has the same
  users, the amounts of the users of a VM other than 0 add up to at most its cache and bandwidth, and the
  users of VM 0 and of no VM keep what they had, however much it is.\<close>

theorem remaining_fits_but_vm0:
  assumes "wf_dict conf" and "\<forall>(u, x) \<in> set conf. ok_amounts x" and "0 \<le> rs_cache rs" and "0 \<le> rs_mem_bw rs"
  shows "\<exists>alloc. normalise_remaining rs vm_map conf = Inr alloc \<and> keys alloc = keys conf \<and>
    (\<forall>vm. vm \<noteq> 0 \<longrightarrow>
       vm_fits rs alloc (filter (\<lambda>u. map_of (create_app_to_vm_map vm_map) u = Some vm) (keys conf))) \<and>
    (\<forall>u. map_of (create_app_to_vm_map vm_map) u \<in> {None, Some 0} \<longrightarrow> map_of alloc u = map_of conf u)"
proof -
  let ?place = "map_of (create_app_to_vm_map vm_map)"
  let ?gs = "group_by_vm (create_app_to_vm_map vm_map) (keys conf)"
  have ok: "all_ok conf" using assms(2) by (fastforce simp: all_ok_def dest: map_of_SomeD)
  have gs: "us = filter (\<lambda>u. ?place u = Some vm) (keys conf) \<and> vm \<noteq> 0" if "(vm, us) \<in> set ?gs" for vm us
  proof -
    have "map_of ?gs vm = Some us" using that map_of_group_by_vm(2) by simp
    then show ?thesis by (simp add: map_of_group_by_vm(1) Let_def split: if_splits)
  qed
  obtain alloc where a: "normalise_remaining rs vm_map conf = Inr alloc" "keys alloc = keys conf"
    "\<forall>u. (\<forall>(vm, us) \<in> set ?gs. u \<notin> set us) \<longrightarrow> map_of alloc u = map_of conf u" "\<forall>(vm, us) \<in> set ?gs. vm_fits rs alloc us"
    using normalise_groups [OF ok map_of_group_by_vm(2) assms(3,4), of "create_app_to_vm_map vm_map" "keys conf" ?place]
      gs assms(1) unfolding normalise_remaining_def by fastforce
  have "vm_fits rs alloc (filter (\<lambda>u. ?place u = Some vm) (keys conf))" if "vm \<noteq> 0" for vm
  proof (cases "filter (\<lambda>u. ?place u = Some vm) (keys conf) = []")
    case False
    then have "(vm, filter (\<lambda>u. ?place u = Some vm) (keys conf)) \<in> set ?gs"
      using that by (intro map_of_SomeD) (simp add: map_of_group_by_vm(1) Let_def)
    then show ?thesis using a(4) by blast
  qed (use assms(3,4) in \<open>simp add: vm_fits_def\<close>)
  moreover have "map_of alloc u = map_of conf u" if "?place u \<in> {None, Some 0}" for u
  proof -
    have "u \<notin> set us" if "(vm, us) \<in> set ?gs" for vm us using gs [OF that] \<open>?place u \<in> {None, Some 0}\<close> by auto
    then show ?thesis using a(3) by blast
  qed
  ultimately show ?thesis using a(1,2) by blast
qed

definition greedy_config :: "(int, oracle_amounts) dict" where
  "greedy_config = [(1, Some (Some 9000, Some 9000)), (2, Some (Some 12000, None)), (3, Some (Some 5000, Some 90000))]"

theorem remaining_fits_but_vm0_witness:
  "\<exists>alloc. normalise_remaining sample_scale [(0, [3]), (1, [1, 2])] greedy_config = Inr alloc \<and>
    vm_fits sample_scale alloc [1, 2] \<and> map_of alloc 3 = Some (Some (Some 5000, Some 90000))"
proof -
  have "wf_dict greedy_config" "\<forall>(u, x) \<in> set greedy_config. ok_amounts x" "0 \<le> rs_cache sample_scale" "0 \<le> rs_mem_bw sample_scale"
    by (simp_all add: greedy_config_def ok_amounts_def at_least_0_def sample_scale_def)
  from remaining_fits_but_vm0 [OF this, of "[(0, [3]), (1, [1, 2])]"]
  obtain alloc where a: "normalise_remaining sample_scale [(0, [3]), (1, [1, 2])] greedy_config = Inr alloc"
    "\<forall>vm. vm \<noteq> 0 \<longrightarrow> vm_fits sample_scale alloc
       (filter (\<lambda>u. map_of (create_app_to_vm_map [(0, [3]), (1, [1, 2])]) u = Some vm) (keys greedy_config))"
    "\<forall>u. map_of (create_app_to_vm_map [(0, [3]), (1, [1, 2])]) u \<in> {None, Some 0} \<longrightarrow> map_of alloc u = map_of greedy_config u"
    by blast
  have "vm_fits sample_scale alloc [1, 2]"
    using a(2) [rule_format, of 1] by (simp add: create_app_to_vm_map_def greedy_config_def)
  moreover have "map_of alloc 3 = Some (Some (Some 5000, Some 90000))"
    using a(3) [rule_format, of 3] by (simp add: create_app_to_vm_map_def greedy_config_def)
  ultimately show ?thesis using a(1) by blast
qed

end
