(* ===== verification/Enforcer.thy ===== *)
theory Enforcer
  imports Deployer "HOL-Library.Word"
begin

text \<open>
  The other end of the posted document: the global enforcer (\<open>src/global-enforcer\<close>) splits it among the VMs,
  and the local enforcer of a VM (\<open>src/local-enforcer/src/cache_client.rs\<close>) turns its part into limits of the
  containers' cgroups.  Both are Rust programs that are run from release builds: an \<open>u64\<close> is a 64-bit word
  whose arithmetic wraps around, and \<open>f64\<close> values are exact rationals.  A hash map is an association list in
  the order in which it is iterated over; the properties hold for every order.

  The decoding of JSON keys is that of \<open>serde\<close>, a parameter here.  A panic of a handler is \<open>None\<close> or the flag
  in its result.  The cgroup file system is an input where it is read, and writing to it succeeds.
\<close>

section \<open>Configurations\<close>

type_synonym u64 = "64 word"

type_synonym app_config = "(u64, u64 \<times> u64) dict"

text \<open>The posted document as a configuration; \<open>None\<close> when the request is refused.\<close>

definition u64_of_int :: "int \<Rightarrow> u64 option" where
  "u64_of_int n = (if 0 \<le> n \<and> n < 2 ^ 64 then Some (word_of_int n) else None)"

primrec decode_config :: "(string \<Rightarrow> u64 option) \<Rightarrow> alloc_document \<Rightarrow> app_config option" where
  "decode_config decode_key [] = Some []"
| "decode_config decode_key (e # es) =
    (case e of (k, c, b) \<Rightarrow>
       (case (decode_key k, u64_of_int c, u64_of_int b, decode_config decode_key es) of
          (Some k', Some c', Some b', Some cfg) \<Rightarrow> Some ((k', c', b') # cfg)
        | _ \<Rightarrow> None))"

section \<open>The global enforcer\<close>

record global_allocation =
  g_cur_config :: app_config
  g_vm_ip_map :: "(u64, string) dict"
  g_placement_map :: "(u64, u64 list) dict"

definition add_local :: "u64 \<Rightarrow> u64 \<times> u64 \<Rightarrow> u64 \<Rightarrow> (u64, app_config) dict \<Rightarrow> (u64, app_config) dict" where
  "add_local app_id amounts vm local_allocs =
     dict_set vm (dict_set app_id amounts (case map_of local_allocs vm of None \<Rightarrow> [] | Some c \<Rightarrow> c)) local_allocs"

text \<open>An application without a placement, or with an empty one, makes the handler panic.\<close>

definition split_app ::
  "(u64, u64 list) dict \<Rightarrow> u64 \<times> u64 \<times> u64 \<Rightarrow> (u64, app_config) dict \<Rightarrow> (u64, app_config) dict option" where
  "split_app placement entry local_allocs =
    (case entry of (app_id, mem_alloc, bw_alloc) \<Rightarrow>
       (case map_of placement app_id of
          None \<Rightarrow> None
        | Some vms \<Rightarrow>
            if vms = [] then None
            else Some (fold (add_local app_id (mem_alloc div of_nat (length vms), bw_alloc div of_nat (length vms)))
                         vms local_allocs)))"

primrec split_apps ::
  "(u64, u64 list) dict \<Rightarrow> app_config \<Rightarrow> (u64, app_config) dict \<Rightarrow> (u64, app_config) dict option" where
  "split_apps placement [] local_allocs = Some local_allocs"
| "split_apps placement (e # es) local_allocs =
     Option.bind (split_app placement e local_allocs) (split_apps placement es)"

definition split_global_allocation :: "global_allocation \<Rightarrow> app_config \<Rightarrow> (u64, app_config) dict option" where
  "split_global_allocation g cfg = split_apps (g_placement_map g) cfg []"

text \<open>The configurations that are sent, and whether all were: a VM without an address makes the handler panic.\<close>

primrec send_all :: "(u64, string) dict \<Rightarrow> (u64, app_config) dict \<Rightarrow> (string \<times> app_config) list \<times> bool" where
  "send_all vm_ip_map [] = ([], True)"
| "send_all vm_ip_map (e # es) =
    (case e of (vm, cfg) \<Rightarrow>
       (case map_of vm_ip_map vm of
          None \<Rightarrow> ([], False)
        | Some dest_ip \<Rightarrow> (case send_all vm_ip_map es of (sent, ok) \<Rightarrow> ((dest_ip, cfg) # sent, ok))))"

definition global_config ::
  "app_config \<Rightarrow> global_allocation \<Rightarrow> global_allocation \<times> (string \<times> app_config) list \<times> bool" where
  "global_config new_config g =
    (case split_global_allocation g new_config of
       None \<Rightarrow> (g, [], False)
     | Some local_allocs \<Rightarrow> (g\<lparr>g_cur_config := new_config\<rparr>, send_all (g_vm_ip_map g) local_allocs))"

section \<open>The local enforcer\<close>

definition MBPS_TO_BYTES_PER_SEC :: u64 where
  "MBPS_TO_BYTES_PER_SEC = 125000"

definition EVICTION_PRESSURE_MB :: u64 where
  "EVICTION_PRESSURE_MB = 256"

definition EVICTION_PRESSURE_RATIO :: rat where
  "EVICTION_PRESSURE_RATIO = 9 / 10"

text \<open>\<open>x as u64\<close> of a number that is not negative saturates.\<close>

definition trunc_u64 :: "rat \<Rightarrow> u64" where
  "trunc_u64 x = word_of_int (min (2 ^ 64 - 1) \<lfloor>x\<rfloor>)"

definition real_u64 :: "u64 \<Rightarrow> rat" where
  "real_u64 x = of_int (uint x)"

text \<open>The limit and the high mark that \<open>write_settings\<close> writes, in MB.\<close>

definition write_settings :: "u64 \<Rightarrow> u64 \<times> u64" where
  "write_settings mem_mb =
    (let pressure_mb = (if mem_mb > EVICTION_PRESSURE_MB then mem_mb - EVICTION_PRESSURE_MB else 0) in
     (mem_mb, max pressure_mb (trunc_u64 (real_u64 mem_mb * EVICTION_PRESSURE_RATIO))))"

text \<open>The loop that lowers the limit step by step.  The arguments are the number of iterations left, the
  memory use that each iteration reads (\<open>None\<close> if there is none), the target and the limit so far; the
  result is what is written.\<close>

fun lower_limit :: "nat \<Rightarrow> (nat \<Rightarrow> u64 option) \<Rightarrow> u64 \<Rightarrow> rat \<Rightarrow> (u64 \<times> u64) list" where
  "lower_limit 0 current_use target_mem_mb current_mem = []"
| "lower_limit (Suc n) current_use target_mem_mb current_mem =
    (case current_use n of
       None \<Rightarrow> []
     | Some used \<Rightarrow>
         if used \<le> target_mem_mb then []
         else if used \<le> trunc_u64 current_mem then
           let lower = current_mem * EVICTION_PRESSURE_RATIO in
           if lower < real_u64 target_mem_mb then []
           else write_settings (trunc_u64 lower) # lower_limit n current_use target_mem_mb lower
         else lower_limit n current_use target_mem_mb current_mem)"

text \<open>The settings that are written for a container whose limit file has \<open>current_mem_bytes\<close>, zero when it
  has no number.\<close>

definition set_memory_size :: "u64 \<Rightarrow> (nat \<Rightarrow> u64 option) \<Rightarrow> u64 \<Rightarrow> (u64 \<times> u64) list" where
  "set_memory_size current_mem_bytes current_use target_mem_mb =
    (let current_mem_mb = current_mem_bytes div (1024 * 1024) in
     (if target_mem_mb < current_mem_mb then lower_limit 5 current_use target_mem_mb (real_u64 current_mem_mb) else []) @
     [write_settings target_mem_mb])"

text \<open>The swap limit is raised to 40 GB, in bytes, when it is below.\<close>

definition swap_limit :: "u64 \<Rightarrow> u64 option" where
  "swap_limit current_swap_bytes =
    (let swap_size_mb = 40 * 1024; current_swap_mb = current_swap_bytes div (1024 * 1024) in
     if current_swap_mb < swap_size_mb then Some (swap_size_mb * 1024 * 1024) else None)"

text \<open>What the local enforcer sees: whether the cgroup of an application is found when its memory and when its
  bandwidth is set, the bytes of its limit and swap limit files, zero when they have no number, and its memory use.\<close>

record cgroup_view =
  v_mem_found :: "u64 \<Rightarrow> bool"
  v_bw_found :: "u64 \<Rightarrow> bool"
  v_limit_bytes :: "u64 \<Rightarrow> u64"
  v_swap_bytes :: "u64 \<Rightarrow> u64"
  v_use :: "u64 \<Rightarrow> nat \<Rightarrow> u64 option"

text \<open>The limits in force: memory and high mark in MB, the swap limit in bytes, and the bytes per second in each
  direction.\<close>

record cache_client =
  cc_cur_config :: app_config
  cc_memory :: "(u64, u64 \<times> u64) dict"
  cc_swap :: "(u64, u64) dict"
  cc_io :: "(u64, u64) dict"

definition set_memory_size_via_cgroup :: "cgroup_view \<Rightarrow> u64 \<Rightarrow> u64 \<Rightarrow> cache_client \<Rightarrow> cache_client" where
  "set_memory_size_via_cgroup v app_id mem_size cc =
    (if v_mem_found v app_id
     then cc\<lparr>cc_memory := fold (dict_set app_id) (set_memory_size (v_limit_bytes v app_id) (v_use v app_id) mem_size) (cc_memory cc),
            cc_swap := (case swap_limit (v_swap_bytes v app_id) of None \<Rightarrow> cc_swap cc | Some n \<Rightarrow> dict_set app_id n (cc_swap cc))\<rparr>
     else cc)"

definition update_swap_bandwidth :: "cgroup_view \<Rightarrow> u64 \<Rightarrow> u64 \<Rightarrow> cache_client \<Rightarrow> cache_client" where
  "update_swap_bandwidth v app_id bw cc =
    (if v_bw_found v app_id then cc\<lparr>cc_io := dict_set app_id (bw * MBPS_TO_BYTES_PER_SEC) (cc_io cc)\<rparr> else cc)"

definition update_app :: "cgroup_view \<Rightarrow> u64 \<times> u64 \<times> u64 \<Rightarrow> cache_client \<Rightarrow> cache_client" where
  "update_app v entry cc =
    (case entry of (app_id, mem, bw) \<Rightarrow>
       update_swap_bandwidth v app_id bw
         (set_memory_size_via_cgroup v app_id mem (cc\<lparr>cc_cur_config := dict_set app_id (mem, bw) (cc_cur_config cc)\<rparr>)))"

lemmas update_app_defs = update_app_def set_memory_size_via_cgroup_def update_swap_bandwidth_def

definition update_config :: "cgroup_view \<Rightarrow> app_config \<Rightarrow> cache_client \<Rightarrow> cache_client" where
  "update_config v new_config cc = fold (update_app v) new_config cc"

section \<open>Lowering a limit\<close>

lemma uint_trunc: "0 \<le> x \<Longrightarrow> x < 2 ^ 64 \<Longrightarrow> uint (trunc_u64 x) = \<lfloor>x\<rfloor>"
proof -
  assume "0 \<le> x" "x < 2 ^ 64"
  then have "0 \<le> \<lfloor>x\<rfloor>" "\<lfloor>x\<rfloor> < 2 ^ 64" by (auto simp: floor_less_iff)
  then have m: "min (2 ^ 64 - 1) \<lfloor>x\<rfloor> = \<lfloor>x\<rfloor>" "\<lfloor>x\<rfloor> mod 2 ^ 64 = \<lfloor>x\<rfloor>" by (linarith, rule mod_pos_pos_trivial)
  then show ?thesis unfolding trunc_u64_def m(1) uint_word_of_int by simp
qed

lemma real_u64_bounds: "0 \<le> real_u64 m" "real_u64 m < 2 ^ 64"
proof -
  show "0 \<le> real_u64 m" unfolding real_u64_def using uint_ge_0 [of m] by (simp only: of_int_0_le_iff)
  have "uint m < 2 ^ 64" using uint_bounded [of m] by simp
  then show "real_u64 m < 2 ^ 64" unfolding real_u64_def by (metis of_int_less_iff of_int_numeral of_int_power)
qed

lemma trunc_le: "0 \<le> x \<Longrightarrow> x < 2 ^ 64 \<Longrightarrow> m \<le> trunc_u64 x \<longleftrightarrow> real_u64 m \<le> x"
  by (simp add: word_le_def uint_trunc real_u64_def le_floor_iff)

lemma trunc_mono: "0 \<le> x \<Longrightarrow> x \<le> y \<Longrightarrow> y < 2 ^ 64 \<Longrightarrow> trunc_u64 x \<le> trunc_u64 y"
  by (simp add: word_le_def uint_trunc floor_mono)

lemma trunc_real: "trunc_u64 (real_u64 m) = m"
  using uint_trunc [OF real_u64_bounds, of m] unfolding real_u64_def word_uint_eq_iff by (simp only: floor_of_int)

lemma high_below_limit: "snd (write_settings m) \<le> fst (write_settings m)"
proof -
  have "trunc_u64 (real_u64 m * EVICTION_PRESSURE_RATIO) \<le> trunc_u64 (real_u64 m)"
    using real_u64_bounds [of m] by (intro trunc_mono) (simp_all add: EVICTION_PRESSURE_RATIO_def)
  moreover have "m - EVICTION_PRESSURE_MB \<le> m" if "EVICTION_PRESSURE_MB < m"
    using that by (intro word_sub_le) simp
  ultimately show ?thesis by (simp add: write_settings_def Let_def trunc_real)
qed

lemma lower_limit_steps:
  assumes "real_u64 t \<le> c" and "c < 2 ^ 64"
  shows "(\<forall>w \<in> set (lower_limit n us t c). t \<le> fst w \<and> fst w \<le> trunc_u64 c \<and> w = write_settings (fst w)) \<and>
    sorted_wrt (\<lambda>a b. fst b \<le> fst a) (lower_limit n us t c) \<and> length (lower_limit n us t c) \<le> n"
  using assms
proof (induction n arbitrary: c)
  case (Suc n)
  let ?l = "c * EVICTION_PRESSURE_RATIO"
  have c: "0 \<le> c" using Suc.prems(1) real_u64_bounds(1) [of t] by linarith
  then have l: "?l \<le> c" "0 \<le> ?l" by (simp_all add: EVICTION_PRESSURE_RATIO_def)
  have step: "trunc_u64 ?l \<le> trunc_u64 c" using l Suc.prems(2) by (intro trunc_mono) auto
  have IH: "(\<forall>w \<in> set (lower_limit n us t ?l). t \<le> fst w \<and> fst w \<le> trunc_u64 ?l \<and> w = write_settings (fst w)) \<and>
      sorted_wrt (\<lambda>a b. fst b \<le> fst a) (lower_limit n us t ?l) \<and> length (lower_limit n us t ?l) \<le> n"
    if "\<not> ?l < real_u64 t" using Suc.IH [of ?l] that l Suc.prems(2) by simp
  have t: "t \<le> trunc_u64 ?l" if "\<not> ?l < real_u64 t" using trunc_le [of ?l t] that l Suc.prems(2) by simp
  have fst_ws: "fst (write_settings m) = m" for m by (simp add: write_settings_def Let_def)
  have IH0: "length (lower_limit n us t c) \<le> Suc n" using Suc.IH [OF Suc.prems] by simp
  show ?case
  proof (cases "us n")
    case (Some used)
    consider "used \<le> t \<or> \<not> used \<le> t \<and> used \<le> trunc_u64 c \<and> ?l < real_u64 t" | "\<not> used \<le> t" "\<not> used \<le> trunc_u64 c"
      | "\<not> used \<le> t" "used \<le> trunc_u64 c" "\<not> ?l < real_u64 t" by blast
    then show ?thesis
    proof cases
      case 2
      then show ?thesis using Suc.IH [OF Suc.prems] IH0 Some by simp
    next
      case 3
      then have "lower_limit (Suc n) us t c = write_settings (trunc_u64 ?l) # lower_limit n us t ?l" using Some by (simp add: Let_def)
      then show ?thesis using IH [OF 3(3)] t [OF 3(3)] step by (auto simp: fst_ws intro: order_trans)
    qed (use Some in \<open>auto simp: Let_def\<close>)
  qed simp
qed simp

text \<open>C38. The local enforcer lowers a limit gradually and ends at the target: whatever memory use it reads, it
  writes at most six settings, each with a high mark within its limit, with limits that never rise, never
  fall below the target and never exceed the old limit that is being lowered, and the last one is the target's.\<close>

theorem limits_lowered_to_target:
  fixes bytes target :: u64
  shows "let ws = set_memory_size bytes use target; old = bytes div (1024 * 1024) in
    last ws = write_settings target \<and> length ws \<le> 6 \<and> sorted_wrt (\<lambda>a b. fst b \<le> fst a) ws \<and>
    (\<forall>w \<in> set ws. target \<le> fst w \<and> snd w \<le> fst w \<and> (target < old \<longrightarrow> fst w \<le> old))"
proof -
  define old where "old = bytes div (1024 * 1024)"
  define ls where "ls = (if target < old then lower_limit 5 use target (real_u64 old) else [])"
  have ws: "set_memory_size bytes use target = ls @ [write_settings target]"
    by (simp add: set_memory_size_def Let_def ls_def old_def)
  have "real_u64 target \<le> real_u64 old" if "target < old"
    using that unfolding real_u64_def word_less_def by (simp only: of_int_le_iff less_imp_le)
  then have ls: "(\<forall>w \<in> set ls. target \<le> fst w \<and> fst w \<le> old \<and> w = write_settings (fst w)) \<and>
      sorted_wrt (\<lambda>a b. fst b \<le> fst a) ls \<and> length ls \<le> 5"
    using lower_limit_steps [of target "real_u64 old" 5 use] real_u64_bounds [of old] by (simp add: ls_def trunc_real)
  have t: "fst (write_settings target) = target" by (simp add: write_settings_def Let_def)
  have high: "snd w \<le> fst w" if "w \<in> set ls" for w using ls that high_below_limit [of "fst w"] by metis
  show ?thesis unfolding ws Let_def old_def [symmetric]
    using ls high high_below_limit [of target] by (auto simp: t sorted_wrt_append)
qed

theorem limits_lowered_to_target_witness:
  "let ws = set_memory_size (2048 * 1024 * 1024) (\<lambda>n. Some 2000) 1800 in
     length ws \<le> 6 \<and> last ws = write_settings 1800 \<and> (\<forall>w \<in> set ws. 1800 \<le> fst w \<and> fst w \<le> 2048)"
proof -
  have "(1800 :: u64) < 2048 * 1024 * 1024 div (1024 * 1024)" "2048 * 1024 * 1024 div (1024 * 1024) = (2048 :: u64)" by code_simp+
  then show ?thesis using limits_lowered_to_target [of "2048 * 1024 * 1024" "\<lambda>n. Some 2000" 1800] by (simp add: Let_def)
qed

section \<open>From the deployer to the limits\<close>

text \<open>The amounts of an application in the part of a VM.\<close>

definition local_amount :: "(u64, app_config) dict \<Rightarrow> u64 \<Rightarrow> u64 \<Rightarrow> (u64 \<times> u64) option" where
  "local_amount local_allocs vm app = Option.bind (map_of local_allocs vm) (\<lambda>c. map_of c app)"

lemma local_amount_add:
  "local_amount (add_local a x vm L) vm' a' = (if vm' = vm \<and> a' = a then Some x else local_amount L vm' a')"
  by (auto simp: local_amount_def add_local_def split: option.splits)

lemma local_amount_add_all:
  "local_amount (fold (add_local a x) vms L) vm' a' = (if vm' \<in> set vms \<and> a' = a then Some x else local_amount L vm' a')"
  by (induction vms arbitrary: L) (auto simp: local_amount_add)

lemma keys_add_all: "set (keys (fold (add_local a x) vms L)) = set vms \<union> set (keys L)"
  by (induction vms arbitrary: L) (auto simp: add_local_def simp del: set_map)

definition share :: "(u64, u64 list) dict \<Rightarrow> u64 \<Rightarrow> u64 \<Rightarrow> u64" where
  "share placement app amount = amount div of_nat (length (the (map_of placement app)))"

lemma split_apps_amounts:
  assumes "wf_dict cfg" and "\<forall>a \<in> set (keys cfg). \<exists>vms. map_of placement a = Some vms \<and> vms \<noteq> []"
  shows "\<exists>L'. split_apps placement cfg L = Some L' \<and> set (keys L') = set (keys L) \<union> (\<Union>a \<in> set (keys cfg). set (the (map_of placement a))) \<and>
    (\<forall>vm a. local_amount L' vm a =
       (case map_of cfg a of
          Some (m, b) \<Rightarrow> if vm \<in> set (the (map_of placement a)) then Some (share placement a m, share placement a b) else local_amount L vm a
        | None \<Rightarrow> local_amount L vm a))"
  using assms
proof (induction cfg arbitrary: L)
  case (Cons e cfg)
  obtain a m b where e: "e = (a, m, b)" using prod_cases3 by blast
  obtain vms where vms: "map_of placement a = Some vms" "vms \<noteq> []" using Cons.prems(2) e by auto
  let ?L = "fold (add_local a (share placement a m, share placement a b)) vms L"
  have "split_app placement e L = Some ?L" using vms by (simp add: split_app_def e share_def)
  moreover obtain L' where L': "split_apps placement cfg ?L = Some L'"
    "set (keys L') = set (keys ?L) \<union> (\<Union>a \<in> set (keys cfg). set (the (map_of placement a)))"
    "\<forall>vm a. local_amount L' vm a =
       (case map_of cfg a of
          Some (m, b) \<Rightarrow> if vm \<in> set (the (map_of placement a)) then Some (share placement a m, share placement a b) else local_amount ?L vm a
        | None \<Rightarrow> local_amount ?L vm a)"
    using Cons.IH [of ?L] Cons.prems by auto
  moreover have "map_of cfg a = None" using Cons.prems(1) e by (auto simp: map_of_eq_None_iff)
  ultimately show ?case using vms e
    by (auto simp: local_amount_add_all keys_add_all split: option.splits simp del: set_map)
qed simp

lemma update_config_limits:
  assumes "wf_dict cfg" and "map_of cfg a = Some (m, b)"
  shows "map_of (cc_cur_config (update_config v cfg cc)) a = Some (m, b)"
    "v_mem_found v a \<Longrightarrow> map_of (cc_memory (update_config v cfg cc)) a = Some (write_settings m)"
    "v_bw_found v a \<Longrightarrow> map_of (cc_io (update_config v cfg cc)) a = Some (b * MBPS_TO_BYTES_PER_SEC)"
proof -
  have other: "map_of (cc_cur_config (fold (update_app v) c cc)) a = map_of (cc_cur_config cc) a \<and>
      map_of (cc_memory (fold (update_app v) c cc)) a = map_of (cc_memory cc) a \<and>
      map_of (cc_io (fold (update_app v) c cc)) a = map_of (cc_io cc) a"
    if "a \<notin> set (keys c)" for c cc
    using that
  proof (induction c arbitrary: cc)
    case (Cons e c)
    have *: "map_of (fold (dict_set k) ws d) a = map_of d a" if "a \<noteq> k" for k ws and d :: "(u64, u64 \<times> u64) dict"
      using that by (induction ws arbitrary: d) auto
    show ?case using Cons by (auto simp: update_app_defs Let_def * split: prod.splits)
  qed simp
  have mem: "map_of (fold (dict_set a) (set_memory_size x us m) d) a = Some (write_settings m)" for x us and d :: "(u64, u64 \<times> u64) dict"
    by (simp add: set_memory_size_def Let_def)
  obtain c1 c2 where c: "cfg = c1 @ (a, m, b) # c2" using assms(2) by (meson map_of_SomeD split_list)
  then have "a \<notin> set (keys c2)" using assms(1) by auto
  note rest = other [OF this]
  show "map_of (cc_cur_config (update_config v cfg cc)) a = Some (m, b)"
    "v_mem_found v a \<Longrightarrow> map_of (cc_memory (update_config v cfg cc)) a = Some (write_settings m)"
    "v_bw_found v a \<Longrightarrow> map_of (cc_io (update_config v cfg cc)) a = Some (b * MBPS_TO_BYTES_PER_SEC)"
    unfolding update_config_def c by (simp_all add: rest update_app_defs Let_def mem)
qed

lemma send_all_complete:
  assumes "\<forall>vm \<in> set (keys L). map_of ips vm \<noteq> None"
  shows "send_all ips L = (map (\<lambda>(vm, c). (the (map_of ips vm), c)) L, True)"
  using assms by (induction L) (auto split: option.splits)

definition wf_parts :: "(u64, app_config) dict \<Rightarrow> bool" where
  "wf_parts L \<longleftrightarrow> wf_dict L \<and> (\<forall>c \<in> snd ` set L. wf_dict c)"

lemma wf_parts_add:
  assumes "wf_parts L"
  shows "wf_parts (add_local a x vm L)"
proof -
  let ?part = "dict_set a x (case map_of L vm of None \<Rightarrow> [] | Some c \<Rightarrow> c)"
  note L = conjunct1 [OF assms [unfolded wf_parts_def]] bspec [OF conjunct2 [OF assms [unfolded wf_parts_def]]]
  have "wf_dict c" if "map_of L vm = Some c" for c
    by (rule L(2)) (use map_of_SomeD [OF that] in force)
  then have part: "wf_dict ?part" by (cases "map_of L vm") simp_all
  have sub: "snd ` set (dict_set vm y L) \<subseteq> insert y (snd ` set L)" for y :: app_config by (induction L) auto
  show ?thesis unfolding wf_parts_def add_local_def
  proof (intro conjI ballI)
    show "wf_dict (dict_set vm ?part L)" using L(1) by (rule wf_dict_set)
    fix c assume "c \<in> snd ` set (dict_set vm ?part L)"
    then have "c \<in> insert ?part (snd ` set L)" using sub [of ?part] by (rule rev_subsetD)
    then show "wf_dict c"
    proof (rule insertE)
      assume "c = ?part"
      then show ?thesis using part by (simp only:)
    qed (rule L(2))
  qed
qed

lemma wf_parts_add_all: "wf_parts L \<Longrightarrow> wf_parts (fold (add_local a x) vms L)"
  by (induction vms arbitrary: L) (simp_all add: wf_parts_add)

lemma wf_parts_split:
  assumes "split_apps placement cfg L = Some L'" and "wf_parts L"
  shows "wf_parts L'"
  using assms
proof (induction cfg arbitrary: L)
  case (Cons e cfg)
  obtain L1 where L1: "split_app placement e L = Some L1" "split_apps placement cfg L1 = Some L'"
    using Cons.prems(1) unfolding split_apps.simps bind_eq_Some_conv by blast
  then obtain a x vms where "L1 = fold (add_local a x) vms L"
    unfolding split_app_def by (auto split: option.splits prod.splits if_splits)
  then show ?case using Cons.IH [OF L1(2)] wf_parts_add_all [OF Cons.prems(2)] by blast
qed simp

text \<open>The ids and amounts of a deployment, in bytes per second too, are within 64 bits.\<close>

definition within_u64 :: "deployment \<Rightarrow> bool" where
  "within_u64 d \<longleftrightarrow> (\<forall>(u, a) \<in> set d. 0 \<le> u \<and> u < 2 ^ 64 \<and> 0 \<le> d_cache a \<and> d_cache a < 2 ^ 64 \<and> 0 \<le> d_mem_bw a \<and>
     d_mem_bw a * 125000 < 2 ^ 64)"

lemma within_u64D:
  assumes "within_u64 d" and "(u, a) \<in> set d"
  shows "0 \<le> u" "u < 2 ^ 64" "0 \<le> d_cache a" "d_cache a < 2 ^ 64" "0 \<le> d_mem_bw a" "d_mem_bw a < 2 ^ 64" "d_mem_bw a * 125000 < 2 ^ 64"
proof -
  have r: "0 \<le> u \<and> u < 2 ^ 64 \<and> 0 \<le> d_cache a \<and> d_cache a < 2 ^ 64 \<and> 0 \<le> d_mem_bw a \<and> d_mem_bw a * 125000 < 2 ^ 64"
    using assms unfolding within_u64_def by blast
  then show "0 \<le> u" "u < 2 ^ 64" "0 \<le> d_cache a" "d_cache a < 2 ^ 64" "0 \<le> d_mem_bw a" "d_mem_bw a * 125000 < 2 ^ 64"
    by blast+
  show "d_mem_bw a < 2 ^ 64" using r by linarith
qed

lemma uint_of_int64: "0 \<le> n \<Longrightarrow> n < 2 ^ 64 \<Longrightarrow> uint (word_of_int n :: u64) = n"
  by (simp add: uint_word_of_int_eq take_bit_int_eq_self)

definition config_of :: "deployment \<Rightarrow> app_config" where
  "config_of d = map (\<lambda>(u, a). (word_of_int u, (word_of_int (d_cache a), word_of_int (d_mem_bw a)))) d"

lemma decode_deployment:
  assumes "\<forall>n. 0 \<le> n \<and> n < 2 ^ 64 \<longrightarrow> decode_key (str_of_int n) = Some (word_of_int n)" and "within_u64 d"
  shows "decode_config decode_key (map (\<lambda>(u, a). (str_of_int u, (d_cache a, d_mem_bw a))) d) = Some (config_of d)"
  using assms(2)
proof (induction d)
  case (Cons e d)
  obtain u a where e: "e = (u, a)" by force
  note r = within_u64D [OF Cons.prems, of u a]
  have "decode_key (str_of_int u) = Some (word_of_int u)" "u64_of_int (d_cache a) = Some (word_of_int (d_cache a))"
    "u64_of_int (d_mem_bw a) = Some (word_of_int (d_mem_bw a))"
    using assms(1) r e unfolding u64_of_int_def by auto
  moreover have "within_u64 d" using Cons.prems by (simp add: within_u64_def)
  ultimately show ?case using Cons.IH e by (simp add: config_of_def)
qed (simp add: config_of_def)

lemma keys_config_of: "keys (config_of d) = map word_of_int (keys d)"
  by (induction d) (auto simp: config_of_def)

lemma wf_config_of:
  assumes "within_u64 d" and "wf_dict d"
  shows "wf_dict (config_of d)"
proof -
  have "inj_on (word_of_int :: int \<Rightarrow> u64) (set (keys d))"
  proof (rule inj_onI)
    fix m n assume mn: "m \<in> set (keys d)" "n \<in> set (keys d)" and eq: "(word_of_int m :: u64) = word_of_int n"
    have id: "uint (word_of_int k :: u64) = k" if "k \<in> set (keys d)" for k
      using that within_u64D(1,2) [OF assms(1)] by (auto intro!: uint_of_int64)
    show "m = n" using id [OF mn(1)] id [OF mn(2)] eq by metis
  qed
  then show ?thesis unfolding keys_config_of using assms(2) by (subst distinct_map) blast
qed

lemma map_of_config_of:
  assumes "within_u64 d" and "wf_dict d" and "(u, a) \<in> set d"
  shows "map_of (config_of d) (word_of_int u) = Some (word_of_int (d_cache a), word_of_int (d_mem_bw a))"
  using assms(3) by (intro map_of_is_SomeI [OF wf_config_of [OF assms(1,2)]]) (force simp: config_of_def)

text \<open>Every application is placed on one VM, and the VM has an address.\<close>

definition placed :: "global_allocation \<Rightarrow> (int \<Rightarrow> u64) \<Rightarrow> (int \<Rightarrow> string) \<Rightarrow> deployment \<Rightarrow> bool" where
  "placed g vm_of ip_of d \<longleftrightarrow> (\<forall>(u, a) \<in> set d. map_of (g_placement_map g) (word_of_int u) = Some [vm_of u] \<and>
     map_of (g_vm_ip_map g) (vm_of u) = Some (ip_of u))"

lemma parts_sent:
  assumes "within_u64 d" and "wf_dict d" and "placed g vm_of ip_of d"
  shows "\<exists>g' sent. global_config (config_of d) g = (g', sent, True) \<and>
    (\<forall>u a. (u, a) \<in> set d \<longrightarrow> (\<exists>part. (ip_of u, part) \<in> set sent \<and> wf_dict part \<and>
       map_of part (word_of_int u) = Some (word_of_int (d_cache a), word_of_int (d_mem_bw a))))"
proof -
  let ?pl = "g_placement_map g"
  have pl: "map_of ?pl (word_of_int u) = Some [vm_of u]" "map_of (g_vm_ip_map g) (vm_of u) = Some (ip_of u)"
    if "(u, a) \<in> set d" for u a using assms(3) that unfolding placed_def by fast+
  have "\<forall>k \<in> set (keys (config_of d)). \<exists>vms. map_of ?pl k = Some vms \<and> vms \<noteq> []"
    unfolding keys_config_of using pl(1) by fastforce
  from split_apps_amounts [OF wf_config_of [OF assms(1,2)] this, of "[]"]
  obtain L where L: "split_apps ?pl (config_of d) [] = Some L"
    "set (keys L) = set (keys ([] :: (u64, app_config) dict)) \<union> (\<Union>k \<in> set (keys (config_of d)). set (the (map_of ?pl k)))"
    "\<forall>vm k. local_amount L vm k = (case map_of (config_of d) k of
       Some (m, b) \<Rightarrow> if vm \<in> set (the (map_of ?pl k)) then Some (share ?pl k m, share ?pl k b) else local_amount [] vm k
     | None \<Rightarrow> local_amount [] vm k)" by blast
  have "\<forall>vm \<in> set (keys L). map_of (g_vm_ip_map g) vm \<noteq> None"
    unfolding L(2) keys_config_of using pl by fastforce
  note sent = send_all_complete [OF this]
  have "\<exists>part. (ip_of u, part) \<in> set (fst (send_all (g_vm_ip_map g) L)) \<and> wf_dict part \<and>
      map_of part (word_of_int u) = Some (word_of_int (d_cache a), word_of_int (d_mem_bw a))"
    if "(u, a) \<in> set d" for u a
  proof -
    have "local_amount L (vm_of u) (word_of_int u) = Some (word_of_int (d_cache a), word_of_int (d_mem_bw a))"
      using L(3) pl(1) [OF that] map_of_config_of [OF assms(1,2) that] by (simp add: share_def)
    then obtain part where part: "map_of L (vm_of u) = Some part"
      "map_of part (word_of_int u) = Some (word_of_int (d_cache a), word_of_int (d_mem_bw a))"
      unfolding local_amount_def bind_eq_Some_conv by blast
    have "wf_dict part" using wf_parts_split [OF L(1)] map_of_SomeD [OF part(1)] by (force simp: wf_parts_def)
    moreover have "(ip_of u, part) \<in> set (fst (send_all (g_vm_ip_map g) L))"
      using sent map_of_SomeD [OF part(1)] pl(2) [OF that] by force
    ultimately show ?thesis using part(2) by blast
  qed
  then show ?thesis using L(1) sent by (simp add: global_config_def split_global_allocation_def)
qed

lemma limits_of_part:
  assumes "0 \<le> c" and "c < 2 ^ 64" and "0 \<le> b" and "b * 125000 < 2 ^ 64" and "wf_dict part"
    and "map_of part k = Some (word_of_int c, word_of_int b)" and "v_mem_found v k" and "v_bw_found v k"
  shows "\<exists>mb high bps. map_of (cc_memory (update_config v part cc)) k = Some (mb, high) \<and>
      map_of (cc_io (update_config v part cc)) k = Some bps \<and> uint mb = c \<and> uint bps = b * 125000"
proof -
  have "word_of_int b * MBPS_TO_BYTES_PER_SEC = word_of_int (b * 125000)"
    unfolding MBPS_TO_BYTES_PER_SEC_def by (metis of_int_mult of_int_numeral)
  then show ?thesis
    using update_config_limits(2,3) [OF assms(5,6)] assms(7,8) uint_of_int64 [OF assms(1,2)] uint_of_int64 [of "b * 125000"] assms(3,4)
    unfolding write_settings_def Let_def by simp
qed

text \<open>C9. What the controller decides is what the containers get.  Let the amounts of a deployment be within 64
  bits, in bytes per second too, let the JSON decoder read printed keys, and let every application be placed
  on one VM that has an address.  Then the posted document is accepted, the global enforcer sends every VM
  its part, and the local enforcer that gets the part of an application's VM, whatever it sees and had before,
  sets the application's limits to exactly the deployed cache in MB and bandwidth in bytes per second.\<close>

theorem enforced_as_deployed:
  assumes "deploy post (Some (as_resource_alloc d)) dep = Inr (dep', Some document)" and "wf_dict d" and "within_u64 d"
    and "\<forall>n. 0 \<le> n \<and> n < 2 ^ 64 \<longrightarrow> decode_key (str_of_int n) = Some (word_of_int n)" and "placed g vm_of ip_of d"
  shows "\<exists>cfg g' sent. decode_config decode_key document = Some cfg \<and> global_config cfg g = (g', sent, True) \<and>
    (\<forall>u a. (u, a) \<in> set d \<longrightarrow> (\<exists>part. (ip_of u, part) \<in> set sent \<and>
       (\<forall>v cc. v_mem_found v (word_of_int u) \<longrightarrow> v_bw_found v (word_of_int u) \<longrightarrow>
          (\<exists>mb high bps. map_of (cc_memory (update_config v part cc)) (word_of_int u) = Some (mb, high) \<and>
             map_of (cc_io (update_config v part cc)) (word_of_int u) = Some bps \<and>
             uint mb = d_cache a \<and> uint bps = d_mem_bw a * 125000))))"
proof -
  have "d \<noteq> []" using assms(1) by (auto simp: deploy_def as_resource_alloc_def)
  then have doc: "document = map (\<lambda>(u, a). (str_of_int u, (d_cache a, d_mem_bw a))) d"
    using assms(1) assemble_deployment [OF assms(2), of dep] by (auto simp: deploy_def rbind_eq_Inr split: if_splits)
  have cfg: "decode_config decode_key document = Some (config_of d)"
    unfolding doc by (rule decode_deployment [OF assms(4,3)])
  obtain g' sent where sent: "global_config (config_of d) g = (g', sent, True)"
    "\<forall>u a. (u, a) \<in> set d \<longrightarrow> (\<exists>part. (ip_of u, part) \<in> set sent \<and> wf_dict part \<and>
       map_of part (word_of_int u) = Some (word_of_int (d_cache a), word_of_int (d_mem_bw a)))"
    using parts_sent [OF assms(3,2,5)] by blast
  have "\<exists>part. (ip_of u, part) \<in> set sent \<and>
      (\<forall>v cc. v_mem_found v (word_of_int u) \<longrightarrow> v_bw_found v (word_of_int u) \<longrightarrow>
         (\<exists>mb high bps. map_of (cc_memory (update_config v part cc)) (word_of_int u) = Some (mb, high) \<and>
            map_of (cc_io (update_config v part cc)) (word_of_int u) = Some bps \<and>
            uint mb = d_cache a \<and> uint bps = d_mem_bw a * 125000))" if ua: "(u, a) \<in> set d" for u a
  proof -
    obtain part where part: "(ip_of u, part) \<in> set sent" "wf_dict part"
      "map_of part (word_of_int u) = Some (word_of_int (d_cache a), word_of_int (d_mem_bw a))"
      using sent(2) ua by blast
    show ?thesis using part(1) limits_of_part [OF within_u64D(3,4,5,7) [OF assms(3) ua] part(2,3)] by blast
  qed
  then show ?thesis using cfg sent(1) by blast
qed

text \<open>A decoder that reads printed keys.\<close>

definition decimal_key :: "string \<Rightarrow> u64 option" where
  "decimal_key s = (case int_of_str s of Inl e \<Rightarrow> None | Inr n \<Rightarrow> u64_of_int n)"

definition sample_deployment :: deployment where
  "sample_deployment = [(1, \<lparr>d_cache = 1024, d_mem_bw = 500\<rparr>), (2, \<lparr>d_cache = 4096, d_mem_bw = 2000\<rparr>)]"

definition sample_global :: global_allocation where
  "sample_global = \<lparr>g_cur_config = [], g_vm_ip_map = [(0, ''10.0.0.1''), (1, ''10.0.0.2'')],
     g_placement_map = [(2, [1]), (1, [0])]\<rparr>"

definition sample_view :: cgroup_view where
  "sample_view = \<lparr>v_mem_found = \<lambda>_. True, v_bw_found = \<lambda>_. True, v_limit_bytes = \<lambda>_. 0, v_swap_bytes = \<lambda>_. 0, v_use = \<lambda>_ _. None\<rparr>"

theorem enforced_as_deployed_witness:
  "\<exists>document cfg g' sent part mb high bps.
     deploy (\<lambda>_. Inr 202) (Some (as_resource_alloc sample_deployment)) init_deployer =
       Inr (init_deployer\<lparr>allocation_map := [(AInt 1, (1024, 500)), (AInt 2, (4096, 2000))]\<rparr>, Some document) \<and>
     decode_config decimal_key document = Some cfg \<and> global_config cfg sample_global = (g', sent, True) \<and>
     (''10.0.0.2'', part) \<in> set sent \<and>
     map_of (cc_memory (update_config sample_view part \<lparr>cc_cur_config = [], cc_memory = [], cc_swap = [], cc_io = []\<rparr>)) 2 = Some (mb, high) \<and>
     map_of (cc_io (update_config sample_view part \<lparr>cc_cur_config = [], cc_memory = [], cc_swap = [], cc_io = []\<rparr>)) 2 = Some bps \<and>
     uint mb = 4096 \<and> uint bps = 250000000"
proof -
  let ?vm = "\<lambda>u :: int. if u = 1 then 0 else 1 :: u64" and ?ip = "\<lambda>u :: int. if u = 1 then ''10.0.0.1'' else ''10.0.0.2''"
  have wf: "wf_dict sample_deployment" "within_u64 sample_deployment" "placed sample_global ?vm ?ip sample_deployment"
    by (simp_all add: sample_deployment_def within_u64_def placed_def sample_global_def)
  have dec: "\<forall>n. 0 \<le> n \<and> n < 2 ^ 64 \<longrightarrow> decimal_key (str_of_int n) = Some (word_of_int n)"
    by (simp add: decimal_key_def int_of_str_of_int u64_of_int_def)
  obtain document where doc: "deploy (\<lambda>_. Inr 202) (Some (as_resource_alloc sample_deployment)) init_deployer =
      Inr (init_deployer\<lparr>allocation_map := [(AInt 1, (1024, 500)), (AInt 2, (4096, 2000))]\<rparr>, Some document)"
    using assemble_deployment [OF wf(1)] by (auto simp: deploy_def sample_deployment_def as_resource_alloc_def)
  have in2: "(2, \<lparr>d_cache = 4096, d_mem_bw = 2000\<rparr>) \<in> set sample_deployment" by (simp add: sample_deployment_def)
  obtain cfg g' sent part where r: "decode_config decimal_key document = Some cfg" "global_config cfg sample_global = (g', sent, True)"
    "(?ip 2, part) \<in> set sent"
    "\<forall>v cc. v_mem_found v (word_of_int 2) \<longrightarrow> v_bw_found v (word_of_int 2) \<longrightarrow>
       (\<exists>mb high bps. map_of (cc_memory (update_config v part cc)) (word_of_int 2) = Some (mb, high) \<and>
          map_of (cc_io (update_config v part cc)) (word_of_int 2) = Some bps \<and> uint mb = d_cache \<lparr>d_cache = 4096, d_mem_bw = 2000\<rparr> \<and>
          uint bps = d_mem_bw \<lparr>d_cache = 4096, d_mem_bw = 2000\<rparr> * 125000)"
    using enforced_as_deployed [OF doc wf(1,2) dec wf(3)] in2 by blast
  have "v_mem_found sample_view (word_of_int 2)" "v_bw_found sample_view (word_of_int 2)" by (simp_all add: sample_view_def)
  with r(4) show ?thesis using doc r(1-3) by fastforce
qed

text \<open>An application on several VMs gets at most its allocation over all of them.\<close>

lemma share_within:
  assumes "map_of placement a = Some vms" and "length vms < 2 ^ 64"
  shows "int (length vms) * uint (share placement a m) \<le> uint m"
proof -
  have "uint (of_nat (length vms) :: u64) = int (length vms)"
    using uint_of_int64 [of "int (length vms)"] assms(2) by simp
  then have "uint (share placement a m) = uint m div int (length vms)"
    using assms(1) by (simp add: share_def uint_div)
  then show ?thesis by (cases "vms = []") (simp_all add: minus_mod_eq_mult_div [symmetric])
qed

end
