(* ===== verification/Enforcer_Control.thy ===== *)
theory Enforcer_Control
  imports Enforcer Control_Loop
begin

text \<open>
  The controller and the enforcers together: what the control loop posts, over all its rounds, is what the
  global enforcer's \<open>UpdateConfig\<close> can hold.
\<close>

section \<open>The amounts of the static allocator\<close>

text \<open>Users that exist, and amounts between zero and a whole VM.\<close>

definition amounts_within :: "resource_scale \<Rightarrow> int list \<Rightarrow> deployment \<Rightarrow> bool" where
  "amounts_within rs users d \<longleftrightarrow>
     (\<forall>(u, a) \<in> set d. u \<in> set users \<and> 0 \<le> d_cache a \<and> of_int (d_cache a) \<le> rs_cache rs \<and>
        0 \<le> d_mem_bw a \<and> of_int (d_mem_bw a) \<le> rs_mem_bw rs * 1024)"

lemma py_int_bounds: "0 \<le> x \<Longrightarrow> 0 \<le> py_int x \<and> of_int (py_int x) \<le> x"
  by (simp add: py_int_def)

lemma equal_share_within:
  assumes "0 \<le> rs_cache rs" and "0 \<le> rs_mem_bw rs" and "0 < n" and "equal_share rs n = Inr s"
  shows "0 \<le> d_cache s \<and> of_int (d_cache s) \<le> rs_cache rs \<and> 0 \<le> d_mem_bw s \<and> of_int (d_mem_bw s) \<le> rs_mem_bw rs * 1024"
proof -
  have part: "x / of_int n \<le> x \<and> 0 \<le> x / of_int n" if "0 \<le> x" for x :: rat
  proof -
    have "x * 1 \<le> x * of_int n" using assms(3) that by (intro mult_left_mono) auto
    then show ?thesis using assms(3) that by (simp add: divide_le_eq)
  qed
  have s: "d_cache s = py_int (rs_cache rs / of_int n)" "d_mem_bw s = py_int (rs_mem_bw rs / of_int n * 1024)"
    using assms(3,4) by (auto simp: equal_share_eq)
  have "0 \<le> rs_mem_bw rs / of_int n * 1024" "rs_mem_bw rs / of_int n * 1024 \<le> rs_mem_bw rs * 1024"
    using part [OF assms(2)] by (auto intro: mult_nonneg_nonneg mult_right_mono simp del: times_divide_eq_left)
  then show ?thesis unfolding s
    using part [OF assms(1)] py_int_bounds [of "rs_cache rs / of_int n"] py_int_bounds [of "rs_mem_bw rs / of_int n * 1024"] by linarith
qed

lemma amounts_within_set:
  assumes "amounts_within rs users d" and "u \<in> set users" and "0 < n" and "equal_share rs n = Inr s"
    and "0 \<le> rs_cache rs" and "0 \<le> rs_mem_bw rs"
  shows "amounts_within rs users (dict_set u s d)"
proof -
  have "set (dict_set u s d) \<subseteq> insert (u, s) (set d)" by (induction d) auto
  then show ?thesis using assms(1,2) equal_share_within [OF assms(5,6,3,4)] by (auto simp: amounts_within_def)
qed

lemma share_all_within:
  assumes "share_all rs n us d = Inr d'" and "amounts_within rs users d" and "set us \<subseteq> set users" and "0 < n"
    and "0 \<le> rs_cache rs" and "0 \<le> rs_mem_bw rs"
  shows "amounts_within rs users d'"
  using assms(1,2,3)
proof (induction us arbitrary: d)
  case (Cons u us)
  obtain s where s: "equal_share rs n = Inr s" using assms(4) by (simp add: equal_share_eq)
  then have "share_all rs n us (dict_set u s d) = Inr d'" using Cons.prems(1) by (simp add: share_all_def)
  then show ?case using Cons.IH amounts_within_set [OF Cons.prems(2) _ assms(4) s assms(5,6)] Cons.prems(3) by simp
qed (simp add: share_all_def)

lemma flat_within:
  assumes "flat_allocation rs users n = Inr d" and "0 \<le> rs_cache rs" and "0 \<le> rs_mem_bw rs"
  shows "amounts_within rs users d"
proof -
  have "rfold (\<lambda>(idx, user) d. rbind (equal_share rs (users_in_this_vm (length users) n idx)) (\<lambda>s. Inr (dict_set user s d)))
      (enumerate 0 users) [] = Inr d" using assms(1) by (simp add: flat_allocation_def split: if_splits)
  moreover have "amounts_within rs users []" by (simp add: amounts_within_def)
  moreover have "amounts_within rs users e'"
    if step: "(case x of (idx, user) \<Rightarrow> \<lambda>d. rbind (equal_share rs (users_in_this_vm (length users) n idx)) (\<lambda>s. Inr (dict_set user s d))) e = Inr e'"
      and x: "x \<in> set (enumerate 0 users)" and e: "amounts_within rs users e" for x e e'
  proof -
    obtain idx u where xe: "x = (idx, u)" "idx < length users" "u \<in> set users" using x by (cases x rule: prod.exhaust) (auto simp: in_set_enumerate_eq)
    obtain s where s: "equal_share rs (users_in_this_vm (length users) n idx) = Inr s" "e' = dict_set u s e"
      using step xe(1) by (auto simp: rbind_eq_Inr)
    show ?thesis unfolding s(2)
      by (rule amounts_within_set [OF e xe(3) users_in_this_vm_pos [OF xe(2)] s(1) assms(2,3)])
  qed
  ultimately show ?thesis by (rule rfold_invariant) auto
qed

lemma static_within:
  assumes "static_allocate_and_parse rs i = Inr d" and "get_app_ids (ri_estimator i) = Inr users"
    and "0 \<le> rs_cache rs" and "0 \<le> rs_mem_bw rs"
  shows "amounts_within rs users d"
proof (cases "ri_vm_map i = []")
  case True
  then show ?thesis using assms(1,2) by (intro flat_within [OF _ assms(3,4)]) (simp add: static_allocate_and_parse_def)
next
  case False
  let ?un = "unassigned_users users (ri_vm_map i)"
  obtain d1 where d1: "rfold (static_vm rs users) (ri_vm_map i) [] = Inr d1"
    "(if ?un = [] then Inr d1 else share_all rs (int (length ?un)) ?un d1) = Inr d"
    using assms(1,2) False by (auto simp: static_allocate_and_parse_def Let_def rbind_eq_Inr)
  have "amounts_within rs users e'" if "static_vm rs users x e = Inr e'" "amounts_within rs users e" for x e e'
  proof (cases "vm_users users (snd x) = []")
    case False
    then have "share_all rs (int (length (vm_users users (snd x)))) (vm_users users (snd x)) e = Inr e'"
      using that(1) by (simp add: static_vm_def Let_def)
    moreover have "set (vm_users users (snd x)) \<subseteq> set users" by (auto simp: vm_users_def)
    ultimately show ?thesis using share_all_within [OF _ that(2)] False assms(3,4) by simp
  qed (use that in \<open>simp add: static_vm_def\<close>)
  then have "amounts_within rs users d1" using d1(1) by (rule rfold_invariant [rotated 2]) (simp_all add: amounts_within_def)
  moreover have "set ?un \<subseteq> set users" by (auto simp: unassigned_users_def)
  ultimately show ?thesis using d1(2) share_all_within [of rs _ ?un d1 d users] assms(3,4) by (auto split: if_splits)
qed

section \<open>Every posted document is a configuration\<close>

text \<open>Every entry of the trace comes from a round with the controller's estimator.\<close>

lemma trace_round:
  assumes "ctl_state alloc skip c0 c" and "c_trace c0 = []"
  shows "c_estimator c = c_estimator c0 \<and> (\<forall>(v, d, doc) \<in> set (c_trace c). v_estimator v = c_estimator c0 \<and>
    (\<exists>s s' post dep dep'. alloc v s = Inr (s', d) \<and> deploy post (Some (as_resource_alloc d)) dep = Inr (dep', doc)))"
  using assms(1)
proof (induction rule: ctl_state.induct)
  case (round c ie c')
  let ?v = "view_of skip ie c"
  obtain s d dep doc where run: "alloc ?v (c_self c) = Inr (s, d)"
    "deploy (ie_post ie) (Some (as_resource_alloc d)) (c_deployer c) = Inr (dep, doc)"
    "c' = c\<lparr>c_self := s, c_deployer := dep, e2e_last_allocation := Some d,
       c_monitor := set_last_allocation d (c_monitor c), c_trace := c_trace c @ [(?v, d, doc)]\<rparr>"
    using round(2) by (auto simp: deploy_round_def Let_def rbind_eq_Inr)
  have "v_estimator ?v = c_estimator c0" using round(3) by (simp add: view_of_def)
  moreover have "\<exists>s s' post dep dep'. alloc ?v s = Inr (s', d) \<and> deploy post (Some (as_resource_alloc d)) dep = Inr (dep', doc)"
    using run(1,2) by blast
  ultimately show ?case using round(3) unfolding run(3) by simp
qed (simp_all add: assms(2))

text \<open>C11. Every document that the controller posts has the type that the enforcers expect.  With the static
  allocator, for users and VM sizes that fit into 64 bits and a decoder that reads printed keys: in every state
  of the running controller, whatever logs and requests arrived, each posted document decodes into a
  configuration, and it has exactly the users and amounts of its round.\<close>

theorem posted_documents_typed:
  assumes "static_config rs est users" and "rs_cache rs < 2 ^ 64" and "rs_mem_bw rs * 1024 * 125000 < 2 ^ 64"
    and "\<forall>u \<in> set users. 0 \<le> u \<and> u < 2 ^ 64"
    and "\<forall>n. 0 \<le> n \<and> n < 2 ^ 64 \<longrightarrow> decode_key (str_of_int n) = Some (word_of_int n)"
    and "ctl_state (static_on_view rs) skip (init_controller est interval ()) c" and "(v, d, Some document) \<in> set (c_trace c)"
  shows "decode_config decode_key document = Some (config_of d)"
proof -
  have tr: "v_estimator v = est" "\<exists>s s' post dep dep'. static_on_view rs v s = Inr (s', d) \<and>
      deploy post (Some (as_resource_alloc d)) dep = Inr (dep', Some document)"
    using trace_round [OF assms(6)] assms(7) by (auto simp: init_controller_def)
  then obtain post dep dep' where run: "static_allocate_and_parse rs (round_view v) = Inr d"
    "deploy post (Some (as_resource_alloc d)) dep = Inr (dep', Some document)"
    by (auto simp: static_on_view_def static_step_def rbind_eq_Inr)
  have "get_app_ids (ri_estimator (round_view v)) = Inr users" using assms(1) tr(1) by (simp add: static_config_def round_view_def)
  from static_within [OF run(1) this] have amounts: "amounts_within rs users d" using assms(1) by (simp add: static_config_def)
  have "0 \<le> u \<and> u < 2 ^ 64 \<and> 0 \<le> d_cache a \<and> d_cache a < 2 ^ 64 \<and> 0 \<le> d_mem_bw a \<and> d_mem_bw a * 125000 < 2 ^ 64" if "(u, a) \<in> set d" for u a
  proof -
    have w: "u \<in> set users" "0 \<le> d_cache a" "of_int (d_cache a) \<le> rs_cache rs" "0 \<le> d_mem_bw a" "of_int (d_mem_bw a) \<le> rs_mem_bw rs * 1024"
      using amounts that by (auto simp: amounts_within_def)
    have "(of_int (d_cache a) :: rat) < of_int (2 ^ 64)" "(of_int (d_mem_bw a * 125000) :: rat) < of_int (2 ^ 64)"
      using w(3,5) assms(2,3) by simp_all
    then show ?thesis using w assms(4) unfolding of_int_less_iff by simp
  qed
  then have within: "within_u64 d" by (auto simp: within_u64_def)
  have "d \<noteq> []" using run(2) by (auto simp: deploy_def as_resource_alloc_def)
  then have "document = map (\<lambda>(u, a). (str_of_int u, (d_cache a, d_mem_bw a))) d"
    using run(2) assemble_deployment [OF wf_static [OF run(1)], of dep] by (auto simp: deploy_def rbind_eq_Inr split: if_splits)
  then show ?thesis using decode_deployment [OF assms(5) within] by simp
qed

text \<open>The first round of a fresh controller posts a document with all users.\<close>

lemma first_round_posts:
  "\<exists>c v d document. ctl_state (static_on_view sample_scale) False (init_controller (ri_estimator two_vms) None ()) c \<and>
     c_trace c = [(v, d, Some document)] \<and> keys d = [1, 2, 3]"
proof -
  let ?c0 = "init_controller (ri_estimator two_vms) None () :: unit controller"
  let ?v = "view_of False (sample_world 0) ?c0"
  have users: "get_app_ids (ri_estimator two_vms) = Inr [1, 2, 3]" "get_num_vms (ri_estimator two_vms) \<noteq> 0"
    using sample_config by (simp_all add: static_config_def)
  obtain d where d: "flat_allocation sample_scale [1, 2, 3] (get_num_vms (ri_estimator two_vms)) = Inr d" "keys d = [1, 2, 3]"
    using flat_allocation_map_of [OF users(2), of "[1, 2, 3]" sample_scale] by auto
  have "ri_vm_map (round_view ?v) = []" "ri_estimator (round_view ?v) = ri_estimator two_vms"
    by (simp_all add: round_view_def view_of_def init_controller_def init_monitor_def get_vm_to_app_mapping_def)
  then have alloc: "static_on_view sample_scale ?v () = Inr ((), d)"
    using users(1) d(1) by (simp add: static_on_view_def static_step_def static_allocate_and_parse_def)
  have "d \<noteq> []" using d(2) by auto
  then have "\<exists>dep document. deploy (ie_post (sample_world 0)) (Some (as_resource_alloc d)) (c_deployer ?c0) = Inr (dep, Some document)"
    by (auto simp: deploy_def as_resource_alloc_def sample_world_def split: prod.splits)
  then obtain dep document where "deploy (ie_post (sample_world 0)) (Some (as_resource_alloc d)) (c_deployer ?c0) = Inr (dep, Some document)"
    by blast
  then obtain c where c: "deploy_round (static_on_view sample_scale) False (sample_world 0) ?c0 = Inr c" "c_trace c = [(?v, d, Some document)]"
    using alloc by (auto simp: deploy_round_def Let_def init_controller_def)
  show ?thesis by (intro exI conjI) (rule ctl_state.round [OF ctl_state.init c(1)], rule c(2), rule d(2))
qed

theorem posted_documents_typed_witness:
  "\<exists>c v d document. ctl_state (static_on_view sample_scale) False (init_controller (ri_estimator two_vms) None ()) c \<and>
     (v, d, Some document) \<in> set (c_trace c) \<and> decode_config decimal_key document = Some (config_of d) \<and> keys d = [1, 2, 3]"
proof -
  obtain c v d document where c: "ctl_state (static_on_view sample_scale) False (init_controller (ri_estimator two_vms) None ()) c"
    "c_trace c = [(v, d, Some document)]" "keys d = [1, 2, 3]" using first_round_posts by (elim exE conjE) rule
  have posted: "(v, d, Some document) \<in> set (c_trace c)" using c(2) by simp
  have scale: "rs_cache sample_scale < 2 ^ 64" "rs_mem_bw sample_scale * 1024 * 125000 < 2 ^ 64" by (simp_all add: sample_scale_def)
  have users: "\<forall>u \<in> set [1, 2, 3 :: int]. 0 \<le> u \<and> u < 2 ^ 64" by simp
  have key: "\<forall>n. 0 \<le> n \<and> n < 2 ^ 64 \<longrightarrow> decimal_key (str_of_int n) = Some (word_of_int n)"
    by (simp add: decimal_key_def int_of_str_of_int u64_of_int_def)
  show ?thesis
    by (intro exI conjI) (rule c(1), rule posted, rule posted_documents_typed [OF sample_config scale users key c(1) posted], rule c(3))
qed

end
