(* ===== verification/Usage_Report.thy ===== *)
theory Usage_Report
  imports Enforcer Monitor_Data
begin

text \<open>
  The way back: the local enforcer measures the containers and reports their usage
  (\<open>src/local-enforcer/src/cache_client.rs\<close>), the global enforcer collects the reports, and what it answers to
  a status request is the document that the monitor parses.  What is read from cgroups and performance
  counters is an input.
\<close>

section \<open>Histories of counters\<close>

definition PERF_HISTORY_LENGTH :: nat where
  "PERF_HISTORY_LENGTH = 16"

definition LEN_PERF_HISTORY :: nat where
  "LEN_PERF_HISTORY = 100"

definition CACHE_LINE_SIZE_BYTES :: u64 where
  "CACHE_LINE_SIZE_BYTES = 64"

text \<open>Append an element, and drop the oldest one if there are too many.\<close>

definition push_bounded :: "nat \<Rightarrow> 'a \<Rightarrow> 'a list \<Rightarrow> 'a list" where
  "push_bounded n x xs = (let ys = xs @ [x] in if length ys > n then tl ys else ys)"

definition history_average :: "u64 list \<Rightarrow> u64" where
  "history_average xs = sum_list xs div of_nat (length xs)"

record perf_stat =
  cache_misses :: "u64 list"
  cache_references :: "u64 list"
  major_faults :: "u64 list"
  mem_ops :: "u64 list"
  avg_miss :: u64
  avg_hit :: u64
  avg_faults :: u64
  avg_mem_ops :: u64
  perf_mrc :: "(u64 \<times> rat) list"

definition new_perf_stat :: perf_stat where
  "new_perf_stat = \<lparr>cache_misses = [], cache_references = [], major_faults = [], mem_ops = [],
     avg_miss = 0, avg_hit = 0, avg_faults = 0, avg_mem_ops = 0, perf_mrc = []\<rparr>"

definition update_perf :: "u64 \<Rightarrow> u64 \<Rightarrow> u64 \<Rightarrow> u64 \<Rightarrow> perf_stat \<Rightarrow> perf_stat" where
  "update_perf miss hit faults ops p =
    (let misses = push_bounded PERF_HISTORY_LENGTH miss (cache_misses p);
         references = push_bounded PERF_HISTORY_LENGTH hit (cache_references p);
         all_faults = push_bounded PERF_HISTORY_LENGTH faults (major_faults p);
         all_ops = push_bounded PERF_HISTORY_LENGTH ops (mem_ops p)
     in p\<lparr>cache_misses := misses, cache_references := references, major_faults := all_faults, mem_ops := all_ops,
          avg_miss := history_average misses, avg_hit := history_average references,
          avg_faults := history_average all_faults, avg_mem_ops := history_average all_ops\<rparr>)"

definition update_mrc :: "(u64 \<times> rat) list \<Rightarrow> perf_stat \<Rightarrow> perf_stat" where
  "update_mrc mrc p = p\<lparr>perf_mrc := mrc\<rparr>"

definition drop_records :: "perf_stat \<Rightarrow> perf_stat" where
  "drop_records p = p\<lparr>cache_misses := [], cache_references := [], avg_miss := 0, avg_hit := 0\<rparr>"

section \<open>Block device bandwidth\<close>

record blk_use_stat =
  prev_read_bytes :: u64
  prev_write_bytes :: u64
  prev_time :: nat

definition new_blk_use_stat :: blk_use_stat where
  "new_blk_use_stat = \<lparr>prev_read_bytes = 0, prev_write_bytes = 0, prev_time = 0\<rparr>"

text \<open>The bytes of the device and the time in milliseconds; \<open>None\<close> when the cgroup is not found.\<close>

definition get_blk_bandwidth :: "(u64 \<times> u64 \<times> nat) option \<Rightarrow> blk_use_stat \<Rightarrow> blk_use_stat \<times> u64" where
  "get_blk_bandwidth io st =
    (case io of
       None \<Rightarrow> (st, 0)
     | Some (read_bytes, write_bytes, current_time) \<Rightarrow>
         if current_time \<le> prev_time st then (st, 0)
         else
           let elapsed_time = of_nat (current_time - prev_time st) / 1000;
               read_mbps = real_u64 ((read_bytes - prev_read_bytes st) * 8) / (1024 * 1024 * elapsed_time);
               write_mbps = real_u64 ((write_bytes - prev_write_bytes st) * 8) / (1024 * 1024 * elapsed_time)
           in (\<lparr>prev_read_bytes = read_bytes, prev_write_bytes = write_bytes, prev_time = current_time\<rparr>,
               trunc_u64 (max read_mbps write_mbps)))"

section \<open>Reports\<close>

record app_usage =
  au_vm_id :: u64
  au_app_id :: u64
  au_mem_mb :: u64
  au_bw_mbps :: u64
  au_cache_mbps :: u64
  au_access_mem_ops_sec :: u64
  au_access_rate_ops_sec :: u64
  au_hit_rate_percent :: rat
  au_mrc :: "(u64 \<times> rat) list"

type_synonym usage_map = "(u64, (u64, app_usage) dict) dict"

definition get_app_usage :: "u64 \<Rightarrow> u64 \<Rightarrow> u64 \<Rightarrow> u64 \<Rightarrow> perf_stat \<Rightarrow> app_usage" where
  "get_app_usage vm_id app_id mem_mb bw_mbps p =
     \<lparr>au_vm_id = vm_id, au_app_id = app_id, au_mem_mb = mem_mb, au_bw_mbps = bw_mbps,
      au_cache_mbps = avg_miss p * CACHE_LINE_SIZE_BYTES div MBPS_TO_BYTES_PER_SEC,
      au_access_mem_ops_sec = avg_mem_ops p,
      au_access_rate_ops_sec = avg_hit p * CACHE_LINE_SIZE_BYTES div MBPS_TO_BYTES_PER_SEC,
      au_hit_rate_percent = real_u64 (avg_faults p) / real_u64 (max (avg_miss p) 1),
      au_mrc = perf_mrc p\<rparr>"

text \<open>The part of the client that reports: its VM id, the applications of its containers in the order of the
  map, their statistics, and the last reports with the anonymous memory.  Every container has statistics from
  its initialisation on.\<close>

record reporter =
  rp_id :: u64
  rp_apps :: "u64 list"
  rp_blk :: "u64 \<Rightarrow> blk_use_stat"
  rp_perf :: "u64 \<Rightarrow> perf_stat"
  rp_latest_usage :: "(usage_map \<times> (u64, u64) dict) list"
  rp_running :: bool

text \<open>What a report reads for an application: its memory and anonymous memory in MB, and its device bytes.\<close>

record readings =
  rd_mem :: "u64 \<Rightarrow> (u64 \<times> u64) option"
  rd_io :: "u64 \<Rightarrow> (u64 \<times> u64 \<times> nat) option"

definition report_app ::
  "readings \<Rightarrow> u64 \<Rightarrow> reporter \<times> (u64, app_usage) dict \<times> (u64, u64) dict \<Rightarrow>
   reporter \<times> (u64, app_usage) dict \<times> (u64, u64) dict" where
  "report_app rd app st =
    (case st of (rp, local_usage, stat_map) \<Rightarrow>
       case rd_mem rd app of
         None \<Rightarrow> st
       | Some (mem_mb, anon_mb) \<Rightarrow>
           (case get_blk_bandwidth (rd_io rd app) (rp_blk rp app) of (blk, bw_mbps) \<Rightarrow>
             (rp\<lparr>rp_blk := (rp_blk rp)(app := blk)\<rparr>,
              dict_set app (get_app_usage (rp_id rp) app mem_mb bw_mbps (rp_perf rp app)) local_usage,
              dict_set app anon_mb stat_map)))"

text \<open>The report that is sent, if there is one.\<close>

definition report_usage :: "readings \<Rightarrow> reporter \<Rightarrow> reporter \<times> usage_map option" where
  "report_usage rd rp =
    (if \<not> rp_running rp then (rp, None)
     else
       (case fold (report_app rd) (rp_apps rp) (rp, [], []) of (rp1, local_usage, stat_map) \<Rightarrow>
          let usage_map = [(rp_id rp1, local_usage)] in
          (rp1\<lparr>rp_latest_usage := push_bounded LEN_PERF_HISTORY (usage_map, stat_map) (rp_latest_usage rp1)\<rparr>,
           Some usage_map)))"

text \<open>The global enforcer: a report replaces what was known about its VM, and the answer to a status request
  is the whole map.\<close>

definition global_usage :: "usage_map \<Rightarrow> usage_map \<Rightarrow> usage_map" where
  "global_usage client_usage_map usage_map = dict_update usage_map client_usage_map"

definition entry_of_usage :: "app_usage \<Rightarrow> raw_entry" where
  "entry_of_usage u =
     \<lparr>rw_mem_mb = Some (real_u64 (au_mem_mb u)), rw_bw_mbps = Some (real_u64 (au_bw_mbps u)),
      rw_cache_mbps = Some (real_u64 (au_cache_mbps u)),
      rw_access_rate_ops_sec = Some (real_u64 (au_access_rate_ops_sec u)),
      rw_mrc = Some (map (\<lambda>(size, rate). (real_u64 size, rate)) (au_mrc u))\<rparr>"

definition plain_usage :: "usage_map \<Rightarrow> (int \<times> (int \<times> raw_entry) list) list" where
  "plain_usage usage_map = map (\<lambda>(vm, apps). (uint vm, map (\<lambda>(a, u). (uint a, entry_of_usage u)) apps)) usage_map"

definition cluster_status :: "usage_map \<Rightarrow> log_json" where
  "cluster_status usage_map = print_log (plain_usage usage_map)"

section \<open>Properties\<close>

lemma push_bounded_length: "0 < n \<Longrightarrow> length xs \<le> n \<Longrightarrow> length (push_bounded n x xs) \<le> n"
  by (simp add: push_bounded_def Let_def)

lemma last_push_bounded: "0 < n \<Longrightarrow> last (push_bounded n x xs) = x"
  by (cases xs) (auto simp: push_bounded_def Let_def)

definition perf_inv :: "perf_stat \<Rightarrow> bool" where
  "perf_inv p \<longleftrightarrow> length (cache_misses p) \<le> PERF_HISTORY_LENGTH \<and> length (cache_references p) \<le> PERF_HISTORY_LENGTH \<and>
     length (major_faults p) \<le> PERF_HISTORY_LENGTH \<and> length (mem_ops p) \<le> PERF_HISTORY_LENGTH"

lemma update_perf_inv: "perf_inv p \<Longrightarrow> perf_inv (update_perf m h f ops p)"
  by (simp add: perf_inv_def update_perf_def Let_def push_bounded_length PERF_HISTORY_LENGTH_def)

lemma records_inv: "perf_inv p \<Longrightarrow> perf_inv (update_mrc mrc p)" "perf_inv p \<Longrightarrow> perf_inv (drop_records p)"
  by (simp_all add: perf_inv_def update_mrc_def drop_records_def)

lemma uint_sum_list: "(\<Sum>x\<leftarrow>xs. uint x) < 2 ^ 64 \<Longrightarrow> uint (sum_list xs :: u64) = (\<Sum>x\<leftarrow>xs. uint x)"
proof (induction xs)
  case (Cons x xs)
  have "(\<Sum>x\<leftarrow>xs. uint x) < 2 ^ 64" using Cons.prems uint_ge_0 [of x] unfolding list.map sum_list.Cons by linarith
  then have "uint (sum_list xs) = (\<Sum>x\<leftarrow>xs. uint x)" by (rule Cons.IH)
  then show ?case using Cons.prems uint_add_lem [of x "sum_list xs"] by simp
qed simp

text \<open>An average of counters whose sum fits lies between their bounds.\<close>

lemma history_average_bounds:
  assumes "(\<Sum>x\<leftarrow>xs. uint x) < 2 ^ 64" and "xs \<noteq> []" and "length xs < 2 ^ 64" and "\<forall>x \<in> set xs. lo \<le> uint x \<and> uint x \<le> hi"
  shows "lo \<le> uint (history_average xs) \<and> uint (history_average xs) \<le> hi"
proof -
  have n: "uint (of_nat (length xs) :: u64) = int (length xs)" using uint_of_int64 [of "int (length xs)"] assms(3) by simp
  have avg: "uint (history_average xs) = (\<Sum>x\<leftarrow>xs. uint x) div int (length xs)"
    unfolding history_average_def uint_div n uint_sum_list [OF assms(1)] ..
  have b: "lo * int (length xs) \<le> (\<Sum>x\<leftarrow>xs. uint x) \<and> (\<Sum>x\<leftarrow>xs. uint x) \<le> hi * int (length xs)"
    using assms(4) by (induction xs) (auto simp: algebra_simps)
  have "0 < int (length xs)" using assms(2) by simp
  then have "lo * int (length xs) div int (length xs) \<le> (\<Sum>x\<leftarrow>xs. uint x) div int (length xs)"
    "(\<Sum>x\<leftarrow>xs. uint x) div int (length xs) \<le> hi * int (length xs) div int (length xs)"
    using b by (simp_all only: zdiv_mono1)
  then show ?thesis unfolding avg using assms(2) by simp
qed

text \<open>A counter that starts again, as that of a restarted container does, wraps around: after 8 bytes were
  counted and with nothing since the restart, the bandwidth of the next second is reported as 17592186044415
  Mbps.\<close>

lemma restarted_counter_wraps:
  "snd (get_blk_bandwidth (Some (0, 0, 2000)) \<lparr>prev_read_bytes = 8, prev_write_bytes = 8, prev_time = 1000\<rparr>) = 17592186044415"
proof -
  have "\<lfloor>288230376151711743 / 16384 :: rat\<rfloor> = 17592186044415" by (simp add: floor_eq_iff)
  then show ?thesis by (simp add: get_blk_bandwidth_def real_u64_def trunc_u64_def Let_def)
qed

lemma report_apps:
  "fold (report_app rd) apps (rp, lu, sm) = (rp', lu', sm') \<Longrightarrow>
     rp_id rp' = rp_id rp \<and> rp_running rp' = rp_running rp \<and> (wf_dict lu \<longrightarrow> wf_dict lu') \<and>
     set (keys lu') = set (keys lu) \<union> {a \<in> set apps. rd_mem rd a \<noteq> None}"
proof (induction apps arbitrary: rp lu sm)
  case (Cons a apps)
  obtain rp1 lu1 sm1 where 1: "report_app rd a (rp, lu, sm) = (rp1, lu1, sm1)" by (metis prod_cases3)
  then have "rp_id rp1 = rp_id rp \<and> rp_running rp1 = rp_running rp \<and> (wf_dict lu \<longrightarrow> wf_dict lu1) \<and>
      set (keys lu1) = set (keys lu) \<union> {x. x = a \<and> rd_mem rd a \<noteq> None}"
    by (auto simp: report_app_def simp del: set_map split: option.splits prod.splits)
  then show ?case using Cons.IH [of rp1 lu1 sm1] Cons.prems 1 by auto
qed simp

lemma report_shape:
  assumes "snd (report_usage rd rp) = Some u"
  shows "\<exists>local_usage. u = [(rp_id rp, local_usage)] \<and> wf_dict local_usage \<and>
    set (keys local_usage) = {a \<in> set (rp_apps rp). rd_mem rd a \<noteq> None}"
proof -
  obtain rp' lu sm where f: "fold (report_app rd) (rp_apps rp) (rp, [], []) = (rp', lu, sm)" by (metis prod_cases3)
  then show ?thesis using report_apps [OF f] assms
    by (auto simp: report_usage_def Let_def simp del: set_map split: if_splits)
qed

lemma report_running: "rp_running rp \<Longrightarrow> \<exists>u. snd (report_usage rd rp) = Some u"
  by (simp add: report_usage_def Let_def split_def)

lemma wf_global_usage:
  "wf_dict usage \<Longrightarrow> wf_dict (fold global_usage us usage)"
  by (induction us arbitrary: usage) (simp_all add: global_usage_def)

lemma keys_plain_usage: "map fst (plain_usage usage) = map uint (keys usage)"
  by (simp add: plain_usage_def split_def)

lemma plain_usage_vm_map:
  "map (\<lambda>(vm, apps). (vm, map fst apps)) (plain_usage usage) = map (\<lambda>(vm, apps). (uint vm, map (\<lambda>(a, u). uint a) apps)) usage"
  by (simp add: plain_usage_def split_def)

lemma distinct_uint: "distinct (map uint xs) \<longleftrightarrow> distinct (xs :: u64 list)"
  unfolding distinct_map by (auto intro!: inj_onI simp: word_uint_eq_iff)

text \<open>C37. What the local enforcers report is what the monitor sees.  After any sequence of reports from any VMs
  the global enforcer's status document is parsed without an error, with one log entry for each reported
  application that has the reported memory, bandwidth and performance; and the monitor then maps the VM
  of the last report to exactly the applications whose memory the VM could read.\<close>

theorem reported_usage_parsed:
  assumes "list_all2 (\<lambda>(rd, rp) u. snd (report_usage rd rp) = Some u) (sources @ [(rd, rp)]) us"
  shows "\<exists>vm_map les apps. parse_log_entries (cluster_status (fold global_usage us [])) m = Inr (m\<lparr>vm_to_app_map := vm_map\<rparr>, les) \<and>
    list_all2 (logged (mon_last_allocation m)) (flatten (plain_usage (fold global_usage us []))) les \<and>
    map_of vm_map (uint (rp_id rp)) = Some apps \<and> distinct apps \<and>
    set apps = uint ` {a \<in> set (rp_apps rp). rd_mem rd a \<noteq> None}"
proof -
  let ?usage = "fold global_usage us []"
  obtain us' u where us: "us = us' @ [u]" "snd (report_usage rd rp) = Some u"
    using assms by (auto simp: list_all2_append1 list_all2_Cons1)
  obtain lu where lu: "u = [(rp_id rp, lu)]" "wf_dict lu" "set (keys lu) = {a \<in> set (rp_apps rp). rd_mem rd a \<noteq> None}"
    using report_shape [OF us(2)] by blast
  have wf: "wf_dict ?usage" by (rule wf_global_usage) simp
  have "map_of ?usage (rp_id rp) = Some lu" by (simp add: us(1) lu(1) global_usage_def)
  moreover have "map_of (map (\<lambda>(vm, apps). (uint vm, map (\<lambda>(a, u). uint a) apps)) xs) (uint k) =
      map_option (map (\<lambda>(a, u). uint a)) (map_of xs k)" for xs :: usage_map and k :: u64
    by (induction xs) (auto simp: word_uint_eq_iff)
  ultimately have vm: "map_of (map (\<lambda>(vm, apps). (uint vm, map (\<lambda>(a, u). uint a) apps)) ?usage) (uint (rp_id rp)) =
      Some (map uint (keys lu))" by (simp add: split_def comp_def)
  have "distinct (map fst (plain_usage ?usage))" unfolding keys_plain_usage distinct_uint by (rule wf)
  moreover have "\<forall>(vm, apps) \<in> set (plain_usage ?usage). \<forall>(a, e) \<in> set apps. complete_entry e"
    by (auto simp: plain_usage_def complete_entry_def entry_of_usage_def)
  ultimately have "\<exists>les. parse_log_entries (cluster_status ?usage) m =
      Inr (m\<lparr>vm_to_app_map := map (\<lambda>(vm, apps). (uint vm, map (\<lambda>(a, u). uint a) apps)) ?usage\<rparr>, les) \<and>
    list_all2 (logged (mon_last_allocation m)) (flatten (plain_usage ?usage)) les"
    unfolding plain_usage_vm_map [symmetric] cluster_status_def
    using parse_vms_print [of "plain_usage ?usage" "mon_last_allocation m" "[]"] parse_vm_map_print [of "plain_usage ?usage"]
    by (auto simp: parse_log_entries_def print_log_def field_def)
  moreover have "distinct (map uint (keys lu))" unfolding distinct_uint by (rule lu(2))
  moreover have "set (map uint (keys lu)) = uint ` {a \<in> set (rp_apps rp). rd_mem rd a \<noteq> None}"
    unfolding set_map [of uint] lu(3) ..
  ultimately show ?thesis using vm by blast
qed

definition sample_reporter :: reporter where
  "sample_reporter = \<lparr>rp_id = 1, rp_apps = [3, 4], rp_blk = \<lambda>_. new_blk_use_stat,
     rp_perf = \<lambda>_. update_perf 1000000 5000000 10 9000000 new_perf_stat, rp_latest_usage = [], rp_running = True\<rparr>"

definition sample_readings :: readings where
  "sample_readings = \<lparr>rd_mem = \<lambda>a. if a = 3 then Some (2000, 1500) else None, rd_io = \<lambda>_. Some (4096, 8192, 1000)\<rparr>"

lemma reporting_apps: "{a \<in> set (rp_apps sample_reporter). rd_mem sample_readings a \<noteq> None} = {3}"
  by (auto simp: sample_reporter_def sample_readings_def)

lemma reporting_id: "uint (rp_id sample_reporter) = 1"
  by (simp add: sample_reporter_def)

lemma singleton_list: "distinct xs \<Longrightarrow> set xs = {x} \<Longrightarrow> xs = [x]"
  by (cases xs; cases "tl xs") auto

theorem reported_usage_parsed_witness:
  "\<exists>vm_map les. parse_log_entries (cluster_status (global_usage (the (snd (report_usage sample_readings sample_reporter))) [])) sample_monitor =
      Inr (sample_monitor\<lparr>vm_to_app_map := vm_map\<rparr>, les) \<and> map_of vm_map 1 = Some [3]"
proof -
  have run: "rp_running sample_reporter" by (simp add: sample_reporter_def)
  obtain u where u: "snd (report_usage sample_readings sample_reporter) = Some u"
    using report_running [OF run] by blast
  have "list_all2 (\<lambda>(rd, rp) u. snd (report_usage rd rp) = Some u) ([] @ [(sample_readings, sample_reporter)]) [u]"
    using u by simp
  from reported_usage_parsed [OF this, of sample_monitor]
  obtain vm_map les apps where r: "parse_log_entries (cluster_status (fold global_usage [u] [])) sample_monitor =
      Inr (sample_monitor\<lparr>vm_to_app_map := vm_map\<rparr>, les)" "map_of vm_map (uint (rp_id sample_reporter)) = Some apps" "distinct apps"
    "set apps = uint ` {a \<in> set (rp_apps sample_reporter). rd_mem sample_readings a \<noteq> None}"
    by (elim exE conjE) rule
  have "apps = [3]" using r(3,4) unfolding reporting_apps by (simp add: singleton_list)
  then show ?thesis using r(1,2) unfolding u reporting_id option.sel fold_simps by blast
qed

end
