(* ===== verification/Py_Regex.thy ===== *)
theory Py_Regex
  imports Py_String
begin

text \<open>
  The part of Python's \<open>re.search\<close> that the log parsers use, on ASCII strings: patterns made of literal
  characters, \<open>\d+\<close> and \<open>[\d.]+\<close> with or without a group around them, and \<open>.*?\<close>.  The matcher
  backtracks as Python's does: \<open>+\<close> takes as many characters as it can and gives them back one by one,
  \<open>.*?\<close> takes as few as it can, and \<open>search\<close> tries the positions from left to right.
\<close>

section \<open>Patterns\<close>

datatype char_class = Digit | Digit_Or_Dot

datatype atom = Lit char | Plus char_class bool | Lazy_Any

type_synonym pattern = "atom list"

fun in_class :: "char_class \<Rightarrow> char \<Rightarrow> bool" where
  "in_class Digit c = (c \<in> set digits)"
| "in_class Digit_Or_Dot c = (c \<in> set digits \<or> c = CHR ''.'')"

text \<open>The first result that is not \<open>None\<close>.\<close>

fun first_some :: "('a \<Rightarrow> 'b option) \<Rightarrow> 'a list \<Rightarrow> 'b option" where
  "first_some f [] = None"
| "first_some f (x # xs) = (case f x of None \<Rightarrow> first_some f xs | Some y \<Rightarrow> Some y)"

text \<open>A match at the start of a string, with the texts of the groups.\<close>

primrec match_at :: "pattern \<Rightarrow> string \<Rightarrow> string list option" where
  "match_at [] s = Some []"
| "match_at (a # r) s =
    (case a of
       Lit c \<Rightarrow> (case s of [] \<Rightarrow> None | x # t \<Rightarrow> if x = c then match_at r t else None)
     | Plus k grouped \<Rightarrow>
         first_some (\<lambda>n. map_option (\<lambda>gs. if grouped then take n s # gs else gs) (match_at r (drop n s)))
           (rev [1..<Suc (length (takeWhile (in_class k) s))])
     | Lazy_Any \<Rightarrow>
         first_some (\<lambda>n. match_at r (drop n s)) [0..<Suc (length (takeWhile (\<lambda>c. c \<noteq> CHR 0x0A) s))])"

definition re_search :: "pattern \<Rightarrow> string \<Rightarrow> string list option" where
  "re_search p s = first_some (\<lambda>i. match_at p (drop i s)) [0..<Suc (length s)]"

abbreviation lits :: "string \<Rightarrow> pattern" where
  "lits s \<equiv> map Lit s"

section \<open>Numbers\<close>

definition digits_value :: "string \<Rightarrow> nat option" where
  "digits_value s =
     fold (\<lambda>c acc. case (acc, digit_value c) of (Some n, Some v) \<Rightarrow> Some (10 * n + v) | _ \<Rightarrow> None) s (Some 0)"

text \<open>\<open>float\<close> of a string of digits and points, without rounding: at most one point, at least one digit.\<close>

definition float_of_str :: "string \<Rightarrow> rat res" where
  "float_of_str s =
    (let whole = takeWhile (\<lambda>c. c \<noteq> CHR ''.'') s; rest = dropWhile (\<lambda>c. c \<noteq> CHR ''.'') s; part = tl rest in
     if whole @ part = [] then Inl ValueError
     else
       (case (digits_value whole, digits_value part) of
          (Some n, Some m) \<Rightarrow> Inr (of_nat n + of_nat m / 10 ^ length part)
        | _ \<Rightarrow> Inl ValueError))"

section \<open>Matching what was printed\<close>

lemma match_lits [simp]: "match_at (lits w @ r) (w @ s) = match_at r s"
  by (induction w) simp_all

lemma takeWhile_class:
  assumes "\<forall>c \<in> set w. P c" and "s = [] \<or> \<not> P (hd s)"
  shows "takeWhile P (w @ s) = w"
  using assms by (cases s) (auto simp: takeWhile_append)

text \<open>A repetition takes all of a run of characters of its class, if the rest of the pattern matches after it.\<close>

lemma match_plus:
  assumes "w \<noteq> []" and "\<forall>c \<in> set w. in_class k c" and "s = [] \<or> \<not> in_class k (hd s)" and "match_at r s = Some gs"
  shows "match_at (Plus k grouped # r) (w @ s) = Some (if grouped then w # gs else gs)"
proof -
  have "takeWhile (in_class k) (w @ s) = w" by (rule takeWhile_class [OF assms(2,3)])
  moreover have "rev [1..<Suc (length w)] = length w # rev [1..<length w]" using assms(1) by (cases w) simp_all
  ultimately show ?thesis using assms(4) by simp
qed

lemma search_at_start: "match_at p s = Some gs \<Longrightarrow> re_search p s = Some gs"
  by (simp add: re_search_def upt_conv_Cons del: upt_Suc)

lemma search_skip:
  assumes "match_at p (c # s) = None"
  shows "re_search p (c # s) = re_search p s"
proof -
  have "[0..<Suc (length (c # s))] = 0 # map Suc [0..<Suc (length s)]" by (simp add: map_Suc_upt upt_conv_Cons del: upt_Suc)
  moreover have "first_some (\<lambda>i. match_at p (drop i (c # s))) (map Suc xs) = first_some (\<lambda>i. match_at p (drop i s)) xs" for xs
    by (induction xs) (auto split: option.splits)
  ultimately show ?thesis using assms by (simp add: re_search_def del: upt_Suc)
qed

lemma search_after_prefix:
  assumes "\<forall>c \<in> set w. \<not> in_class k c"
  shows "re_search (Plus k grouped # r) (w @ s) = re_search (Plus k grouped # r) s"
  using assms by (induction w) (simp_all add: search_skip)

lemma str_of_nat_digits: "\<forall>c \<in> set (str_of_nat n). c \<in> set digits"
proof (induction n rule: str_of_nat.induct)
  case (1 n)
  have "digits ! m \<in> set digits" if "m < 10" for m using that by (intro nth_mem) (simp add: digits_def)
  then show ?case using 1 by (subst str_of_nat.simps) auto
qed

end
