(* ===== verification/Log_Parsers.thy ===== *)
theory Log_Parsers
  imports Py_Regex
begin

text \<open>
  \<open>src/res_allocation/utils/log_parsers.py\<close> and the choice of a parser in \<open>utils/logtools.py\<close>: the measurements of
  an application are read from its log.  A log is given as its lines, or as the error that opening or reading
  it raises; every exception inside a parser gives the result \<open>(0, 0, 0)\<close>.  The JSON document of the social
  network's latency log is an input.
\<close>

section \<open>The base class\<close>

type_synonym stats = "rat \<times> rat \<times> rat"

definition no_stats :: stats where
  "no_stats = (0, 0, 0)"

text \<open>The \<open>try\<close> statement around each parser.\<close>

definition caught :: "stats res \<Rightarrow> stats" where
  "caught r = (case r of Inl e \<Rightarrow> no_stats | Inr x \<Rightarrow> x)"

text \<open>\<open>xs[a:b]\<close>\<close>

definition py_slice :: "int \<Rightarrow> int \<Rightarrow> 'a list \<Rightarrow> 'a list" where
  "py_slice a b xs =
    (let n = int (length xs);
         pos = (\<lambda>i. nat (if i < 0 then max 0 (n + i) else min i n))
     in take (pos b - pos a) (drop (pos a) xs))"

text \<open>\<open>np.percentile\<close> with linear interpolation between the closest ranks; the median is the 50th one.\<close>

definition np_percentile :: "rat list \<Rightarrow> rat \<Rightarrow> rat" where
  "np_percentile xs q =
    (let s = sort xs; r = q / 100 * of_nat (length s - 1); k = nat \<lfloor>r\<rfloor>; k' = min (k + 1) (length s - 1) in
     s ! k + (s ! k' - s ! k) * (r - of_nat k))"

definition filter_measurements :: "int \<times> int \<Rightarrow> rat list \<Rightarrow> stats" where
  "filter_measurements filter_index measurements =
    (if measurements = [] then no_stats
     else
       let filtered = (if int (length measurements) > snd filter_index
                       then py_slice (fst filter_index) (snd filter_index) measurements
                       else drop (length measurements div 2) measurements)
       in if filtered = [] then no_stats
          else (np_percentile filtered 50, np_percentile filtered 10, np_percentile filtered 90))"

section \<open>The parsers\<close>

definition bandwidth_pattern1 :: pattern where
  "bandwidth_pattern1 =
     [Plus Digit True] @ lits '' requests sent | '' @ [Plus Digit False] @ lits '' bytes | '' @ [Plus Digit_Or_Dot True] @
     lits '' Mbps | '' @ [Plus Digit_Or_Dot True] @ lits '' us | active: '' @ [Plus Digit False]"

definition bandwidth_pattern2 :: pattern where
  "bandwidth_pattern2 =
     [Plus Digit True] @ lits '' requests sent | '' @ [Plus Digit False] @ lits '' bytes | '' @ [Plus Digit_Or_Dot True] @
     lits '' Mbps | avg: '' @ [Plus Digit_Or_Dot True] @ lits '' us |'' @ [Lazy_Any] @ lits ''99th: '' @
     [Plus Digit_Or_Dot True] @ lits '' us'' @ [Lazy_Any] @ lits ''| active: '' @ [Plus Digit False]"

text \<open>The last requests, bandwidth and latency; a match has one text for each group of its pattern.\<close>

definition keep_if_later :: "string \<Rightarrow> string \<Rightarrow> string \<Rightarrow> int \<times> rat \<times> rat \<Rightarrow> (int \<times> rat \<times> rat) res" where
  "keep_if_later requests bandwidth latency st =
     rbind (int_of_str requests) (\<lambda>r.
     if r \<ge> fst st
     then rbind (float_of_str bandwidth) (\<lambda>b. rbind (float_of_str latency) (\<lambda>l. Inr (r, b, l)))
     else Inr st)"

definition memcached_line :: "string \<Rightarrow> int \<times> rat \<times> rat \<Rightarrow> (int \<times> rat \<times> rat) res" where
  "memcached_line line st =
    (case re_search bandwidth_pattern1 line of
       Some gs \<Rightarrow> keep_if_later (gs ! 0) (gs ! 1) (gs ! 2) st
     | None \<Rightarrow>
         (case re_search bandwidth_pattern2 line of
            Some gs \<Rightarrow> keep_if_later (gs ! 0) (gs ! 1) (gs ! 3) st
          | None \<Rightarrow> Inr st))"

definition parse_memcached :: "bool \<Rightarrow> string list res \<Rightarrow> stats" where
  "parse_memcached latency content =
     caught
       (rbind content (\<lambda>lines.
        rbind (rfold memcached_line lines (0, 0, 0)) (\<lambda>(last_requests, last_bandwidth, last_latency).
        Inr (if last_requests > 0 then (if latency then last_latency else last_bandwidth, 0, 0) else no_stats))))"

definition throughput_pattern :: pattern where
  "throughput_pattern =
     lits ''Performed '' @ [Plus Digit True] @ lits '' timeline reads, Throughput: '' @ [Plus Digit_Or_Dot True] @
     lits '' req/s, Avg Latency: '' @ [Plus Digit_Or_Dot False] @ lits '' ms''"

definition social_line :: "string \<Rightarrow> (int \<times> rat) list \<Rightarrow> (int \<times> rat) list res" where
  "social_line line acc =
    (case re_search throughput_pattern line of
       None \<Rightarrow> Inr acc
     | Some gs \<Rightarrow>
         rbind (int_of_str (gs ! 0)) (\<lambda>reads.
         rbind (float_of_str (gs ! 1)) (\<lambda>throughput. Inr (acc @ [(reads, throughput)]))))"

definition parse_social :: "string list res \<Rightarrow> stats" where
  "parse_social content =
     caught
       (rbind content (\<lambda>lines.
        rbind (rfold social_line lines []) (\<lambda>throughputs.
        Inr (if throughputs = [] then no_stats else (snd (last throughputs), 0, 0)))))"

text \<open>The latency log: the list under \<open>cdf\<close> of the JSON document, \<open>None\<close> when there is none.\<close>

definition parse_social_latency :: "rat \<Rightarrow> (rat \<times> rat) list option \<Rightarrow> stats" where
  "parse_social_latency percentile cdf =
    (case cdf of
       None \<Rightarrow> no_stats
     | Some cdf_data \<Rightarrow>
         (case find (\<lambda>(latency_value, p). p \<ge> percentile) cdf_data of
            None \<Rightarrow> no_stats
          | Some (latency_value, _) \<Rightarrow> (latency_value, 0, 0)))"

definition iteration_pattern :: pattern where
  "iteration_pattern = lits ''Iteration '' @ [Plus Digit True] @ lits '' -''"

definition stream_line :: "string \<Rightarrow> int \<times> nat \<Rightarrow> (int \<times> nat) res" where
  "stream_line line st =
    (case re_search iteration_pattern line of
       None \<Rightarrow> Inr st
     | Some gs \<Rightarrow> rbind (int_of_str (gs ! 0)) (\<lambda>iteration. Inr (max (fst st) iteration, snd st + 1)))"

definition parse_stream :: "string list res \<Rightarrow> stats" where
  "parse_stream content =
     caught
       (rbind content (\<lambda>lines.
        rbind (rfold stream_line lines (0, 0)) (\<lambda>(highest_iteration, num_detected).
        Inr (if highest_iteration > 0 then (of_nat num_detected, 0, 0) else no_stats))))"

definition batch_pattern :: pattern where
  "batch_pattern = lits ''Batch '' @ [Plus Digit True] @ lits '' inference time: '' @ [Plus Digit_Or_Dot True] @ lits '' us''"

definition dlrm_line :: "string \<Rightarrow> rat list \<Rightarrow> rat list res" where
  "dlrm_line line acc =
    (case re_search batch_pattern line of
       None \<Rightarrow> Inr acc
     | Some gs \<Rightarrow> rbind (float_of_str (gs ! 1)) (\<lambda>t. rbind (fdiv 1 t) (\<lambda>throughput. Inr (acc @ [throughput]))))"

definition parse_dlrm :: "string list res \<Rightarrow> stats" where
  "parse_dlrm content =
     caught
       (rbind content (\<lambda>lines.
        rbind (rfold dlrm_line lines []) (\<lambda>throughputs.
        let recent = py_slice (- 100) (int (length throughputs)) throughputs in
        Inr (if throughputs = [] then no_stats else (sum_list recent / of_nat (length recent), 0, 0)))))"

section \<open>The choice of a parser\<close>

definition contains :: "string \<Rightarrow> string \<Rightarrow> bool" where
  "contains w s \<longleftrightarrow> list_ex (\<lambda>i. take (length w) (drop i s) = w) [0..<Suc (length s)]"

text \<open>\<open>parse_cont_logs\<close>: the row \<open>[idx, app_id, perf, file_id]\<close> of a log, if there is a parser for its path and the
  parser finds something.\<close>

definition cont_stats :: "string \<Rightarrow> bool \<Rightarrow> string list res \<Rightarrow> (rat \<times> rat) list option \<Rightarrow> stats option" where
  "cont_stats file_path latency content cdf =
    (if contains ''spirit_mc_client'' file_path then Some (parse_memcached latency content)
     else if contains ''spirit_socialnet_client'' file_path \<or> contains ''spirit_social_net'' file_path then
       if contains ''_client'' file_path then Some (parse_social content)
       else if contains ''_metrics'' file_path then Some (parse_social_latency (99 / 100) cdf)
       else None
     else if contains ''spirit_stream'' file_path then Some (parse_stream content)
     else if contains ''spirit_dlrm_inf'' file_path then Some (parse_dlrm content)
     else None)"

definition parse_cont_logs ::
  "string \<Rightarrow> nat \<Rightarrow> int \<Rightarrow> bool \<Rightarrow> string list res \<Rightarrow> (rat \<times> rat) list option \<Rightarrow> (nat \<times> int \<times> rat \<times> nat) list" where
  "parse_cont_logs file_path file_id app_id latency content cdf =
    (case cont_stats file_path latency content cdf of
       None \<Rightarrow> []
     | Some (median, _, _) \<Rightarrow> if median > 0 then [(0, app_id, median, file_id)] else [])"

section \<open>Reading what a client printed\<close>

text \<open>A line of the Memcached client's log, \<open>X requests sent | Y bytes | Z Mbps | L us | active: A\<close>.\<close>

record mc_report =
  mc_before :: string
  mc_requests :: nat
  mc_bytes :: nat
  mc_mbps :: string
  mc_us :: string
  mc_active :: nat

definition mc_text :: "mc_report \<Rightarrow> string" where
  "mc_text r =
     mc_before r @ str_of_nat (mc_requests r) @ '' requests sent | '' @ str_of_nat (mc_bytes r) @ '' bytes | '' @ mc_mbps r @
     '' Mbps | '' @ mc_us r @ '' us | active: '' @ str_of_nat (mc_active r)"

definition decimal :: "string \<Rightarrow> bool" where
  "decimal w \<longleftrightarrow> w \<noteq> [] \<and> (\<forall>c \<in> set w. in_class Digit_Or_Dot c) \<and> (case float_of_str w of Inl e \<Rightarrow> False | Inr x \<Rightarrow> True)"

definition mc_ok :: "mc_report \<Rightarrow> bool" where
  "mc_ok r \<longleftrightarrow> (\<forall>c \<in> set (mc_before r). \<not> in_class Digit c) \<and> decimal (mc_mbps r) \<and> decimal (mc_us r)"

definition decimal_value :: "string \<Rightarrow> rat" where
  "decimal_value w = (case float_of_str w of Inl e \<Rightarrow> 0 | Inr x \<Rightarrow> x)"

lemma float_decimal: "decimal w \<Longrightarrow> float_of_str w = Inr (decimal_value w)"
  by (auto simp: decimal_def decimal_value_def split: sum.splits)

lemma match_nat:
  assumes "s = [] \<or> \<not> in_class Digit (hd s)" and "match_at r s = Some gs"
  shows "match_at (Plus Digit grouped # r) (str_of_nat n @ s) = Some (if grouped then str_of_nat n # gs else gs)"
  by (rule match_plus) (use assms str_of_nat_digits [of n] str_of_nat_plain [of n] in auto)

lemma match_decimal:
  assumes "decimal w" and "s = [] \<or> \<not> in_class Digit_Or_Dot (hd s)" and "match_at r s = Some gs"
  shows "match_at (Plus Digit_Or_Dot True # r) (w @ s) = Some (w # gs)"
  using match_plus [of w Digit_Or_Dot s r gs True] assms by (simp add: decimal_def)

lemma search_mc_text:
  assumes "mc_ok r"
  shows "re_search bandwidth_pattern1 (mc_text r) = Some [str_of_nat (mc_requests r), mc_mbps r, mc_us r]"
proof -
  have d: "decimal (mc_mbps r)" "decimal (mc_us r)" using assms by (simp_all add: mc_ok_def)
  have not_class: "\<not> in_class Digit CHR '' ''" "\<not> in_class Digit_Or_Dot CHR '' ''" by (simp_all add: digits_def)
  have 1: "match_at [Plus Digit False] (str_of_nat (mc_active r)) = Some []"
    using match_nat [of "[]" "[]" "[]" False "mc_active r"] by simp
  have 2: "match_at (Plus Digit_Or_Dot True # lits '' us | active: '' @ [Plus Digit False])
      (mc_us r @ '' us | active: '' @ str_of_nat (mc_active r)) = Some [mc_us r]"
    by (rule match_decimal [OF d(2)]) (unfold match_lits 1, simp_all add: not_class del: in_class.simps)
  have 3: "match_at (Plus Digit_Or_Dot True # lits '' Mbps | '' @ Plus Digit_Or_Dot True # lits '' us | active: '' @ [Plus Digit False])
      (mc_mbps r @ '' Mbps | '' @ mc_us r @ '' us | active: '' @ str_of_nat (mc_active r)) = Some [mc_mbps r, mc_us r]"
    by (rule match_decimal [OF d(1)]) (unfold match_lits 2, simp_all add: not_class del: in_class.simps)
  let ?p = "lits '' bytes | '' @ Plus Digit_Or_Dot True # lits '' Mbps | '' @ Plus Digit_Or_Dot True #
      lits '' us | active: '' @ [Plus Digit False]"
  let ?s = "'' bytes | '' @ mc_mbps r @ '' Mbps | '' @ mc_us r @ '' us | active: '' @ str_of_nat (mc_active r)"
  have 4: "match_at (Plus Digit False # ?p) (str_of_nat (mc_bytes r) @ ?s) = Some [mc_mbps r, mc_us r]"
    using match_nat [of ?s ?p "[mc_mbps r, mc_us r]" False "mc_bytes r"] not_class(1) unfolding match_lits 3
    by (simp del: in_class.simps)
  let ?q = "lits '' requests sent | '' @ Plus Digit False # ?p"
  let ?t = "'' requests sent | '' @ str_of_nat (mc_bytes r) @ ?s"
  have "match_at (Plus Digit True # ?q) (str_of_nat (mc_requests r) @ ?t) = Some [str_of_nat (mc_requests r), mc_mbps r, mc_us r]"
    using match_nat [of ?t ?q "[mc_mbps r, mc_us r]" True "mc_requests r"] not_class(1) unfolding match_lits 4
    by (simp del: in_class.simps)
  from search_at_start [OF this] show ?thesis
    using search_after_prefix [of "mc_before r" Digit True ?q "str_of_nat (mc_requests r) @ ?t"] assms
    unfolding mc_text_def bandwidth_pattern1_def mc_ok_def by simp
qed

lemma memcached_report:
  assumes "mc_ok r"
  shows "memcached_line (mc_text r) st =
    (if fst st \<le> int (mc_requests r) then Inr (int (mc_requests r), decimal_value (mc_mbps r), decimal_value (mc_us r)) else Inr st)"
proof -
  have "str_of_int (int (mc_requests r)) = str_of_nat (mc_requests r)" by (simp add: str_of_int_def)
  then have "int_of_str (str_of_nat (mc_requests r)) = Inr (int (mc_requests r))" using int_of_str_of_int by metis
  then show ?thesis
    using search_mc_text [OF assms] assms by (simp add: memcached_line_def keep_if_later_def float_decimal mc_ok_def)
qed

lemma memcached_reports_below:
  assumes "\<forall>r \<in> set rs. mc_ok r \<and> int (mc_requests r) \<le> n" and "fst st \<le> n"
  shows "\<exists>st'. rfold memcached_line (map mc_text rs) st = Inr st' \<and> fst st' \<le> n"
  using assms by (induction rs arbitrary: st) (auto simp: memcached_report)

lemma memcached_reports_ignored:
  assumes "\<forall>r \<in> set rs. mc_ok r \<and> int (mc_requests r) < fst st"
  shows "rfold memcached_line (map mc_text rs) st = Inr st"
  using assms by (induction rs) (auto simp: memcached_report)


definition sample_report :: "nat \<Rightarrow> string \<Rightarrow> mc_report" where
  "sample_report n mbps =
     \<lparr>mc_before = ''INFO: '', mc_requests = n, mc_bytes = 4096, mc_mbps = mbps, mc_us = ''85.25'', mc_active = 8\<rparr>"


text \<open>With the default filter the last measurement is always dropped, so a log with one measurement gives
  nothing, and the branch for the second half is never taken.\<close>

lemma default_filter_drops_last:
  assumes "measurements \<noteq> []"
  shows "filter_measurements (0, - 1) measurements =
    (if butlast measurements = [] then no_stats
     else (np_percentile (butlast measurements) 50, np_percentile (butlast measurements) 10, np_percentile (butlast measurements) 90))"
proof -
  have "py_slice 0 (- 1) measurements = butlast measurements"
    using assms by (cases "length measurements") (auto simp: py_slice_def Let_def butlast_conv_take)
  then show ?thesis using assms by (simp add: filter_measurements_def Let_def)
qed

end
