(* ===== verification/Log_Tools.thy ===== *)
theory Log_Tools
  imports Log_Parsers Monitor_Data "HOL-Library.List_Lexorder" "HOL-Library.Char_ord"
begin

text \<open>
  \<open>src/res_allocation/utils/logtools.py\<close>, the lines of the monitor's log that it reads, the parser for log
  entries of \<open>resource_monitor.py\<close>, and the data behind the plot of \<open>draw_perf.py\<close>.  A file is the list of its
  lines, each with its line end; the latest directory of an experiment, which theory \<open>Experiment_Dirs\<close>
  finds, is an input, and what the functions print is left out, as far as printing it cannot raise.
\<close>

section \<open>Splitting strings\<close>

text \<open>The parts of a string before and after the first occurrence of a separator.\<close>

primrec split_first :: "string \<Rightarrow> string \<Rightarrow> (string \<times> string) option" where
  "split_first sep [] = (if sep = [] then Some ([], []) else None)"
| "split_first sep (c # s) =
    (if take (length sep) (c # s) = sep then Some ([], drop (length sep) (c # s))
     else map_option (\<lambda>(a, b). (c # a, b)) (split_first sep s))"

lemma split_first_length: "split_first sep s = Some (a, b) \<Longrightarrow> length s = length a + length sep + length b"
proof (induction s arbitrary: a b)
  case (Cons c s)
  show ?case
  proof (cases "take (length sep) (c # s) = sep")
    case True
    then have "length sep \<le> length (c # s)" by (metis length_take min.absorb_iff2 min.commute)
    then show ?thesis using True Cons.prems by auto
  qed (use Cons in \<open>auto simp del: take_Suc_Cons\<close>)
qed (auto split: if_splits)

text \<open>\<open>s.split(sep)\<close>, for a separator that is not empty.\<close>

function split_on :: "string \<Rightarrow> string \<Rightarrow> string list" where
  "split_on sep s =
    (case split_first sep s of
       None \<Rightarrow> [s]
     | Some (a, b) \<Rightarrow> if sep = [] then [s] else a # split_on sep b)"
  by pat_completeness auto

termination
  by (relation "measure (\<lambda>(sep, s). length s)") (auto dest: split_first_length)

declare split_on.simps [simp del]

lemma split_first_hit:
  assumes "k < length sep" and "sep ! k \<notin> set pre" and "sep ! k \<notin> set (take k sep)"
  shows "split_first sep (pre @ sep @ post) = Some (pre, post)"
  using assms(2)
proof (induction pre)
  case Nil
  then show ?case using assms(1) by (cases sep) auto
next
  case (Cons c pre)
  have "take (length sep) ((c # pre) @ sep @ post) \<noteq> sep"
  proof
    assume eq: "take (length sep) ((c # pre) @ sep @ post) = sep"
    have "sep ! k = ((c # pre) @ sep @ post) ! k" using assms(1) by (metis eq nth_take)
    moreover have "((c # pre) @ sep @ post) ! k \<in> set (c # pre) \<union> set (take k sep)"
    proof (cases "k < length (c # pre)")
      case True
      then show ?thesis by (metis UnI1 nth_append nth_mem)
    next
      case False
      then have "((c # pre) @ sep @ post) ! k = take k sep ! (k - length (c # pre))"
        "k - length (c # pre) < length (take k sep)"
        using assms(1) by (auto simp: nth_append)
      then show ?thesis by (metis UnI2 nth_mem)
    qed
    ultimately show False using Cons.prems assms(3) by auto
  qed
  then show ?case using Cons by simp
qed

lemma split_first_miss: "k < length sep \<Longrightarrow> sep ! k \<notin> set s \<Longrightarrow> split_first sep s = None"
proof (induction s)
  case (Cons c s)
  then have "take (length sep) (c # s) \<noteq> sep" by (metis in_set_takeD nth_mem)
  then show ?case using Cons by simp
qed auto

lemma split_on_hit:
  assumes "k < length sep" and "sep ! k \<notin> set pre" and "sep ! k \<notin> set (take k sep)"
  shows "split_on sep (pre @ sep @ post) = pre # split_on sep post"
  using split_first_hit [OF assms] assms(1) by (subst split_on.simps) auto

lemma split_on_miss: "k < length sep \<Longrightarrow> sep ! k \<notin> set s \<Longrightarrow> split_on sep s = [s]"
  by (subst split_on.simps) (simp add: split_first_miss)

lemma contains_mid: "contains w (pre @ w @ post)"
  unfolding contains_def list_ex_iff by (rule bexI [of _ "length pre"]) auto

section \<open>The measurements in the monitor's log\<close>

text \<open>The file name of an experiment has its limits, as in \<open>..._5120mb_5120mbps_...\<close>.\<close>

definition extract_properties :: "string \<Rightarrow> (int option \<times> int option) res" where
  "extract_properties dir_name =
    (case re_search ([Plus Digit True] @ lits ''mb_'' @ [Plus Digit True] @ lits ''mbps'') dir_name of
       None \<Rightarrow> Inr (None, None)
     | Some gs \<Rightarrow> rbind (int_of_str (gs ! 0)) (\<lambda>c. rbind (int_of_str (gs ! 1)) (\<lambda>b. Inr (Some c, Some b))))"

definition measurement_tag :: string where
  "measurement_tag = ''- INFO - New raw measurement:''"

definition part_value :: "string \<Rightarrow> int res" where
  "part_value p =
    (case split_on '': '' p of
       key # v # _ \<Rightarrow> int_of_str (hd (split_on ''/'' v))
     | _ \<Rightarrow> Inl IndexError)"

text \<open>The dictionary of the fields of a line that has the tag.\<close>

definition measurement_dict :: "string list \<Rightarrow> string \<Rightarrow> (string, int) dict res" where
  "measurement_dict target_fields line =
    (let measurement_info = py_slice 1 (- 1) (strip (split_on measurement_tag line ! 1));
         parts = split_on '', '' measurement_info
     in rfold (\<lambda>p d. let key = hd (split_on '': '' p) in
            if key \<in> set target_fields then rbind (part_value p) (\<lambda>n. Inr (dict_set key n d)) else Inr d) parts [])"

text \<open>A row: its number, the user, the values of the metrics, and the number of the file.\<close>

record row =
  r_idx :: nat
  r_user :: "int option"
  r_values :: "int option list"
  r_file :: nat

text \<open>One line for \<open>parse_log_file\<close>: the rows so far, whose number is \<open>idx\<close>, and the counter per user.  An exception
  skips the line; it can only come before the row is appended.\<close>

definition log_line ::
  "nat \<Rightarrow> string list \<Rightarrow> string \<Rightarrow> row list \<times> (int, nat) dict \<Rightarrow> row list \<times> (int, nat) dict" where
  "log_line file_id metrics line st =
    (case st of (data, per_user_counter) \<Rightarrow>
       if contains measurement_tag line
       then
         (case measurement_dict (''user_id'' # metrics) line of
            Inl _ \<Rightarrow> st
          | Inr d \<Rightarrow>
              (data @ [\<lparr>r_idx = length data, r_user = map_of d ''user_id'', r_values = map (map_of d) metrics,
                        r_file = file_id\<rparr>],
               case map_of d ''user_id'' of
                 None \<Rightarrow> per_user_counter
               | Some u \<Rightarrow> dict_set u (case map_of per_user_counter u of None \<Rightarrow> 1 | Some n \<Rightarrow> n + 1) per_user_counter))
       else st)"

text \<open>The users that are reported for their number of measurements.\<close>

definition inbalanced :: "rat \<Rightarrow> (int, nat) dict \<Rightarrow> int list" where
  "inbalanced threshold per_user_counter =
    (let avg = of_nat (sum_list (map snd per_user_counter)) / of_nat (length per_user_counter) in
     map fst (filter (\<lambda>(u, count). of_nat count < threshold * avg \<or> of_nat count > (1 + threshold) * avg) per_user_counter))"

definition collected_rows :: "int \<Rightarrow> int \<Rightarrow> 'a list \<Rightarrow> 'a list" where
  "collected_rows n_collect_lines n_skip_lines data =
    (let data' = (if int (length data) \<le> n_collect_lines then data else py_slice 0 n_collect_lines data) in
     if int (length data') \<le> n_skip_lines then data' else py_slice n_skip_lines (int (length data')) data')"

text \<open>With \<open>include_use\<close> the means of cache and bandwidth are printed; \<open>np.mean\<close> raises \<open>TypeError\<close> on a list with
  \<open>None\<close> in it, and gives \<open>nan\<close> on the empty one.  The result has the rows and the reported users.\<close>

definition parse_log_file ::
  "nat \<Rightarrow> int \<Rightarrow> int \<Rightarrow> rat \<Rightarrow> bool \<Rightarrow> string \<Rightarrow> string list \<Rightarrow> (row list \<times> int list) res" where
  "parse_log_file file_id n_collect_lines n_skip_lines threshold include_use perf_metric lines =
    (let metrics = (if include_use then [perf_metric, ''cache'', ''mem_bw''] else [perf_metric]);
         (rows, per_user_counter) = fold (log_line file_id metrics) lines ([], []);
         data = collected_rows n_collect_lines n_skip_lines rows
     in if include_use \<and> list_ex (\<lambda>r. r_values r ! 1 = None \<or> r_values r ! 2 = None) data then Inl TypeError
        else Inr (data, inbalanced threshold per_user_counter))"

text \<open>Rows until the requests add up to a target.\<close>

fun target_lines :: "nat \<Rightarrow> int \<Rightarrow> string list \<Rightarrow> string list \<Rightarrow> row list \<Rightarrow> int \<Rightarrow> row list" where
  "target_lines file_id target_reqs metrics [] data total_reqs = data"
| "target_lines file_id target_reqs metrics (line # lines) data total_reqs =
    (if contains measurement_tag line
     then
       (case measurement_dict (''user_id'' # metrics) line of
          Inl _ \<Rightarrow> target_lines file_id target_reqs metrics lines data total_reqs
        | Inr d \<Rightarrow>
            let data' = data @ [\<lparr>r_idx = length data, r_user = map_of d ''user_id'', r_values = map (map_of d) metrics,
                                 r_file = file_id\<rparr>];
                total' = total_reqs + (case map_of d ''perf'' of None \<Rightarrow> 0 | Some n \<Rightarrow> n)
            in if target_reqs > 0 \<and> total' \<ge> target_reqs then data'
               else target_lines file_id target_reqs metrics lines data' total')
     else target_lines file_id target_reqs metrics lines data total_reqs)"

definition parse_log_file_target_reqs :: "nat \<Rightarrow> int \<Rightarrow> string list \<Rightarrow> string list \<Rightarrow> row list" where
  "parse_log_file_target_reqs file_id target_reqs metrics lines = target_lines file_id target_reqs metrics lines [] 0"

section \<open>What the monitor prints\<close>

text \<open>The message \<open>New raw measurement\<close> of \<open>buffer_collected_data\<close> for integer measurements, in the format of
  the logger: the time and the name of the logger come before it.\<close>

record raw_measurement =
  rm_user :: int
  rm_perf :: int
  rm_access :: int
  rm_cache :: int
  rm_cache_alloc :: int
  rm_bw :: int
  rm_bw_alloc :: int

definition measurement_message :: "raw_measurement \<Rightarrow> string" where
  "measurement_message m =
     ''New raw measurement: {user_id: '' @ str_of_int (rm_user m) @ '', perf: '' @ str_of_int (rm_perf m) @
     '', m_acc: '' @ str_of_int (rm_access m) @ '', cache: '' @ str_of_int (rm_cache m) @ ''/'' @ str_of_int (rm_cache_alloc m) @
     '', mem_bw: '' @ str_of_int (rm_bw m) @ ''/'' @ str_of_int (rm_bw_alloc m) @ ''}''"

definition log_msg_line :: "string \<Rightarrow> string \<Rightarrow> string \<Rightarrow> string" where
  "log_msg_line asctime name msg = asctime @ '' - '' @ name @ '' - INFO - '' @ msg @ [CHR 0x0A]"

lemma str_of_int_chars: "c \<in> set (str_of_int n) \<Longrightarrow> c \<in> set digits \<or> c = CHR ''-''"
  using str_of_nat_digits by (auto simp: str_of_int_def split: if_splits)

lemma str_of_int_excl:
  "CHR '','' \<notin> set (str_of_int n)" "CHR '':'' \<notin> set (str_of_int n)" "CHR ''/'' \<notin> set (str_of_int n)"
  "CHR ''I'' \<notin> set (str_of_int n)"
  using str_of_int_chars by (fastforce simp: digits_def)+

fun join :: "string \<Rightarrow> string list \<Rightarrow> string" where
  "join sep [] = []"
| "join sep [x] = x"
| "join sep (x # y # ys) = x @ sep @ join sep (y # ys)"

lemma split_on_join:
  assumes "\<forall>x \<in> set xs. c \<notin> set x" and "xs \<noteq> []"
  shows "split_on (c # cs) (join (c # cs) xs) = xs"
  using assms
proof (induction "c # cs" xs rule: join.induct)
  case (2 x)
  then show ?case using split_on_miss [of 0 "c # cs" x] by simp
next
  case (3 x y ys)
  then show ?case using split_on_hit [of 0 "c # cs" x "join (c # cs) (y # ys)"] by simp
qed simp

lemma strip_braces: "strip (CHR '' '' # CHR ''{'' # w @ [CHR ''}'', CHR 0x0A]) = CHR ''{'' # w @ [CHR ''}'']"
  by (simp add: strip_def is_space_def)

lemma slice_braces: "py_slice 1 (- 1) (a # w @ [b]) = w"
  by (simp add: py_slice_def Let_def)

text \<open>The fields between the braces: name, text and value.\<close>

definition measurement_fields :: "raw_measurement \<Rightarrow> (string \<times> string \<times> int) list" where
  "measurement_fields m =
     [(''user_id'', str_of_int (rm_user m), rm_user m), (''perf'', str_of_int (rm_perf m), rm_perf m),
      (''m_acc'', str_of_int (rm_access m), rm_access m),
      (''cache'', str_of_int (rm_cache m) @ ''/'' @ str_of_int (rm_cache_alloc m), rm_cache m),
      (''mem_bw'', str_of_int (rm_bw m) @ ''/'' @ str_of_int (rm_bw_alloc m), rm_bw m)]"

definition measurement_parts :: "raw_measurement \<Rightarrow> string list" where
  "measurement_parts m = map (\<lambda>(key, v, n). key @ '': '' @ v) (measurement_fields m)"

lemma split_part:
  assumes "CHR '':'' \<notin> set key" and "CHR '':'' \<notin> set v"
  shows "split_on '': '' (key @ '': '' @ v) = [key, v]"
  using split_on_hit [of 0 "'': ''" key v] split_on_miss [of 0 "'': ''" v] assms by simp

lemma field_of_part:
  assumes "(key, v, n) \<in> set (measurement_fields m)"
  shows "hd (split_on '': '' (key @ '': '' @ v)) = key" "part_value (key @ '': '' @ v) = Inr n"
proof -
  have "CHR '':'' \<notin> set key" "CHR '':'' \<notin> set v" using assms by (auto simp: measurement_fields_def str_of_int_excl)
  note parts = split_part [OF this]
  show "hd (split_on '': '' (key @ '': '' @ v)) = key" by (simp only: parts list.sel)
  have "hd (split_on ''/'' (str_of_int k @ ''/'' @ w)) = str_of_int k" "hd (split_on ''/'' (str_of_int k)) = str_of_int k" for k w
    using split_on_hit [of 0 "''/''" "str_of_int k" w] split_on_miss [of 0 "''/''" "str_of_int k"]
    by (simp_all add: str_of_int_excl)
  then have "int_of_str (hd (split_on ''/'' v)) = Inr n"
    using assms by (auto simp: measurement_fields_def int_of_str_of_int simp del: append_Cons)
  then show "part_value (key @ '': '' @ v) = Inr n" unfolding part_value_def parts by simp
qed

lemma dict_of_parts:
  assumes "set fs \<subseteq> set (measurement_fields m)"
  shows "rfold (\<lambda>p d. let key = hd (split_on '': '' p) in
      if key \<in> set targets then rbind (part_value p) (\<lambda>n. Inr (dict_set key n d)) else Inr d)
      (map (\<lambda>(key, v, n). key @ '': '' @ v) fs) d =
    Inr (fold (\<lambda>(key, v, n). if key \<in> set targets then dict_set key n else id) fs d)"
  using assms
proof (induction fs arbitrary: d)
  case (Cons f fs)
  obtain key v n where f: "f = (key, v, n)" using prod_cases3 by blast
  then have "(key, v, n) \<in> set (measurement_fields m)" using Cons.prems by simp
  note part = field_of_part [OF this]
  show ?case unfolding f list.map prod.case rfold.simps Let_def part using Cons by (simp add: Let_def)
qed simp

lemma measurement_line_text:
  "log_msg_line asctime name (measurement_message m) =
    (asctime @ '' - '' @ name @ '' '') @ measurement_tag @ CHR '' '' # CHR ''{'' # join '', '' (measurement_parts m) @ [CHR ''}'', CHR 0x0A]"
  by (simp add: log_msg_line_def measurement_message_def measurement_tag_def measurement_parts_def measurement_fields_def)

lemma parts_of_line:
  assumes "CHR ''I'' \<notin> set asctime" and "CHR ''I'' \<notin> set name"
  shows "split_on '', '' (py_slice 1 (- 1) (strip (split_on measurement_tag (log_msg_line asctime name (measurement_message m)) ! 1)))
    = measurement_parts m"
proof -
  let ?post = "CHR '' '' # CHR ''{'' # join '', '' (measurement_parts m) @ [CHR ''}'', CHR 0x0A]"
  have post: "CHR ''I'' \<notin> set ?post" by (simp add: measurement_parts_def measurement_fields_def str_of_int_excl)
  have "split_on measurement_tag (log_msg_line asctime name (measurement_message m)) = [asctime @ '' - '' @ name @ '' '', ?post]"
    unfolding measurement_line_text
    using split_on_hit [of 2 measurement_tag "asctime @ '' - '' @ name @ '' ''" ?post] split_on_miss [of 2 measurement_tag ?post]
      assms post
    by (simp add: measurement_tag_def)
  moreover have "split_on '', '' (join '', '' (measurement_parts m)) = measurement_parts m"
    by (rule split_on_join) (simp_all add: measurement_parts_def measurement_fields_def str_of_int_excl)
  ultimately show ?thesis using strip_braces [of "join '', '' (measurement_parts m)"] by (simp add: slice_braces)
qed

lemma dict_of_line:
  assumes "CHR ''I'' \<notin> set asctime" and "CHR ''I'' \<notin> set name"
  shows "measurement_dict (''user_id'' # (if include_use then [''perf'', ''cache'', ''mem_bw''] else [''perf'']))
      (log_msg_line asctime name (measurement_message m)) =
    Inr ((''user_id'', rm_user m) # (''perf'', rm_perf m) #
      (if include_use then [(''cache'', rm_cache m), (''mem_bw'', rm_bw m)] else []))"
  unfolding measurement_dict_def Let_def [where s = "py_slice _ _ _"] parts_of_line [OF assms]
  unfolding measurement_parts_def Let_def [where s = "map _ _"] dict_of_parts [OF subset_refl]
  by (simp add: measurement_fields_def)

text \<open>A line of the log: a measurement, with the time and the name of the logger, or a line without the tag.\<close>

datatype log_item = Measured string string raw_measurement | Other_Line string

fun item_text :: "log_item \<Rightarrow> string" where
  "item_text (Measured asctime name m) = log_msg_line asctime name (measurement_message m)"
| "item_text (Other_Line s) = s"

fun item_ok :: "log_item \<Rightarrow> bool" where
  "item_ok (Measured asctime name m) \<longleftrightarrow> CHR ''I'' \<notin> set asctime \<and> CHR ''I'' \<notin> set name"
| "item_ok (Other_Line s) \<longleftrightarrow> \<not> contains measurement_tag s"

definition measured :: "log_item list \<Rightarrow> raw_measurement list" where
  "measured items = concat (map (\<lambda>x. case x of Measured _ _ m \<Rightarrow> [m] | Other_Line _ \<Rightarrow> []) items)"

definition row_of :: "bool \<Rightarrow> nat \<Rightarrow> nat \<times> raw_measurement \<Rightarrow> row" where
  "row_of include_use file_id x =
    (case x of (i, m) \<Rightarrow>
       \<lparr>r_idx = i, r_user = Some (rm_user m),
        r_values = Some (rm_perf m) # (if include_use then [Some (rm_cache m), Some (rm_bw m)] else []), r_file = file_id\<rparr>)"

lemma log_line_measured:
  assumes "CHR ''I'' \<notin> set asctime" and "CHR ''I'' \<notin> set name"
  shows "fst (log_line file_id (if include_use then [''perf'', ''cache'', ''mem_bw''] else [''perf''])
      (log_msg_line asctime name (measurement_message m)) st) = fst st @ [row_of include_use file_id (length (fst st), m)]"
proof -
  obtain data cnt where st: "st = (data, cnt)" by force
  have "contains measurement_tag (log_msg_line asctime name (measurement_message m))"
    unfolding measurement_line_text by (rule contains_mid)
  then show ?thesis unfolding log_line_def st prod.case dict_of_line [OF assms] by (simp add: row_of_def)
qed

lemma log_lines_rows:
  assumes "\<forall>x \<in> set items. item_ok x"
  shows "fst (fold (log_line file_id (if include_use then [''perf'', ''cache'', ''mem_bw''] else [''perf''])) (map item_text items) st)
    = fst st @ map (row_of include_use file_id) (enumerate (length (fst st)) (measured items))"
  using assms
proof (induction items arbitrary: st)
  case (Cons x items)
  show ?case
  proof (cases x)
    case (Measured asctime name m)
    then show ?thesis using Cons by (simp add: log_line_measured measured_def del: if_split)
  next
    case (Other_Line s)
    then have "log_line file_id fs s st = st" for fs using Cons.prems by (simp add: log_line_def split: prod.splits)
    then show ?thesis using Cons Other_Line by (simp add: measured_def)
  qed
qed (simp add: measured_def)

lemma collected_rows_nat:
  "collected_rows (int n) (int k) xs = (if length (take n xs) \<le> k then take n xs else drop k (take n xs))"
  by (auto simp: collected_rows_def Let_def py_slice_def)


definition sample_raw_measurement :: "int \<Rightarrow> raw_measurement" where
  "sample_raw_measurement u = \<lparr>rm_user = u, rm_perf = 4200 + u, rm_access = 8584, rm_cache = 2013, rm_cache_alloc = 2048,
     rm_bw = 55, rm_bw_alloc = 100\<rparr>"

definition sample_items :: "log_item list" where
  "sample_items = [Other_Line ''Updated VM to App mapping'',
     Measured ''2024-05-01 10:00:00,123'' ''memcached_mind_monitor'' (sample_raw_measurement 1),
     Measured ''2024-05-01 10:00:05,127'' ''memcached_mind_monitor'' (sample_raw_measurement 2)]"


section \<open>Log entries in the old format\<close>

text \<open>\<open>parse_log_entry\<close>: the pattern has to match at the start; the values of the result are strings.\<close>

definition entry_pattern :: pattern where
  "entry_pattern =
     lits ''l3miss.'' @ [Plus Digit True] @ lits '':'' @ [Plus Digit True] @ lits '':'' @ [Plus Digit True] @ lits '':cache.'' @
     [Plus Digit True] @ lits '':bw.'' @ [Plus Digit True] @ lits '':'' @ [Plus Digit True]"

definition entry_groups :: "string list" where
  "entry_groups = [''l3_miss'', ''server_id'', ''app_id'', ''cache_size'', ''bandwidth'', ''timestamp'']"

definition parse_log_entry :: "string \<Rightarrow> (string, string) dict res" where
  "parse_log_entry log_entry =
    (case match_at entry_pattern log_entry of
       None \<Rightarrow> Inl ValueError
     | Some gs \<Rightarrow> Inr (zip entry_groups gs))"

lemma parse_log_entry_print:
  "parse_log_entry (''l3miss.'' @ str_of_nat a @ '':'' @ str_of_nat b @ '':'' @ str_of_nat c @ '':cache.'' @ str_of_nat d @
     '':bw.'' @ str_of_nat e @ '':'' @ str_of_nat t) = Inr (zip entry_groups (map str_of_nat [a, b, c, d, e, t]))"
proof -
  have colon: "\<not> in_class Digit CHR '':''" by (simp add: digits_def)
  have 1: "match_at [Plus Digit True] (str_of_nat t) = Some [str_of_nat t]"
    using match_nat [of "[]" "[]" "[]" True t] by simp
  have step: "match_at (Plus Digit True # lits (CHR '':'' # w) @ r) (str_of_nat n @ (CHR '':'' # w) @ s) = Some (str_of_nat n # gs)"
    if "match_at r s = Some gs" for w r s gs n
    using match_nat [of "(CHR '':'' # w) @ s" "lits (CHR '':'' # w) @ r" gs True n] colon that unfolding match_lits by simp
  note 2 = step [OF 1, of "[]" e]
  note 3 = step [OF 2, of "''bw.''" d]
  note 4 = step [OF 3, of "''cache.''" c]
  note 5 = step [OF 4, of "[]" b]
  note 6 = step [OF 5, of "[]" a]
  show ?thesis using 6 unfolding parse_log_entry_def entry_pattern_def match_lits by simp
qed

section \<open>The data of the plot\<close>

text \<open>\<open>process_directory\<close> without \<open>use_all_subdirs\<close>: the files of the latest directory, by name.  A log of a
  container in \<open>cont_logs\<close> is parsed for its application, every other log for the monitor's measurements.\<close>

definition ends_with :: "string \<Rightarrow> string \<Rightarrow> bool" where
  "ends_with w s \<longleftrightarrow> length w \<le> length s \<and> drop (length s - length w) s = w"

type_synonym cont_row = "nat \<times> int \<times> rat \<times> nat"

definition process_file ::
  "(int, string) dict \<Rightarrow> nat \<Rightarrow> string \<Rightarrow> (string \<Rightarrow> string list res) \<Rightarrow> (string \<Rightarrow> (rat \<times> rat) list option) \<Rightarrow>
   string \<Rightarrow> row list \<times> cont_row list \<Rightarrow> (row list \<times> cont_row list) res" where
  "process_file cont_logs file_id latest content cdf name rows =
    (case rows of (all_rows, cont_rows) \<Rightarrow>
       case find (\<lambda>(app, f). f = name) cont_logs of
         Some (app, _) \<Rightarrow>
           Inr (all_rows, cont_rows @ parse_cont_logs (latest @ ''/'' @ name) file_id app False (content name) (cdf name))
       | None \<Rightarrow>
           rbind (content name) (\<lambda>lines.
           rbind (parse_log_file file_id (5 * 5000) 100 (3 / 10) True ''perf'' lines) (\<lambda>(data, _).
           Inr (all_rows @ data, cont_rows))))"

definition process_directory ::
  "(int, string) dict \<Rightarrow> nat \<Rightarrow> string \<Rightarrow> string list \<Rightarrow> (string \<Rightarrow> string list res) \<Rightarrow> (string \<Rightarrow> (rat \<times> rat) list option) \<Rightarrow>
   (row list \<times> cont_row list) res" where
  "process_directory cont_logs file_id latest listing content cdf =
     rfold (process_file cont_logs file_id latest content cdf) (sort (filter (ends_with ''.log'') listing)) ([], [])"

text \<open>The relative change of a user's performance in a file against the first file, in percent.  Without values
  for the first file it is \<open>nan\<close>, here \<open>None\<close>; files without values have no bar.\<close>

definition mean_perf :: "rat list \<Rightarrow> rat" where
  "mean_perf xs = sum_list xs / of_nat (length xs)"

definition perfs :: "cont_row list \<Rightarrow> int \<Rightarrow> nat \<Rightarrow> rat list" where
  "perfs rows uid fid = map (\<lambda>(_, _, p, _). p) (filter (\<lambda>(_, u, _, f). u = uid \<and> f = fid) rows)"

definition relative_changes :: "cont_row list \<Rightarrow> nat \<Rightarrow> int \<Rightarrow> rat option list" where
  "relative_changes rows n_labels uid =
     map (\<lambda>fid. if perfs rows uid 0 = [] then None else Some (mean_perf (perfs rows uid fid) / mean_perf (perfs rows uid 0) * 100 - 100))
       (filter (\<lambda>fid. perfs rows uid fid \<noteq> []) [1..<n_labels])"

text \<open>\<open>np.arange\<close>\<close>

definition arange :: "rat \<Rightarrow> rat \<Rightarrow> rat \<Rightarrow> rat list" where
  "arange start stop step = map (\<lambda>i. start + of_nat i * step) [0..<nat \<lceil>(stop - start) / step\<rceil>]"

definition y_axis_limits :: "rat list \<Rightarrow> rat \<times> rat \<times> rat list" where
  "y_axis_limits vals =
    (if vals = [] then (- 25, 25, arange (- 25) 26 5)
     else
       let lo = min (Min (set vals)) 0; hi = max (Max (set vals)) 0;
           rng = max (hi - lo) 20;
           tick = (if rng \<le> 20 then 5 else if rng \<le> 40 then 10 else 25);
           lo' = of_int \<lfloor>lo / tick\<rfloor> * tick;
           hi' = of_int \<lceil>hi / tick\<rceil> * tick
       in (lo', hi', arange lo' (hi' + tick) tick))"

lemma arange_multiples:
  assumes "0 < tick" and "a \<le> b"
  shows "arange (of_int a * tick) (of_int b * tick + tick) tick = map (\<lambda>k. of_int k * tick) [a..b]"
proof -
  have "(of_int b * tick + tick - of_int a * tick) / tick = of_int (b - a + 1)"
    using assms(1) by (simp add: field_simps)
  then have n: "nat \<lceil>(of_int b * tick + tick - of_int a * tick) / tick\<rceil> = nat (b - a + 1)" by (simp only: ceiling_of_int)
  show ?thesis unfolding arange_def n
    by (rule nth_equalityI) (auto simp: algebra_simps)
qed

text \<open>The limits of the axis hold all values and zero, and the marks go from one limit to the other.\<close>

lemma y_axis_holds_values:
  assumes "y_axis_limits vals = (lo, hi, ticks)"
  shows "(\<forall>v \<in> set vals. lo \<le> v \<and> v \<le> hi) \<and> lo \<le> 0 \<and> 0 \<le> hi \<and> hd ticks = lo \<and> last ticks = hi \<and> 0 \<in> set ticks"
proof (cases "vals = []")
  case True
  have t: "arange (- 25) 26 5 = [- 25, - 20, - 15, - 10, - 5, 0, 5, 10, 15, 20, 25]" by code_simp
  show ?thesis using assms True unfolding y_axis_limits_def t by auto
next
  case False
  define l h where "l = min (Min (set vals)) 0" and "h = max (Max (set vals)) 0"
  define tick :: rat where "tick = (if max (h - l) 20 \<le> 20 then 5 else if max (h - l) 20 \<le> 40 then 10 else 25)"
  define a b where "a = \<lfloor>l / tick\<rfloor>" and "b = \<lceil>h / tick\<rceil>"
  have tick: "0 < tick" by (simp add: tick_def)
  have lh: "l \<le> 0" "0 \<le> h" by (simp_all add: l_def h_def)
  have "l / tick \<le> 0" "0 \<le> h / tick" using lh tick by (simp_all add: divide_nonpos_pos)
  then have ab: "a \<le> 0" "0 \<le> b" unfolding a_def b_def by linarith+
  have "y_axis_limits vals = (of_int a * tick, of_int b * tick, arange (of_int a * tick) (of_int b * tick + tick) tick)"
    using False by (simp only: y_axis_limits_def Let_def l_def h_def tick_def a_def b_def if_False)
  then have res: "lo = of_int a * tick" "hi = of_int b * tick" "ticks = map (\<lambda>k. of_int k * tick) [a..b]"
    using assms arange_multiples [OF tick, of a b] ab by simp_all
  have "of_int a \<le> l / tick" "h / tick \<le> of_int b" by (simp_all add: a_def b_def)
  then have "lo \<le> l" "h \<le> hi" using tick res by (simp_all add: field_simps)
  moreover have "l \<le> v \<and> v \<le> h" if "v \<in> set vals" for v using that by (auto simp: l_def h_def min_le_iff_disj le_max_iff_disj)
  ultimately have "\<forall>v \<in> set vals. lo \<le> v \<and> v \<le> hi" by force
  moreover have "lo \<le> 0" "0 \<le> hi" using \<open>lo \<le> l\<close> \<open>h \<le> hi\<close> lh by auto
  moreover have "[a..b] = a # [a + 1..b]" "[a..b] = [a..b - 1] @ [b]"
    using ab by (auto intro: upto_rec1 upto_rec2)
  then have "[a..b] \<noteq> []" "hd [a..b] = a" "last [a..b] = b" by (metis list.distinct(1), metis list.sel(1), metis last_snoc)
  then have "hd ticks = lo" "last ticks = hi" using res by (simp_all add: hd_map last_map)
  moreover have "0 \<in> set ticks" using res(3) ab by (auto intro!: image_eqI [of _ _ 0])
  ultimately show ?thesis by blast
qed

end
