(* ===== verification/Experiment_Dirs.thy ===== *)
theory Experiment_Dirs
  imports Log_Tools Evaluation "HOL-Library.Product_Lexorder"
begin

text \<open>
  The directories that experiments are kept in: \<open>src/res_allocation/main_move_logs.py\<close> names one after the time and
  the limits of a run, and \<open>get_latest_subdirectory\<close> of \<open>utils/logtools.py\<close> finds the latest one for given limits
  by parsing the names again; \<open>draw_perf.py\<close> reads what is in it.  The local time and directory listings are
  inputs, shell commands are values, and dates are parsed as \<open>datetime.strptime\<close> documents it.
\<close>

section \<open>Dates\<close>

type_synonym datetime = "nat \<times> nat \<times> nat \<times> nat \<times> nat \<times> nat"

definition leap_year :: "nat \<Rightarrow> bool" where
  "leap_year y \<longleftrightarrow> 4 dvd y \<and> (\<not> 100 dvd y \<or> 400 dvd y)"

definition days_in_month :: "nat \<Rightarrow> nat \<Rightarrow> nat" where
  "days_in_month y m = (if m = 2 then (if leap_year y then 29 else 28) else if m \<in> {4, 6, 9, 11} then 30 else 31)"

definition valid_datetime :: "datetime \<Rightarrow> bool" where
  "valid_datetime t =
    (case t of (y, mon, d, h, mi, s) \<Rightarrow>
       1 \<le> y \<and> y \<le> 9999 \<and> 1 \<le> mon \<and> mon \<le> 12 \<and> 1 \<le> d \<and> d \<le> days_in_month y mon \<and> h < 24 \<and> mi < 60 \<and> s < 60)"

text \<open>The format \<open>%Y%m%d-%H%M%S\<close>.  A field has alternatives that are tried in order, each with the characters
  allowed at its positions.\<close>

datatype format_item = Field "char list list list" | Separator char

definition date_format :: "format_item list" where
  "date_format =
    (let nonzero = tl digits in
     [Field [[digits, digits, digits, digits]],
      Field [[''1'', ''012''], [''0'', nonzero], [nonzero]],
      Field [[''3'', ''01''], [''12'', digits], [''0'', nonzero], [nonzero], ['' '', nonzero]],
      Separator (CHR ''-''),
      Field [[''2'', ''0123''], [''01'', digits], [digits]],
      Field [[''012345'', digits], [digits]],
      Field [[''6'', ''01''], [''012345'', digits], [digits]]])"

definition fits :: "char list list \<Rightarrow> string \<Rightarrow> bool" where
  "fits alt s \<longleftrightarrow> list_all2 (\<lambda>allowed c. c \<in> set allowed) alt (take (length alt) s)"

text \<open>The texts of the fields, and what is left of the string.\<close>

fun match_format :: "format_item list \<Rightarrow> string \<Rightarrow> (string list \<times> string) option" where
  "match_format [] s = Some ([], s)"
| "match_format (Separator c # r) s = (case s of [] \<Rightarrow> None | x # t \<Rightarrow> if x = c then match_format r t else None)"
| "match_format (Field alts # r) s =
     first_some (\<lambda>alt.
       if fits alt s
       then map_option (\<lambda>(gs, rest). (take (length alt) s # gs, rest)) (match_format r (drop (length alt) s))
       else None) alts"

definition strptime :: "string \<Rightarrow> datetime res" where
  "strptime s =
    (case match_format date_format s of
       None \<Rightarrow> Inl ValueError
     | Some (gs, rest) \<Rightarrow>
         if rest \<noteq> [] then Inl ValueError
         else
           rbind (rfold (\<lambda>g acc. rbind (int_of_str g) (\<lambda>n. Inr (acc @ [nat n]))) gs []) (\<lambda>ns.
             let t = (ns ! 0, ns ! 1, ns ! 2, ns ! 3, ns ! 4, ns ! 5) in
             if valid_datetime t then Inr t else Inl ValueError))"

definition two_digits :: "nat \<Rightarrow> string" where
  "two_digits n = [digits ! (n div 10), digits ! (n mod 10)]"

text \<open>\<open>time.strftime\<close> of a local time.\<close>

definition strftime :: "datetime \<Rightarrow> string" where
  "strftime t =
    (case t of (y, mon, d, h, mi, s) \<Rightarrow>
       str_of_nat y @ two_digits mon @ two_digits d @ ''-'' @ two_digits h @ two_digits mi @ two_digits s)"

section \<open>Moving the logs of a run\<close>

text \<open>\<open>f"{x:.1f}"\<close>: rounded to one decimal, ties to even.\<close>

definition round_half_even :: "rat \<Rightarrow> int" where
  "round_half_even x =
    (let n = \<lfloor>x\<rfloor>; r = x - of_int n in if r < 1 / 2 \<or> r = 1 / 2 \<and> even n then n else n + 1)"

definition one_decimal :: "rat \<Rightarrow> string" where
  "one_decimal x =
    (let n = nat (round_half_even (10 * \<bar>x\<bar>)) in
     (if x < 0 then ''-'' else []) @ str_of_nat (n div 10) @ ''.'' @ str_of_nat (n mod 10))"

text \<open>The directory of the runs of an allocator on a cluster, and the name of one in it.  How the numbers of the
  configuration file are printed (an integer or a float) is a parameter.\<close>

definition runs_dir :: "string \<Rightarrow> string \<Rightarrow> nat \<Rightarrow> rat \<Rightarrow> string" where
  "runs_dir cluster allocator n_apps interval =
     ''logs/'' @ cluster @ ''/'' @ allocator @ ''/App'' @ str_of_nat n_apps @ ''_int_'' @ one_decimal interval @ ''sec''"

definition run_name :: "(rat \<Rightarrow> string) \<Rightarrow> datetime \<Rightarrow> rat \<Rightarrow> rat \<Rightarrow> string" where
  "run_name num_text now cache_mb bw_mbps = strftime now @ ''_'' @ num_text cache_mb @ ''mb_'' @ num_text bw_mbps @ ''mbps''"

text \<open>The shell commands of \<open>move_logs\<close>.\<close>

definition move_logs :: "(rat \<Rightarrow> string) \<Rightarrow> string \<Rightarrow> rat \<Rightarrow> datetime \<Rightarrow> config_json \<Rightarrow> string list res" where
  "move_logs num_text allocator default_interval now data =
     rbind (load_config data) (\<lambda>config.
       let interval = (case configured_interval config of None \<Rightarrow> default_interval | Some i \<Rightarrow> i) in
       rbind (attribute (cf_cluster config)) (\<lambda>cluster.
       rbind (attribute (cf_benchmark_map config)) (\<lambda>benchmark_map.
         let new_dir = runs_dir (cluster_name cluster) allocator (length benchmark_map) interval @ ''/'' @
               run_name num_text now (cache_in_mb cluster) (mem_bw_in_mbps cluster)
         in Inr [''mkdir -p '' @ new_dir, ''mv *.html '' @ new_dir @ ''/.'', ''mv logs/*.log '' @ new_dir @ ''/.''])))"

section \<open>Finding the latest run\<close>

text \<open>\<open>os.path.join(a, b)\<close>\<close>

definition path_join :: "string \<Rightarrow> string \<Rightarrow> string" where
  "path_join a b =
    (if b \<noteq> [] \<and> hd b = CHR ''/'' then b
     else if a = [] \<or> last a = CHR ''/'' then a @ b
     else a @ ''/'' @ b)"

definition target_subdirs :: "(int \<times> int) option \<Rightarrow> string list \<Rightarrow> string list res" where
  "target_subdirs target subdirs =
    (case target of
       None \<Rightarrow> Inr subdirs
     | Some (c, b) \<Rightarrow>
         rfold (\<lambda>subdir acc.
           rbind (extract_properties subdir) (\<lambda>(cache, bw).
             Inr (if cache = Some c \<and> bw = Some b then acc @ [subdir] else acc))) subdirs [])"

text \<open>The date of a directory: \<open>subdir.split('_')[-3].split('/')[-1]\<close>.\<close>

definition subdir_date :: "string \<Rightarrow> datetime res" where
  "subdir_date subdir =
    (let parts = split_on ''_'' subdir in
     if length parts < 3 then Inl IndexError else strptime (last (split_on ''/'' (parts ! (length parts - 3)))))"

definition add_dated :: "string \<Rightarrow> (string \<times> datetime) list \<Rightarrow> (string \<times> datetime) list res" where
  "add_dated subdir acc =
    (case subdir_date subdir of
       Inr t \<Rightarrow> Inr (acc @ [(subdir, t)])
     | Inl e \<Rightarrow> if e = ValueError then Inr acc else Inl e)"

text \<open>\<open>max\<close> by date: the first of the latest; the empty list raises.\<close>

fun latest_of :: "(string \<times> datetime) list \<Rightarrow> string res" where
  "latest_of [] = Inl ValueError"
| "latest_of (x # xs) = Inr (fst (fold (\<lambda>y best. if snd best < snd y then y else best) xs x))"

text \<open>The entries of the directory come with whether they are directories.\<close>

definition get_latest_subdirectory :: "string \<Rightarrow> (int \<times> int) option \<Rightarrow> (string \<times> bool) list \<Rightarrow> string res" where
  "get_latest_subdirectory directory target listing =
     rbind (target_subdirs target (map (\<lambda>(d, _). path_join directory d) (filter snd listing))) (\<lambda>subdirs.
     rbind (rfold add_dated subdirs []) latest_of)"

text \<open>\<open>process_directories\<close> of \<open>draw_perf.py\<close>, up to the data frames.  \<open>listdir\<close> gives the entries of a directory.\<close>

definition process_directories ::
  "(int, string) dict \<Rightarrow> (int \<times> int) option \<Rightarrow> (string \<Rightarrow> (string \<times> bool) list) \<Rightarrow>
   (string \<Rightarrow> string \<Rightarrow> string list res) \<Rightarrow> (string \<Rightarrow> string \<Rightarrow> (rat \<times> rat) list option) \<Rightarrow> string list \<Rightarrow>
   (row list \<times> cont_row list) res" where
  "process_directories cont_logs target listdir content cdf dirs =
     rfold (\<lambda>(fid, d) (rows, cont).
       rbind (get_latest_subdirectory d target (listdir d)) (\<lambda>latest.
       rbind (process_directory cont_logs fid latest (map fst (listdir latest)) (content latest) (cdf latest)) (\<lambda>(r, c).
       Inr (rows @ r, cont @ c)))) (enumerate 0 dirs) ([], [])"

section \<open>Dates are read back\<close>

lemma two_digits_value: "n < 100 \<Longrightarrow> int_of_str (two_digits n) = Inr (int n)"
proof -
  assume "n < 100"
  moreover have "list_all (\<lambda>n. int_of_str (two_digits n) = Inr (int n)) [0..<100]" by code_simp
  ultimately show ?thesis by (simp add: list_all_iff)
qed

text \<open>The first alternative that fits decides, if the rest matches after it.\<close>

lemma match_field:
  assumes "match_format r s = Some (gs, rest)" and "alts = before @ alt # after" and "\<forall>a \<in> set before. \<not> fits a (w @ s)"
    and "fits alt (w @ s)" and "length alt = length w"
  shows "match_format (Field alts # r) (w @ s) = Some (w # gs, rest)"
proof -
  let ?f = "\<lambda>alt. if fits alt (w @ s)
       then map_option (\<lambda>(gs, rest). (take (length alt) (w @ s) # gs, rest)) (match_format r (drop (length alt) (w @ s))) else None"
  have "first_some ?f (before @ alt # after) = ?f alt" if "\<forall>a \<in> set before. \<not> fits a (w @ s)" for before
    using that assms(1,4,5) by (induction before) auto
  then show ?thesis using assms by simp
qed

lemma fits_Nil: "fits [] s"
  by (simp add: fits_def)

lemma fits_Cons: "fits (a # alt) (c # s) \<longleftrightarrow> c \<in> set a \<and> fits alt s"
  by (simp add: fits_def)

lemma not_fits_Nil: "\<not> fits (a # alt) []"
  by (simp add: fits_def)

lemmas fits_simps = fits_Nil fits_Cons not_fits_Nil

lemma digit_nth: "n < 10 \<Longrightarrow> digits ! n \<in> set digits"
  by (intro nth_mem) (simp add: digits_def)

lemma low_digit: "n < 6 \<Longrightarrow> digits ! n \<in> set ''012345''"
  by (auto simp: digits_def less_Suc_eq numeral_eq_Suc)

lemma match_minute:
  assumes "n < 60" and "match_format r s = Some (gs, rest)"
  shows "match_format (Field [[''012345'', digits], [digits]] # r) (two_digits n @ s) = Some (two_digits n # gs, rest)"
proof (rule match_field [OF assms(2), of _ "[]"])
  have "n div 10 < 6" "n mod 10 < 10" using assms(1) by auto
  then show "fits [''012345'', digits] (two_digits n @ s)" using low_digit digit_nth by (simp add: two_digits_def fits_simps del: insert_iff)
qed (simp_all add: two_digits_def)

lemma match_second:
  assumes "n < 60" and "match_format r s = Some (gs, rest)"
  shows "match_format (Field [[''6'', ''01''], [''012345'', digits], [digits]] # r) (two_digits n @ s) = Some (two_digits n # gs, rest)"
proof (rule match_field [OF assms(2), of _ "[[''6'', ''01'']]"])
  have n: "n div 10 < 6" "n mod 10 < 10" using assms(1) by auto
  then show "fits [''012345'', digits] (two_digits n @ s)" using low_digit digit_nth by (simp add: two_digits_def fits_simps del: insert_iff)
  show "\<forall>a \<in> set [[''6'', ''01'']]. \<not> fits a (two_digits n @ s)" using low_digit [OF n(1)] by (auto simp: two_digits_def fits_simps)
qed (simp_all add: two_digits_def)

lemma small_digit:
  "n < 2 \<Longrightarrow> digits ! n \<in> set ''01''" "n < 3 \<Longrightarrow> digits ! n \<in> set ''012''" "n < 4 \<Longrightarrow> digits ! n \<in> set ''0123''"
  "1 \<le> n \<Longrightarrow> n < 3 \<Longrightarrow> digits ! n \<in> set ''12''"
  by (auto simp: digits_def less_Suc_eq numeral_eq_Suc)

lemma nonzero_digit: "1 \<le> n \<Longrightarrow> n < 10 \<Longrightarrow> digits ! n \<in> set (tl digits)"
  using nth_mem [of "n - 1" "tl digits"] by (cases n) (simp_all add: nth_tl digits_def)

lemma digit_eq: "m < 10 \<Longrightarrow> n < 10 \<Longrightarrow> digits ! m = digits ! n \<longleftrightarrow> m = n"
  by (intro nth_eq_iff_index_eq) (simp_all add: digits_def)

lemma fits_two: "fits [a, b] (two_digits n @ s) \<longleftrightarrow> digits ! (n div 10) \<in> set a \<and> digits ! (n mod 10) \<in> set b"
  by (simp add: two_digits_def fits_simps)

lemma named_digits: "digits ! 0 = CHR ''0''" "digits ! Suc 0 = CHR ''1''" "digits ! 2 = CHR ''2''" "digits ! 3 = CHR ''3''"
  by (simp_all add: digits_def)

lemma match_hour:
  assumes "n < 24" and "match_format r s = Some (gs, rest)"
  shows "match_format (Field [[''2'', ''0123''], [''01'', digits], [digits]] # r) (two_digits n @ s) = Some (two_digits n # gs, rest)"
proof (cases "n < 20")
  case True
  then have n: "n div 10 < 2" "n mod 10 < 10" by auto
  have no: "digits ! (n div 10) \<noteq> CHR ''2''" using n digit_eq [of "n div 10" 2] by (simp add: named_digits)
  show ?thesis using no small_digit(1) [OF n(1)] digit_nth [OF n(2)]
    by (intro match_field [OF assms(2), of _ "[[''2'', ''0123'']]" "[''01'', digits]"]) (simp_all add: fits_two, simp_all add: two_digits_def)
next
  case False
  then have n: "n div 10 = 2" "n mod 10 < 4" using assms(1) by presburger+
  show ?thesis using n small_digit(3) [OF n(2)]
    by (intro match_field [OF assms(2), of _ "[]" "[''2'', ''0123'']"]) (simp_all add: fits_two named_digits, simp_all add: two_digits_def)
qed

lemma match_month:
  assumes "1 \<le> n" and "n \<le> 12" and "match_format r s = Some (gs, rest)"
  shows "match_format (Field [[''1'', ''012''], [''0'', tl digits], [tl digits]] # r) (two_digits n @ s) = Some (two_digits n # gs, rest)"
proof (cases "n < 10")
  case True
  then have n: "n div 10 = 0" "n mod 10 = n" by auto
  show ?thesis using n nonzero_digit [OF assms(1) True]
    by (intro match_field [OF assms(3), of _ "[[''1'', ''012'']]" "[''0'', tl digits]"]) (simp_all add: fits_two named_digits, simp_all add: two_digits_def)
next
  case False
  then have n: "n div 10 = 1" "n mod 10 < 3" using assms(2) by presburger+
  show ?thesis using n small_digit(2) [OF n(2)]
    by (intro match_field [OF assms(3), of _ "[]" "[''1'', ''012'']"]) (simp_all add: fits_two named_digits, simp_all add: two_digits_def)
qed

lemma match_day:
  assumes "1 \<le> n" and "n \<le> 31" and "match_format r s = Some (gs, rest)"
  shows "match_format (Field [[''3'', ''01''], [''12'', digits], [''0'', tl digits], [tl digits], ['' '', tl digits]] # r) (two_digits n @ s) =
    Some (two_digits n # gs, rest)"
proof -
  consider "n < 10" | "10 \<le> n" "n < 30" | "30 \<le> n" by linarith
  then show ?thesis
  proof cases
    case 1
    then have n: "n div 10 = 0" "n mod 10 = n" by auto
    show ?thesis using n nonzero_digit [OF assms(1) 1]
      by (intro match_field [OF assms(3), of _ "[[''3'', ''01''], [''12'', digits]]" "[''0'', tl digits]"]) (simp_all add: fits_two named_digits, simp_all add: two_digits_def)
  next
    case 2
    then have n: "1 \<le> n div 10" "n div 10 < 3" "n mod 10 < 10" by auto
    have no: "digits ! (n div 10) \<noteq> CHR ''3''" using n digit_eq [of "n div 10" 3] by (simp add: named_digits)
    show ?thesis using no small_digit(4) [OF n(1,2)] digit_nth [OF n(3)]
      by (intro match_field [OF assms(3), of _ "[[''3'', ''01'']]" "[''12'', digits]"]) (simp_all add: fits_two, simp_all add: two_digits_def)
  next
    case 3
    then have n: "n div 10 = 3" "n mod 10 < 2" using assms(2) by presburger+
    show ?thesis using n small_digit(1) [OF n(2)]
      by (intro match_field [OF assms(3), of _ "[]" "[''3'', ''01'']"]) (simp_all add: fits_two named_digits, simp_all add: two_digits_def)
  qed
qed

lemma year_digits:
  assumes "1000 \<le> y" and "y \<le> 9999"
  shows "str_of_nat y = [digits ! (y div 1000), digits ! (y div 100 mod 10), digits ! (y div 10 mod 10), digits ! (y mod 10)]"
proof -
  have b: "10 \<le> y div 10 div 10" "10 \<le> y div 10" "y div 10 div 10 div 10 < 10" using assms by linarith+
  have last: "str_of_nat (y div 10 div 10 div 10) = [digits ! (y div 10 div 10 div 10)]"
    using b(3) by (subst str_of_nat.simps) simp
  have third: "str_of_nat (y div 10 div 10) = str_of_nat (y div 10 div 10 div 10) @ [digits ! (y div 10 div 10 mod 10)]"
    using b(1) by (subst str_of_nat.simps) simp
  have second: "str_of_nat (y div 10) = str_of_nat (y div 10 div 10) @ [digits ! (y div 10 mod 10)]"
    using b(2) by (subst str_of_nat.simps) simp
  have "str_of_nat y = str_of_nat (y div 10) @ [digits ! (y mod 10)]" using assms by (subst str_of_nat.simps) simp
  then show ?thesis unfolding second third last by (simp add: div_mult2_eq [symmetric])
qed

lemma match_year:
  assumes "1000 \<le> y" and "y \<le> 9999" and "match_format r s = Some (gs, rest)"
  shows "match_format (Field [[digits, digits, digits, digits]] # r) (str_of_nat y @ s) = Some (str_of_nat y # gs, rest)"
proof (rule match_field [OF assms(3), of _ "[]"])
  have "y div 1000 < 10" using assms(2) by simp
  then show "fits [digits, digits, digits, digits] (str_of_nat y @ s)"
    unfolding year_digits [OF assms(1,2)] by (simp add: fits_simps digit_nth)
qed (simp_all add: year_digits [OF assms(1,2)])

lemma days_in_month_le: "days_in_month y m \<le> 31"
  by (simp add: days_in_month_def)

lemma strptime_strftime:
  assumes "valid_datetime t" and "1000 \<le> fst t"
  shows "strptime (strftime t) = Inr t"
proof -
  obtain y mon d h mi s where t: "t = (y, mon, d, h, mi, s)" using prod_cases6 by blast
  have v: "1000 \<le> y" "y \<le> 9999" "1 \<le> mon" "mon \<le> 12" "1 \<le> d" "d \<le> 31" "h < 24" "mi < 60" "s < 60"
    using assms days_in_month_le [of y mon] by (auto simp: t valid_datetime_def)
  have "match_format [Field [[''6'', ''01''], [''012345'', digits], [digits]]] (two_digits s @ []) = Some ([two_digits s], [])"
    by (rule match_second [OF v(9)]) simp
  note this [THEN match_minute [OF v(8)], THEN match_hour [OF v(7)]]
  moreover have "match_format (Separator (CHR ''-'') # r) (''-'' @ w) = match_format r w" for r w by simp
  ultimately have "match_format date_format (strftime t) =
      Some ([str_of_nat y, two_digits mon, two_digits d, two_digits h, two_digits mi, two_digits s], [])"
    unfolding date_format_def Let_def strftime_def t prod.case
    by (intro match_year [OF v(1,2)] match_month [OF v(3,4)] match_day [OF v(5,6)]) simp
  moreover have "int_of_str (str_of_nat y) = Inr (int y)" using int_of_str_of_int [of "int y"] by (simp add: str_of_int_def)
  ultimately show ?thesis using assms(1) v unfolding strptime_def
    by (simp add: two_digits_value t Let_def)
qed

section \<open>The limits in a name\<close>

definition no_sub :: "string \<Rightarrow> string \<Rightarrow> bool" where
  "no_sub w s \<longleftrightarrow> (\<forall>u v. s \<noteq> u @ w @ v)"

lemma no_sub_Cons: "no_sub w (c # s) \<Longrightarrow> no_sub w s"
  unfolding no_sub_def by (metis append_Cons)

lemma first_some_Some: "first_some f xs = Some y \<Longrightarrow> \<exists>x \<in> set xs. f x = Some y"
  by (induction xs) (auto split: option.splits)

lemma match_lits_Some: "match_at (lits w @ r) s = Some gs \<Longrightarrow> \<exists>t. s = w @ t"
  by (induction w arbitrary: s) (auto split: list.splits if_splits)

lemma match_digits_lits:
  assumes "match_at (Plus Digit g # lits w @ r) s = Some gs"
  shows "\<exists>ds t. s = ds @ w @ t \<and> set ds \<subseteq> set digits"
proof -
  obtain n gs' where n: "n \<le> length (takeWhile (in_class Digit) s)" "match_at (lits w @ r) (drop n s) = Some gs'"
    using assms by (auto dest!: first_some_Some simp: less_Suc_eq_le simp del: upt_Suc)
  obtain t where "drop n s = w @ t" using match_lits_Some [OF n(2)] by blast
  then have "s = take n s @ w @ t" by (metis append_take_drop_id)
  moreover have "take n s = take n (takeWhile (in_class Digit) s)" using n(1) by (metis takeWhile_eq_take take_take min.absorb1)
  then have "set (take n s) \<subseteq> set (takeWhile (in_class Digit) s)" by (simp add: set_take_subset)
  then have "set (take n s) \<subseteq> set digits" by (auto dest!: set_takeWhileD)
  ultimately show ?thesis by blast
qed

text \<open>No match of \<open>\d+mb_\<close> begins in a prefix that ends in an underscore and does not contain \<open>mb_\<close>.\<close>

lemma search_skip_prefix:
  assumes "no_sub ''mb_'' w" and "w \<noteq> []" and "last w = CHR ''_''"
  shows "re_search (Plus Digit g # lits ''mb_'' @ r) (w @ s) = re_search (Plus Digit g # lits ''mb_'' @ r) s"
  using assms
proof (induction w)
  case (Cons c w)
  have "match_at (Plus Digit g # lits ''mb_'' @ r) (c # w @ s) = None"
  proof (rule ccontr)
    assume "match_at (Plus Digit g # lits ''mb_'' @ r) (c # w @ s) \<noteq> None"
    then obtain ds t where ds: "(c # w) @ s = (ds @ ''mb_'') @ t" "set ds \<subseteq> set digits"
      using match_digits_lits [of g "''mb_''" r "c # w @ s"] by auto
    then obtain us where "c # w = (ds @ ''mb_'') @ us \<or> (c # w) @ us = ds @ ''mb_''"
      unfolding append_eq_append_conv2 by blast
    then consider "c # w = (ds @ ''mb_'') @ us" | "c # w = (ds @ ''mb_'') @ []" | us' z where "us = us' @ [z]" "(c # w) @ us = ds @ ''mb_''"
      by (cases us rule: rev_cases) auto
    then show False
    proof cases
      case (3 us' z)
      then have "((c # w) @ us') @ [z] = (ds @ ''mb'') @ ''_''" by simp
      then have "(c # w) @ us' = ds @ ''mb''" unfolding append1_eq_conv by blast
      then have "set (c # w) \<subseteq> set (ds @ ''mb'')" by (metis set_append Un_upper1)
      then have "CHR ''_'' \<in> set (ds @ ''mb'')" using Cons.prems(3) last_in_set [of "c # w"] by auto
      then show False using ds(2) by (auto simp: digits_def)
    qed (use Cons.prems(1) in \<open>auto simp: no_sub_def\<close>)
  qed
  then have "re_search (Plus Digit g # lits ''mb_'' @ r) ((c # w) @ s) = re_search (Plus Digit g # lits ''mb_'' @ r) (w @ s)"
    using search_skip by simp
  then show ?case using Cons.IH Cons.prems no_sub_Cons by (cases "w = []") auto
qed simp

lemma search_limits:
  assumes "no_sub ''mb_'' w" and "w \<noteq> []" and "last w = CHR ''_''"
  shows "extract_properties (w @ str_of_nat c @ ''mb_'' @ str_of_nat b @ ''mbps'') = Inr (Some (int c), Some (int b))"
proof -
  have num: "str_of_nat n \<noteq> []" "\<forall>ch \<in> set (str_of_nat n). in_class Digit ch" "int_of_str (str_of_nat n) = Inr (int n)" for n
    using str_of_nat_plain [of n] str_of_nat_digits [of n] int_of_str_of_int [of "int n"] by (simp_all add: str_of_int_def)
  have "match_at (Plus Digit True # lits ''mbps'') (str_of_nat b @ ''mbps'') = Some [str_of_nat b]"
    using match_plus [OF num(1,2) [of b], of "''mbps''" "lits ''mbps''" "[]" True] match_lits [of "''mbps''" "[]" "[]"] by (simp add: digits_def)
  then have "match_at (lits ''mb_'' @ [Plus Digit True] @ lits ''mbps'') (''mb_'' @ str_of_nat b @ ''mbps'') = Some [str_of_nat b]"
    unfolding match_lits by simp
  then have "match_at (Plus Digit True # lits ''mb_'' @ [Plus Digit True] @ lits ''mbps'') (str_of_nat c @ ''mb_'' @ str_of_nat b @ ''mbps'') =
      Some [str_of_nat c, str_of_nat b]"
    using match_plus [OF num(1,2) [of c], of "''mb_'' @ str_of_nat b @ ''mbps''" "lits ''mb_'' @ [Plus Digit True] @ lits ''mbps''"
        "[str_of_nat b]" True] by (simp add: digits_def del: match_at.simps list.simps(8,9))
  then have "re_search (Plus Digit True # lits ''mb_'' @ [Plus Digit True] @ lits ''mbps'') (w @ str_of_nat c @ ''mb_'' @ str_of_nat b @ ''mbps'') =
      Some [str_of_nat c, str_of_nat b]"
    unfolding search_skip_prefix [OF assms] by (rule search_at_start)
  then show ?thesis by (simp add: extract_properties_def num(3) del: list.simps(8,9))
qed

section \<open>The date in a name\<close>

lemma split_on_char: "split_on [c] (a @ [c] @ b) = split_on [c] a @ split_on [c] b"
proof (induction "length a" arbitrary: a rule: less_induct)
  case less
  show ?case
  proof (cases "c \<in> set a")
    case True
    then obtain a1 a2 where a: "a = a1 @ [c] @ a2" "c \<notin> set a1" using split_list_first by force
    have "split_on [c] (a1 @ [c] @ a2 @ [c] @ b) = a1 # split_on [c] (a2 @ [c] @ b)"
      "split_on [c] (a1 @ [c] @ a2) = a1 # split_on [c] a2"
      using a(2) split_on_hit [of 0 "[c]" a1] by simp_all
    then show ?thesis using less [of a2] a(1) by simp
  next
    case False
    then show ?thesis using split_on_hit [of 0 "[c]" a b] split_on_miss [of 0 "[c]" a] by simp
  qed
qed

lemma split_on_not_Nil: "split_on sep s \<noteq> []"
  by (subst split_on.simps) (auto split: option.splits)

lemma last_split_on:
  assumes "c \<notin> set w"
  shows "last (split_on [c] (u @ w)) = last (split_on [c] u) @ w"
proof (cases "c \<in> set u")
  case True
  then obtain u1 u2 where u: "u = u1 @ [c] @ u2" "c \<notin> set u2" using split_list_last by force
  have "split_on [c] (u1 @ [c] @ (u2 @ w)) = split_on [c] u1 @ [u2 @ w]" "split_on [c] (u1 @ [c] @ u2) = split_on [c] u1 @ [u2]"
    unfolding split_on_char using u(2) assms split_on_miss [of 0 "[c]"] by simp_all
  then show ?thesis unfolding u(1) append_assoc by simp
next
  case False
  then show ?thesis using assms split_on_miss [of 0 "[c]"] by simp
qed

lemma two_digits_chars: "n < 100 \<Longrightarrow> set (two_digits n) \<subseteq> set digits"
  using digit_nth [of "n div 10"] digit_nth [of "n mod 10"] by (simp add: two_digits_def)

lemma strftime_chars:
  assumes "valid_datetime t"
  shows "set (strftime t) \<subseteq> set digits \<union> {CHR ''-''}" and "strftime t \<noteq> []" and "hd (strftime t) \<in> set digits"
proof -
  obtain y mon d h mi s where t: "t = (y, mon, d, h, mi, s)" using prod_cases6 by blast
  have v: "mon < 100" "d < 100" "h < 100" "mi < 100" "s < 100"
    using assms days_in_month_le [of y mon] by (auto simp: t valid_datetime_def)
  have y: "set (str_of_nat y) \<subseteq> set digits" "str_of_nat y \<noteq> []" using str_of_nat_digits [of y] str_of_nat_plain [of y] by auto
  show "set (strftime t) \<subseteq> set digits \<union> {CHR ''-''}"
    using y(1) v [THEN two_digits_chars] by (auto simp: t strftime_def)
  show "strftime t \<noteq> []" "hd (strftime t) \<in> set digits" using y hd_in_set [OF y(2)] by (auto simp: t strftime_def)
qed

lemma date_of_name:
  assumes "valid_datetime t" and "1000 \<le> fst t" and "pre = [] \<or> last pre = CHR ''/''"
    and "CHR ''_'' \<notin> set a" and "CHR ''_'' \<notin> set b"
  shows "subdir_date (pre @ strftime t @ ''_'' @ a @ ''_'' @ b) = Inr t"
proof -
  note [simp] = split_on_not_Nil
  have ts: "CHR ''_'' \<notin> set (strftime t)" "CHR ''/'' \<notin> set (strftime t)"
    using strftime_chars(1) [OF assms(1)] by (auto simp: digits_def)
  let ?parts = "split_on ''_'' (pre @ strftime t)"
  have "split_on ''_'' ((pre @ strftime t) @ ''_'' @ (a @ ''_'' @ b)) = ?parts @ [a, b]"
    unfolding split_on_char using assms(4,5) split_on_miss [of 0 "''_''"] by simp
  moreover have "length ?parts \<noteq> 0" "?parts ! (length ?parts - 1) = last ?parts" by (simp_all add: last_conv_nth)
  ultimately have "subdir_date (pre @ strftime t @ ''_'' @ a @ ''_'' @ b) = strptime (last (split_on ''/'' (last ?parts)))"
    unfolding subdir_date_def Let_def append_assoc by (simp add: nth_append)
  moreover have "last ?parts = last (split_on ''_'' pre) @ strftime t" using ts(1) by (rule last_split_on)
  moreover have "last (split_on ''/'' (last (split_on ''_'' pre) @ strftime t)) = strftime t"
  proof (cases pre rule: rev_cases)
    case Nil
    have "split_on ''_'' [] = [[]]" using split_on_miss [of 0 "''_''" "[]"] by simp
    then show ?thesis using Nil ts(2) split_on_miss [of 0 "''/''"] by simp
  next
    case (snoc q ch)
    then have "last (split_on ''_'' pre) = last (split_on ''_'' q) @ ''/''"
      using assms(3) last_split_on [of "CHR ''_''" "''/''" q] by simp
    then show ?thesis using ts(2) split_on_miss [of 0 "''/''" "strftime t"]
        split_on_char [of "CHR ''/''" "last (split_on ''_'' q)" "strftime t"] by simp
  qed
  ultimately show ?thesis using strptime_strftime [OF assms(1,2)] by simp
qed

section \<open>The latest run is found\<close>

lemma no_sub_contains: "\<not> contains w s \<Longrightarrow> no_sub w s"
  unfolding no_sub_def using contains_mid by blast

lemma no_sub_append:
  assumes "no_sub ''mb_'' a" and "w \<noteq> []" and "hd w \<noteq> CHR ''_''" and "CHR ''b'' \<notin> set w"
  shows "no_sub ''mb_'' (a @ w)"
  unfolding no_sub_def
proof (intro allI notI)
  fix u v
  assume "a @ w = u @ ''mb_'' @ v"
  then have "a @ w = (u @ ''mb_'') @ v" by simp
  then obtain us where "a = (u @ ''mb_'') @ us \<or> a @ us = u @ ''mb_'' \<and> w = us @ v"
    unfolding append_eq_append_conv2 by blast
  then consider "a = u @ ''mb_'' @ us" | "a = u @ ''mb_'' @ []" | us' z where "us = us' @ [z]" "a @ us = u @ ''mb_''" "w = us @ v"
    by (cases us rule: rev_cases) auto
  then show False
  proof cases
    case (3 us' z)
    then have "(a @ us') @ [z] = (u @ ''mb'') @ ''_''" by simp
    then have z: "a @ us' = u @ ''mb''" "z = CHR ''_''" unfolding append1_eq_conv by blast+
    show False
    proof (cases us' rule: rev_cases)
      case (snoc x y)
      then have "(a @ x) @ [y] = (u @ ''m'') @ ''b''" using z(1) by simp
      then have "y = CHR ''b''" unfolding append1_eq_conv by blast
      then show False using snoc 3(1,3) assms(4) by simp
    qed (use 3(1,3) z(2) assms(3) in simp)
  qed (use assms(1) in \<open>auto simp: no_sub_def\<close>)
qed

text \<open>The directory as a prefix of the paths in it, and the name of a run at a time with whole limits.\<close>

definition dir_prefix :: "string \<Rightarrow> string" where
  "dir_prefix directory = (if directory = [] \<or> last directory = CHR ''/'' then directory else directory @ ''/'')"

definition name_of_run :: "(rat \<Rightarrow> string) \<Rightarrow> datetime \<times> nat \<times> nat \<Rightarrow> string" where
  "name_of_run num_text r = (case r of (t, c, b) \<Rightarrow> run_name num_text t (of_nat c) (of_nat b))"

definition run_path :: "string \<Rightarrow> datetime \<times> nat \<times> nat \<Rightarrow> string" where
  "run_path directory r =
    (case r of (t, c, b) \<Rightarrow> dir_prefix directory @ strftime t @ ''_'' @ str_of_nat c @ ''mb_'' @ str_of_nat b @ ''mbps'')"

lemma path_of_run:
  assumes "valid_datetime (fst r)" and "\<And>n. num_text (of_nat n) = str_of_nat n"
  shows "path_join directory (name_of_run num_text r) = run_path directory r"
proof -
  obtain t c b where r: "r = (t, c, b)" using prod_cases3 by blast
  have "name_of_run num_text r = strftime t @ ''_'' @ str_of_nat c @ ''mb_'' @ str_of_nat b @ ''mbps''"
    by (simp add: r name_of_run_def run_name_def assms(2))
  moreover have "hd (strftime t) \<noteq> CHR ''/''" "strftime t \<noteq> []"
    using strftime_chars(2,3) [of t] assms(1) by (auto simp: r digits_def)
  ultimately show ?thesis by (simp add: path_join_def dir_prefix_def run_path_def r)
qed

lemma limits_of_path:
  assumes "no_sub ''mb_'' directory" and "valid_datetime t"
  shows "extract_properties (run_path directory (t, c, b)) = Inr (Some (int c), Some (int b))"
proof -
  have chars: "CHR ''b'' \<notin> set (strftime t)" "hd (strftime t) \<noteq> CHR ''_''" "strftime t \<noteq> []"
    using strftime_chars [OF assms(2)] by (auto simp: digits_def)
  define w where "w = (if directory = [] \<or> last directory = CHR ''/'' then [] else ''/'') @ strftime t @ ''_''"
  have w: "dir_prefix directory @ strftime t @ ''_'' = directory @ w" by (simp add: w_def dir_prefix_def)
  have "no_sub ''mb_'' (directory @ w)" using chars by (intro no_sub_append [OF assms(1)]) (auto simp: w_def)
  then have "no_sub ''mb_'' (dir_prefix directory @ strftime t @ ''_'')" unfolding w .
  from search_limits [OF this, of c b] show ?thesis by (simp add: run_path_def)
qed

lemma date_of_path:
  assumes "valid_datetime t" and "1000 \<le> fst t"
  shows "subdir_date (run_path directory (t, c, b)) = Inr t"
proof -
  have "CHR ''_'' \<notin> set (str_of_nat n)" for n using str_of_nat_plain [of n] by auto
  then have "subdir_date (dir_prefix directory @ strftime t @ ''_'' @ (str_of_nat c @ ''mb'') @ ''_'' @ (str_of_nat b @ ''mbps'')) = Inr t"
    by (intro date_of_name [OF assms]) (auto simp: dir_prefix_def)
  then show ?thesis by (simp add: run_path_def)
qed

lemma target_subdirs_filter:
  assumes "\<And>p. p \<in> set ps \<Longrightarrow> extract_properties p = Inr (lims p)"
  shows "target_subdirs (Some (c, b)) ps = Inr (filter (\<lambda>p. lims p = (Some c, Some b)) ps)"
proof -
  have "rfold (\<lambda>subdir acc. rbind (extract_properties subdir) (\<lambda>(x, y). Inr (if x = Some c \<and> y = Some b then acc @ [subdir] else acc))) ps acc =
      Inr (acc @ filter (\<lambda>p. lims p = (Some c, Some b)) ps)" for acc
    using assms by (induction ps arbitrary: acc) (auto split: prod.splits)
  then show ?thesis by (simp add: target_subdirs_def)
qed

lemma dated_all:
  assumes "\<And>p. p \<in> set ps \<Longrightarrow> subdir_date p = Inr (date p)"
  shows "rfold add_dated ps acc = Inr (acc @ map (\<lambda>p. (p, date p)) ps)"
  using assms by (induction ps arbitrary: acc) (auto simp: add_dated_def)

lemma latest_of_max:
  assumes "xs \<noteq> []"
  shows "\<exists>x \<in> set xs. latest_of xs = Inr (fst x) \<and> (\<forall>y \<in> set xs. snd y \<le> snd x)"
proof -
  have "\<exists>x \<in> set (z # zs). fold (\<lambda>y best. if snd best < snd y then y else best) zs z = x \<and> (\<forall>y \<in> set (z # zs). snd y \<le> snd x)"
    for z and zs :: "(string \<times> datetime) list"
  proof (induction zs arbitrary: z)
    case (Cons a zs)
    define w where "w = (if snd z < snd a then a else z)"
    obtain x where x: "x \<in> set (w # zs)" "fold (\<lambda>y best. if snd best < snd y then y else best) zs w = x" "\<forall>y \<in> set (w # zs). snd y \<le> snd x"
      using Cons.IH [of w] by blast
    have "snd a \<le> snd w" "snd z \<le> snd w" by (auto simp: w_def not_less less_imp_le)
    moreover have "snd w \<le> snd x" using x(3) by simp
    ultimately have "snd a \<le> snd x" "snd z \<le> snd x" by (blast intro: order_trans)+
    moreover have "x \<in> set (z # a # zs)" using x(1) by (cases "snd z < snd a") (auto simp: w_def)
    ultimately show ?case using x(2,3) unfolding fold_simps w_def [symmetric] by (intro bexI [of _ x]) simp_all
  qed simp
  then show ?thesis using assms by (cases xs) (simp_all only: latest_of.simps, blast)
qed

lemma latest_dated:
  assumes "\<And>q. q \<in> set qs \<Longrightarrow> subdir_date q = Inr (date q)" and "p \<in> set qs"
    and "\<And>q. q \<in> set qs \<Longrightarrow> date q \<le> date p \<and> (date q = date p \<longrightarrow> q = p)"
  shows "rbind (rfold add_dated qs []) latest_of = Inr p"
proof -
  have "map (\<lambda>q. (q, date q)) qs \<noteq> []" using assms(2) by auto
  from latest_of_max [OF this] obtain q where q: "q \<in> set qs" "latest_of (map (\<lambda>q. (q, date q)) qs) = Inr q" "date p \<le> date q"
    using assms(2) by auto
  then have "q = p" using assms(3) [OF q(1)] by (blast intro: antisym)
  then show ?thesis using q(2) dated_all [OF assms(1), of qs "[]"] by simp
qed

text \<open>Moving the logs makes the directory of the run.\<close>

lemma move_logs_run:
  assumes "load_config data = Inr config" and "cf_cluster config = Some cl" and "cf_benchmark_map config = Some bm"
    and "cache_in_mb cl = of_nat c" and "mem_bw_in_mbps cl = of_nat b"
  shows "\<exists>dir. move_logs num_text allocator dflt t data =
      Inr [''mkdir -p '' @ dir, ''mv *.html '' @ dir @ ''/.'', ''mv logs/*.log '' @ dir @ ''/.''] \<and>
    dir = runs_dir (cluster_name cl) allocator (length bm) (case configured_interval config of None \<Rightarrow> dflt | Some i \<Rightarrow> i) @
      ''/'' @ name_of_run num_text (t, c, b)"
  using assms by (simp add: move_logs_def attribute_def name_of_run_def Let_def)

text \<open>C39. The runs of an experiment are found again.  Let the files of a directory be those that moving the logs of
  some runs created, one for each run and named after its time and limits, and others whose paths show no limits, in
  any order.  Let whole numbers be printed as such and the directory's own path not contain the text \<open>mb_\<close>.  Then
  the latest directory for given limits is the one of the last run with exactly these limits.\<close>

theorem latest_run_found:
  assumes "\<not> contains ''mb_'' directory" and "\<And>n. num_text (of_nat n) = str_of_nat n"
    and "\<forall>r \<in> set runs. valid_datetime (fst r) \<and> 1000 \<le> fst (fst r)"
    and "\<forall>d \<in> set others. extract_properties (path_join directory d) = Inr (None, None)"
    and "set listing = {(name_of_run num_text r, True) | r. r \<in> set runs} \<union> {(d, True) | d. d \<in> set others} \<union> {(f, False) | f. f \<in> set files}"
    and "(t, c, b) \<in> set runs" and "\<forall>t'. (t', c, b) \<in> set runs \<longrightarrow> t' \<le> t"
  shows "get_latest_subdirectory directory (Some (int c, int b)) listing = Inr (path_join directory (name_of_run num_text (t, c, b)))"
proof -
  let ?ps = "map (\<lambda>(d, _). path_join directory d) (filter snd listing)"
  let ?lims = "\<lambda>p. projr (extract_properties p)"
  let ?date = "\<lambda>p. projr (subdir_date p)"
  define qs where "qs = filter (\<lambda>p. ?lims p = (Some (int c), Some (int b))) ?ps"
  have ps: "set ?ps = run_path directory ` set runs \<union> path_join directory ` set others"
  proof -
    have "set ?ps = (\<lambda>(d, _). path_join directory d) ` {e \<in> set listing. snd e}" by simp
    also have "{e \<in> set listing. snd e} = (\<lambda>r. (name_of_run num_text r, True)) ` set runs \<union> (\<lambda>d. (d, True)) ` set others"
      unfolding assms(5) by auto
    also have "(\<lambda>(d, _). path_join directory d) ` \<dots> = run_path directory ` set runs \<union> path_join directory ` set others"
      using path_of_run [OF _ assms(2)] assms(3) unfolding image_Un image_image by (auto cong: image_cong)
    finally show ?thesis .
  qed
  have lim: "extract_properties (run_path directory r) = Inr (Some (int (fst (snd r))), Some (int (snd (snd r))))" if "r \<in> set runs" for r
    using limits_of_path [OF no_sub_contains [OF assms(1)], of "fst r" "fst (snd r)" "snd (snd r)"] assms(3) that by simp
  have all: "extract_properties p = Inr (?lims p)" if "p \<in> set ?ps" for p using that lim assms(4) unfolding ps by auto
  have target: "target_subdirs (Some (int c, int b)) ?ps = Inr qs" unfolding qs_def by (rule target_subdirs_filter) (rule all)
  have qs: "set qs = {run_path directory (t', c, b) | t'. (t', c, b) \<in> set runs}"
    unfolding qs_def set_filter ps using lim assms(4) by (auto simp: lim) blast
  have date: "subdir_date (run_path directory (t', c, b)) = Inr t'" if "(t', c, b) \<in> set runs" for t'
    using assms(3) that by (intro date_of_path) force+
  have "rbind (rfold add_dated qs []) latest_of = Inr (run_path directory (t, c, b))"
  proof (rule latest_dated [of qs ?date])
    show "run_path directory (t, c, b) \<in> set qs" unfolding qs using assms(6) by blast
  next
    fix q
    assume "q \<in> set qs"
    then obtain t' where q: "(t', c, b) \<in> set runs" "q = run_path directory (t', c, b)" unfolding qs by blast
    show "subdir_date q = Inr (?date q)" unfolding q(2) date [OF q(1)] by simp
    have "t' \<le> t" using assms(7) q(1) by blast
    then show "?date q \<le> ?date (run_path directory (t, c, b)) \<and> (?date q = ?date (run_path directory (t, c, b)) \<longrightarrow> q = run_path directory (t, c, b))"
      unfolding q(2) date [OF q(1)] date [OF assms(6)] by simp
  qed
  then have "get_latest_subdirectory directory (Some (int c, int b)) listing = Inr (run_path directory (t, c, b))"
    unfolding get_latest_subdirectory_def target by simp
  then show ?thesis using path_of_run [of "(t, c, b)" num_text directory, OF _ assms(2)] assms(3,6) by force
qed

definition sample_runs :: "(datetime \<times> nat \<times> nat) list" where
  "sample_runs =
     [((2025, 1, 31, 23, 59, 58), 5120, 5120), ((2025, 2, 1, 0, 0, 7), 5120, 5120), ((2025, 2, 28, 12, 30, 0), 10240, 5120)]"

theorem latest_run_found_witness:
  "get_latest_subdirectory ''./logs/mindv2/spirit/App2_int_30.0sec'' (Some (5120, 5120))
     (map (\<lambda>r. (name_of_run (\<lambda>x. str_of_nat (nat \<lfloor>x\<rfloor>)) r, True)) sample_runs @ [(''summary.log'', False)]) =
   Inr ''./logs/mindv2/spirit/App2_int_30.0sec/20250201-000007_5120mb_5120mbps''"
proof -
  let ?num = "\<lambda>x :: rat. str_of_nat (nat \<lfloor>x\<rfloor>)"
  let ?dir = "''./logs/mindv2/spirit/App2_int_30.0sec''"
  let ?r = "((2025, 2, 1, 0, 0, 7), 5120, 5120) :: datetime \<times> nat \<times> nat"
  have dir: "\<not> contains ''mb_'' ?dir" by code_simp
  have num: "?num (of_nat n) = str_of_nat n" for n by simp
  have valid: "\<forall>r \<in> set sample_runs. valid_datetime (fst r) \<and> 1000 \<le> fst (fst r)"
    by (simp add: sample_runs_def valid_datetime_def days_in_month_def)
  have latest: "?r \<in> set sample_runs" "\<forall>t'. (t', 5120, 5120) \<in> set sample_runs \<longrightarrow> t' \<le> (2025, 2, 1, 0, 0, 7)"
    by (auto simp: sample_runs_def less_eq_prod_def)
  have "get_latest_subdirectory ?dir (Some (int 5120, int 5120)) (map (\<lambda>r. (name_of_run ?num r, True)) sample_runs @ [(''summary.log'', False)]) =
      Inr (path_join ?dir (name_of_run ?num ?r))"
    by (rule latest_run_found [OF dir num valid _ _ latest, of "[]" _ "[''summary.log'']"]) auto
  moreover have "path_join ?dir (name_of_run ?num ?r) = ''./logs/mindv2/spirit/App2_int_30.0sec/20250201-000007_5120mb_5120mbps''"
    unfolding name_of_run_def run_name_def prod.case num
    by (simp add: path_join_def strftime_def two_digits_def str_of_nat.simps digits_def)
  ultimately show ?thesis by (simp only: of_nat_numeral)
qed

end
