(* ===== verification/Client_Logs.thy ===== *)
theory Client_Logs
  imports Experiment_Dirs
begin

text \<open>
  The life of log files: the logger of \<open>src/res_allocation/utils/logger.py\<close> and the one of \<open>runtime_estimator.py\<close>, the
  scripts under \<open>src/local-enforcer/scripts\<close> that start the clients and collect the logs of their containers, the
  file names that \<open>utils/log_parsers.py\<close> expects and its reader for latency logs, and the script that adds up the
  memory of all containers.  Shell commands are values, their return codes are inputs, and a directory of log
  files maps names to lines.
\<close>

section \<open>Loggers\<close>

definition starts_with :: "string \<Rightarrow> string \<Rightarrow> bool" where
  "starts_with w s \<longleftrightarrow> take (length w) s = w"

type_synonym log_dir = "(string, string list) dict"

text \<open>\<open>None\<close> is a directory that does not exist.  The handler opens the log for appending.\<close>

definition open_log :: "string \<Rightarrow> log_dir \<Rightarrow> log_dir" where
  "open_log file dir = (case map_of dir file of None \<Rightarrow> dict_set file [] dir | Some _ \<Rightarrow> dir)"

definition prepare_logger :: "string \<Rightarrow> log_dir option \<Rightarrow> log_dir" where
  "prepare_logger logger_name dir =
     open_log (logger_name @ ''.log'')
       (case dir of None \<Rightarrow> [] | Some d \<Rightarrow> filter (\<lambda>(file, _). \<not> starts_with logger_name file) d)"

definition log_line_to :: "string \<Rightarrow> string \<Rightarrow> log_dir \<Rightarrow> log_dir" where
  "log_line_to logger_name line dir =
     dict_set (logger_name @ ''.log'') ((case map_of dir (logger_name @ ''.log'') of None \<Rightarrow> [] | Some ls \<Rightarrow> ls) @ [line]) dir"

definition initialize_logger :: "string \<Rightarrow> log_dir option \<Rightarrow> log_dir" where
  "initialize_logger logger_id dir =
     open_log (''worker_'' @ logger_id @ ''.log'')
       (case dir of None \<Rightarrow> [] | Some d \<Rightarrow> filter (\<lambda>(file, _). \<not> starts_with ''worker_'' file) d)"

text \<open>The names of the loggers of the deployer, the allocator and the monitor.\<close>

definition logger_names :: "string list" where
  "logger_names = [''memcached_deployer'', ''spirit_ceei_allocator'', ''memcached_mind_monitor'']"

section \<open>Starting the clients\<close>

datatype command = Chdir string | Shell string

definition mc_container :: "string \<Rightarrow> string" where
  "mc_container app_id = ''spirit_mc_client_'' @ app_id"

definition cleanup_cmd :: "string \<Rightarrow> string" where
  "cleanup_cmd container_name = ''docker rm -f '' @ container_name @ '' 2>/dev/null || true''"

definition docker_cmd :: "string \<Rightarrow> string \<Rightarrow> string" where
  "docker_cmd config_subpath container_name =
     ''docker run -d --rm -v $(pwd)/target/release/bench-mc-client:/bench-mc-client:ro -v /workload:/workload:ro -v $(pwd)/benchmarks/ycsb:/ycsb:ro -v $(pwd)/'' @
     config_subpath @ '':/configs:ro --network host --name '' @ container_name @ '' bench-mc-client-docker''"

text \<open>The commands, and the exit code.  \<open>shell\<close> gives the return code of a command; the one of the clean up is only
  reported.\<close>

primrec start_clients :: "string \<Rightarrow> (string \<Rightarrow> int) \<Rightarrow> (string \<times> string) list \<Rightarrow> command list \<times> int" where
  "start_clients working_dir shell [] = ([], 0)"
| "start_clients working_dir shell (client # clients) =
    (case client of (app_id, config_subpath) \<Rightarrow>
       let container_name = mc_container app_id;
           cmd = docker_cmd config_subpath container_name;
           cmds = [Chdir working_dir, Shell (cleanup_cmd container_name), Chdir (path_join working_dir ''../../''), Shell cmd]
       in if shell cmd \<noteq> 0 then (cmds, 1)
          else (case start_clients working_dir shell clients of (cmds', code) \<Rightarrow> (cmds @ cmds', code)))"

text \<open>\<open>load\<close> gives the JSON document of a file, \<open>None\<close> when it does not exist: its entries \<open>config_path\<close> and
  \<open>log_collect\<close>.\<close>

record local_meta =
  lm_config_path :: "(string, string) dict option"
  lm_log_collect :: "string list option"

definition config_of_arg :: "string \<Rightarrow> (string \<Rightarrow> local_meta option) \<Rightarrow> string list \<Rightarrow> local_meta option" where
  "config_of_arg working_dir load argv =
    (if length argv > 1 then load (path_join (path_join working_dir ''../../'') (argv ! 1)) else None)"

definition run_clients ::
  "string \<Rightarrow> (string \<Rightarrow> local_meta option) \<Rightarrow> (string \<Rightarrow> int) \<Rightarrow> string list \<Rightarrow> command list \<times> int" where
  "run_clients working_dir load shell argv =
    (case config_of_arg working_dir load argv of
       None \<Rightarrow> ([], 255)
     | Some config \<Rightarrow>
         (case lm_config_path config of
            None \<Rightarrow> ([], 0)
          | Some client_list \<Rightarrow> start_clients working_dir shell client_list))"

section \<open>Collecting the logs\<close>

definition spirit_logs :: string where
  "spirit_logs = ''/tmp/spirit_logs/''"

definition log_file_of :: "string \<Rightarrow> string" where
  "log_file_of container_name = path_join spirit_logs (container_name @ ''.log'')"

definition log_cmd :: "string \<Rightarrow> string" where
  "log_cmd container_name =
    (if contains ''compress'' container_name
     then ''docker cp '' @ container_name @ '':/data/progress.log '' @ log_file_of container_name
     else ''docker logs '' @ container_name @ '' > '' @ log_file_of container_name)"

definition collect_cont_logs ::
  "string \<Rightarrow> (string \<Rightarrow> local_meta option) \<Rightarrow> bool \<Rightarrow> string list \<Rightarrow> command list \<times> int" where
  "collect_cont_logs working_dir load log_dir_exists argv =
    (case config_of_arg working_dir load argv of
       None \<Rightarrow> ([], 255)
     | Some config \<Rightarrow>
         (case lm_log_collect config of
            None \<Rightarrow> ([], 0)
          | Some container_list \<Rightarrow>
              if container_list = [] then ([], 0)
              else ((if log_dir_exists then [Shell (''rm -rf '' @ spirit_logs)] else []) @
                    [Shell (''mkdir -p '' @ spirit_logs)] @ map (Shell \<circ> log_cmd) container_list, 0)))"

section \<open>File names and latency logs\<close>

definition memcached_log_filename :: "string \<Rightarrow> string" where
  "memcached_log_filename app_id = ''spirit_mc_client_'' @ app_id @ ''.log''"

definition social_log_filename :: "string \<Rightarrow> string" where
  "social_log_filename app_id = ''spirit_social_net_'' @ app_id @ ''_client.log''"

definition stream_log_filename :: "string \<Rightarrow> string" where
  "stream_log_filename app_id = ''spirit_stream_'' @ app_id @ ''.log''"

definition dlrm_log_filename :: "string \<Rightarrow> string" where
  "dlrm_log_filename app_id = ''spirit_dlrm_inf_'' @ app_id @ ''.log''"

text \<open>A JSON document: an object with its \<open>cdf\<close> entry if it has one, or something else.\<close>

datatype latency_doc = Latency_Object "(rat \<times> rat) list option" | Other_Document

definition rstrip_char :: "char \<Rightarrow> string \<Rightarrow> string" where
  "rstrip_char c s = rev (dropWhile (\<lambda>x. x = c) (rev s))"

definition fix_brackets :: "string \<Rightarrow> string" where
  "fix_brackets content =
    (if count_list content (CHR ''['') \<noteq> count_list content (CHR '']'')
     then rstrip_char (CHR '','') (rstrip_char (CHR '']'') content) @ '']'' else content)"

text \<open>The document, \<open>None\<close> for a file that cannot be read or decoded.\<close>

definition parse_log_file_to_json :: "(string \<Rightarrow> latency_doc option) \<Rightarrow> string res \<Rightarrow> latency_doc option" where
  "parse_log_file_to_json loads content =
    (case content of Inl _ \<Rightarrow> None | Inr s \<Rightarrow> loads (fix_brackets s))"

text \<open>The latency branch of \<open>SocialNetworkLogParser.parse_log_file\<close>.\<close>

definition parse_latency_file :: "(string \<Rightarrow> latency_doc option) \<Rightarrow> rat \<Rightarrow> string res \<Rightarrow> stats" where
  "parse_latency_file loads percentile content =
    (case parse_log_file_to_json loads content of
       Some (Latency_Object cdf) \<Rightarrow> parse_social_latency percentile cdf
     | _ \<Rightarrow> no_stats)"

section \<open>The memory of all containers\<close>

definition letters :: string where
  "letters = ''ABCDEFGHIJKLMNOPQRSTUVWXYZabcdefghijklmnopqrstuvwxyz''"

text \<open>\<open>re.match(r"([0-9\.]+)([A-Za-z]+)", s).groups()\<close>; without a match there are no groups to read.\<close>

definition split_amount :: "string \<Rightarrow> (string \<times> string) res" where
  "split_amount s =
    (let num = takeWhile (in_class Digit_Or_Dot) s; letters_of = takeWhile (\<lambda>c. c \<in> set letters) (drop (length num) s) in
     if num = [] \<or> letters_of = [] then Inl AttributeError else Inr (num, letters_of))"

definition parse_memory_usage :: "string \<Rightarrow> rat res" where
  "parse_memory_usage mem_usage_str =
     rbind (split_amount mem_usage_str) (\<lambda>(mem_value, mem_unit).
     rbind (float_of_str mem_value) (\<lambda>v.
       if mem_unit = ''GiB'' then Inr (v * 1024)
       else if mem_unit = ''MiB'' then Inr v
       else if mem_unit = ''KiB'' then Inr (v / 1024)
       else Inl ValueError))"

text \<open>\<open>s.split()\<close>\<close>

function words :: "string \<Rightarrow> string list" where
  "words s =
    (let t = dropWhile is_space s in
     if t = [] then [] else takeWhile (\<lambda>c. \<not> is_space c) t # words (dropWhile (\<lambda>c. \<not> is_space c) t))"
  by pat_completeness auto

termination
proof (relation "measure length", goal_cases)
  case (2 s t)
  have "length t \<le> length s" using 2(1) by (simp add: length_dropWhile_le)
  moreover have "length (dropWhile (\<lambda>c. \<not> is_space c) t) < length t"
  proof (cases t)
    case (Cons c cs)
    have "\<not> is_space c" using 2(1) Cons hd_dropWhile [of is_space s] by (metis list.distinct(1) list.sel(1))
    then show ?thesis using Cons length_dropWhile_le [of "\<lambda>c. \<not> is_space c" cs] by simp
  qed (use 2(2) in simp)
  ultimately show ?case by simp
qed simp

declare words.simps [simp del]

definition add_usage :: "string \<Rightarrow> rat \<Rightarrow> rat res" where
  "add_usage line total_memory =
    (let columns = words line in
     if length columns \<ge> 6
     then
       (case parse_memory_usage (strip (hd (split_on ''/'' (columns ! 3)))) of
          Inr mem_usage_mib \<Rightarrow> Inr (total_memory + mem_usage_mib)
        | Inl e \<Rightarrow> if e = ValueError then Inr total_memory else Inl e)
     else Inr total_memory)"

text \<open>The lines that \<open>docker stats\<close> prints, with the header.\<close>

definition get_total_memory_usage :: "string list \<Rightarrow> rat res" where
  "get_total_memory_usage output = rfold add_usage (tl output) 0"

section \<open>The loggers do not disturb one another\<close>

datatype log_event = Prepare string | Write string string

fun log_step :: "log_event \<Rightarrow> log_dir option \<Rightarrow> log_dir option" where
  "log_step (Prepare name) dir = Some (prepare_logger name dir)"
| "log_step (Write name line) dir = (case dir of None \<Rightarrow> None | Some d \<Rightarrow> Some (log_line_to name line d))"

fun event_logger :: "log_event \<Rightarrow> string" where
  "event_logger (Prepare name) = name"
| "event_logger (Write name line) = name"

definition written :: "string \<Rightarrow> log_event list \<Rightarrow> string list" where
  "written name es = concat (map (\<lambda>e. case e of Write n line \<Rightarrow> if n = name then [line] else [] | Prepare _ \<Rightarrow> []) es)"

lemma map_of_filter_keys: "map_of (filter (\<lambda>(k, _). P k) d) k = (if P k then map_of d k else None)"
  by (induction d) auto

lemma map_of_open: "map_of (open_log file d) k = (if k = file \<and> map_of d k = None then Some [] else map_of d k)"
  by (auto simp: open_log_def split: option.splits)

lemma prepare_own: "map_of (prepare_logger n dir) (n @ ''.log'') = Some []"
  by (auto simp: prepare_logger_def map_of_open map_of_filter_keys starts_with_def split: option.splits)

text \<open>No logger's name is the beginning of another logger's file name.\<close>

lemma logger_names_apart:
  assumes "m \<in> set logger_names" and "n \<in> set logger_names" and "m \<noteq> n"
  shows "\<not> starts_with m (n @ ''.log'')" and "m @ ''.log'' \<noteq> n @ ''.log''"
  using assms by (auto simp: logger_names_def starts_with_def)

lemma log_step_other:
  assumes "event_logger e \<in> set logger_names" and "n \<in> set logger_names" and "e \<noteq> Prepare n"
  shows "\<exists>d'. log_step e (Some d) = Some d' \<and>
    (map_of d (n @ ''.log'') = Some ls \<longrightarrow> map_of d' (n @ ''.log'') = Some (ls @ written n [e]))"
proof (cases e)
  case (Prepare m)
  then show ?thesis using assms logger_names_apart [of m n]
    by (auto simp: prepare_logger_def map_of_open map_of_filter_keys written_def)
next
  case (Write m line)
  then show ?thesis using assms logger_names_apart [of m n] by (auto simp: log_line_to_def written_def)
qed

lemma written_Cons: "written n (e # es) = written n [e] @ written n es"
  by (simp add: written_def)

lemma log_steps_other:
  assumes "\<forall>e \<in> set es. event_logger e \<in> set logger_names \<and> e \<noteq> Prepare n" and "n \<in> set logger_names"
    and "map_of d (n @ ''.log'') = Some ls"
  shows "\<exists>d'. fold log_step es (Some d) = Some d' \<and> map_of d' (n @ ''.log'') = Some (ls @ written n es)"
  using assms(1,3)
proof (induction es arbitrary: d ls)
  case Nil
  then show ?case by (simp add: written_def)
next
  case (Cons e es)
  obtain d1 where "log_step e (Some d) = Some d1" "map_of d1 (n @ ''.log'') = Some (ls @ written n [e])"
    using log_step_other [of e n d ls] Cons.prems assms(2) by auto
  then show ?case using Cons.IH [of d1 "ls @ written n [e]"] Cons.prems(1) by (simp add: written_Cons [of n e es])
qed

text \<open>The deployer, the allocator and the monitor can keep their logs in one directory: after any sequence of
  preparations and messages of the three loggers, in any order, the log of each has exactly the lines that were
  written to it since it was last prepared, although preparing a logger removes every file whose name begins
  with the logger's name.\<close>

lemma logs_kept_apart:
  assumes "\<forall>e \<in> set (es @ es'). event_logger e \<in> set logger_names" and "n \<in> set logger_names" and "Prepare n \<notin> set es'"
  shows "\<exists>d. fold log_step (es @ Prepare n # es') dir = Some d \<and> map_of d (n @ ''.log'') = Some (written n es')"
proof -
  let ?dir = "fold log_step es dir"
  have "\<exists>d'. fold log_step es' (Some (prepare_logger n ?dir)) = Some d' \<and> map_of d' (n @ ''.log'') = Some ([] @ written n es')"
    using assms by (intro log_steps_other [OF _ assms(2) prepare_own]) auto
  then show ?thesis by simp
qed

text \<open>The loggers of workers do: each one removes the logs of all others.\<close>

lemma second_worker_removes_first:
  "a \<noteq> b \<Longrightarrow> map_of (initialize_logger b (Some (initialize_logger a dir))) (''worker_'' @ a @ ''.log'') = None"
  by (simp add: initialize_logger_def map_of_open map_of_filter_keys starts_with_def)

section \<open>Clients and their logs\<close>

text \<open>The clients are started one after the other up to the first one that fails.\<close>

lemma start_clients_code:
  "snd (start_clients wd shell cs) = (if list_all (\<lambda>(a, p). shell (docker_cmd p (mc_container a)) = 0) cs then 0 else 1)"
  by (induction cs) (simp_all add: Let_def split_def)

lemma start_clients_commands:
  "snd (start_clients wd shell cs) = 0 \<Longrightarrow>
   fst (start_clients wd shell cs) = concat (map (\<lambda>(a, p).
     [Chdir wd, Shell (cleanup_cmd (mc_container a)), Chdir (path_join wd ''../../''), Shell (docker_cmd p (mc_container a))]) cs)"
  by (induction cs) (auto simp: Let_def split: prod.splits if_splits)

lemma start_clients_fails:
  assumes "\<forall>(a, p) \<in> set cs. shell (docker_cmd p (mc_container a)) = 0" and "shell (docker_cmd p (mc_container a)) \<noteq> 0"
  shows "start_clients wd shell (cs @ (a, p) # cs') = start_clients wd shell (cs @ [(a, p)])"
  using assms by (induction cs) (auto simp: Let_def)

text \<open>The log of a client's container has the name that the parser asks for, and is parsed as a Memcached log
  wherever it is moved to.\<close>

lemma client_log_name: "log_file_of (mc_container a) = spirit_logs @ memcached_log_filename a"
  by (simp add: log_file_of_def mc_container_def memcached_log_filename_def path_join_def spirit_logs_def)

lemma client_log_parsed:
  "cont_stats (dir @ ''/'' @ memcached_log_filename a) latency content cdf = Some (parse_memcached latency content)"
  using contains_mid [of "''spirit_mc_client''" "dir @ ''/''" "''_'' @ a @ ''.log''"]
  by (simp add: cont_stats_def memcached_log_filename_def)

lemma collected_log_written:
  assumes "config_of_arg wd load argv = Some config" and "lm_log_collect config = Some names" and "mc_container a \<in> set names"
    and "\<not> contains ''compress'' (mc_container a)"
  shows "Shell (''docker logs '' @ mc_container a @ '' > '' @ spirit_logs @ memcached_log_filename a) \<in>
    set (fst (collect_cont_logs wd load e argv))"
proof -
  have "log_cmd (mc_container a) = ''docker logs '' @ mc_container a @ '' > '' @ spirit_logs @ memcached_log_filename a"
    using assms(4) by (simp add: log_cmd_def client_log_name)
  moreover have "Shell (log_cmd (mc_container a)) \<in> (Shell \<circ> log_cmd) ` set names" using assms(3) by simp
  ultimately show ?thesis using assms(1,2,3) by (auto simp: collect_cont_logs_def)
qed

section \<open>Repaired latency logs\<close>

text \<open>The repair of a latency log ends it with a bracket.  The text of a JSON object ends with a brace, so no
  repaired file is read as one and its latency is never found.\<close>

lemma repair_never_helps:
  assumes "\<And>s cdf. loads s = Some (Latency_Object cdf) \<Longrightarrow> strip s \<noteq> [] \<and> last (strip s) = CHR ''}''"
    and "count_list s (CHR ''['') \<noteq> count_list s (CHR '']'')"
  shows "parse_latency_file loads percentile (Inr s) = no_stats"
proof -
  obtain w where w: "fix_brackets s = w @ '']''" using assms(2) by (simp add: fix_brackets_def)
  have "\<exists>v. strip (w @ '']'') = v @ '']''"
  proof -
    have "\<exists>v. dropWhile is_space (w @ '']'') = v @ '']''" by (induction w) (auto simp: is_space_def)
    then obtain v where "dropWhile is_space (w @ '']'') = v @ '']''" by blast
    then show ?thesis by (simp add: strip_def is_space_def)
  qed
  then have "last (strip (w @ '']'')) = CHR '']''" by force
  then have "loads (w @ '']'') \<noteq> Some (Latency_Object cdf)" for cdf using assms(1) by force
  then show ?thesis
    by (auto simp: parse_latency_file_def parse_log_file_to_json_def w split: option.splits latency_doc.splits)
qed

section \<open>Adding up the memory\<close>

lemma words_spaces:
  assumes "\<forall>c \<in> set sp. is_space c"
  shows "words (sp @ s) = words s"
proof -
  have "dropWhile is_space (sp @ s) = dropWhile is_space s" using assms by (induction sp) auto
  then show ?thesis using words.simps [of "sp @ s"] words.simps [of s] by (simp add: Let_def)
qed

lemma words_word:
  assumes "w \<noteq> []" and "\<forall>c \<in> set w. \<not> is_space c" and "s = [] \<or> is_space (hd s)"
  shows "words (w @ s) = w # words s"
proof -
  have t: "dropWhile is_space (w @ s) = w @ s" using assms(1,2) by (cases w) auto
  moreover have "takeWhile (\<lambda>c. \<not> is_space c) (w @ s) = w" by (rule takeWhile_class [OF assms(2)]) (use assms(3) in auto)
  moreover have "dropWhile (\<lambda>c. \<not> is_space c) (w @ s) = s" using assms(2,3) by (cases s) (auto simp: dropWhile_append)
  ultimately show ?thesis using assms(1) words.simps [of "w @ s"] by (simp add: Let_def)
qed

text \<open>A line of the table: columns that have no spaces, each with at least one space after it.\<close>

definition table_line :: "(string \<times> nat) list \<Rightarrow> string" where
  "table_line cols = concat (map (\<lambda>(w, n). w @ replicate (Suc n) (CHR '' '')) cols)"

definition column_ok :: "string \<Rightarrow> bool" where
  "column_ok w \<longleftrightarrow> w \<noteq> [] \<and> (\<forall>c \<in> set w. \<not> is_space c)"

lemma words_table:
  assumes "\<forall>(w, n) \<in> set cols. column_ok w"
  shows "words (table_line cols) = map fst cols"
  using assms
proof (induction cols)
  case Nil
  then show ?case by (subst words.simps) (simp add: table_line_def)
next
  case (Cons e cols)
  obtain w n where e: "e = (w, n)" using prod.exhaust by blast
  have sp: "\<forall>c \<in> set (replicate (Suc n) (CHR '' '')). is_space c" by (simp add: is_space_def)
  have "words (w @ replicate (Suc n) (CHR '' '') @ table_line cols) = w # words (replicate (Suc n) (CHR '' '') @ table_line cols)"
    using Cons.prems e by (intro words_word) (auto simp: column_ok_def is_space_def)
  also have "words (replicate (Suc n) (CHR '' '') @ table_line cols) = words (table_line cols)" by (rule words_spaces [OF sp])
  finally show ?case using Cons e by (simp add: table_line_def)
qed

text \<open>An amount in one of the units, and its value in MiB.\<close>

definition unit_factor :: "string \<Rightarrow> rat option" where
  "unit_factor u = map_of [(''GiB'', 1024), (''MiB'', 1), (''KiB'', 1 / 1024)] u"

lemma parse_amount:
  assumes "decimal w" and "unit_factor u = Some f"
  shows "parse_memory_usage (w @ u) = Inr (decimal_value w * f)"
proof -
  have u: "u = ''GiB'' \<and> f = 1024 \<or> u = ''MiB'' \<and> f = 1 \<or> u = ''KiB'' \<and> f = 1 / 1024"
    using assms(2) by (auto simp: unit_factor_def split: if_splits)
  have w: "\<forall>c \<in> set w. in_class Digit_Or_Dot c" "w \<noteq> []" using assms(1) by (auto simp: decimal_def)
  have "takeWhile (in_class Digit_Or_Dot) (w @ u) = w" by (rule takeWhile_class [OF w(1)]) (use u in \<open>auto simp: digits_def\<close>)
  moreover have "takeWhile (\<lambda>c. c \<in> set letters) u = u" "u \<noteq> []" using u by (auto simp: letters_def)
  ultimately have "split_amount (w @ u) = Inr (w, u)" using w(2) by (simp add: split_amount_def Let_def del: takeWhile_eq_all_conv)
  then show ?thesis using u float_decimal [OF assms(1)] by (auto simp: parse_memory_usage_def)
qed

text \<open>A container's line has its memory in the fourth column.\<close>

definition stats_line :: "(string \<times> nat) list \<Rightarrow> string \<times> string \<times> nat \<Rightarrow> (string \<times> nat) list \<Rightarrow> string" where
  "stats_line before amount after = (case amount of (w, u, n) \<Rightarrow> table_line (before @ (w @ u, n) # after))"

definition stats_ok :: "(string \<times> nat) list \<times> (string \<times> string \<times> nat) \<times> (string \<times> nat) list \<Rightarrow> bool" where
  "stats_ok row =
    (case row of (before, (w, u, n), after) \<Rightarrow>
       length before = 3 \<and> length after \<ge> 2 \<and> (\<forall>(c, _) \<in> set (before @ after). column_ok c) \<and> decimal w \<and> unit_factor u \<noteq> None)"

definition row_mib :: "(string \<times> nat) list \<times> (string \<times> string \<times> nat) \<times> (string \<times> nat) list \<Rightarrow> rat" where
  "row_mib row = (case row of (_, (w, u, _), _) \<Rightarrow> decimal_value w * the (unit_factor u))"

lemma add_usage_line:
  assumes "stats_ok (before, (w, u, n), after)"
  shows "add_usage (stats_line before (w, u, n) after) total_memory = Inr (total_memory + row_mib (before, (w, u, n), after))"
proof -
  obtain f where f: "unit_factor u = Some f" using assms by (auto simp: stats_ok_def)
  have d: "decimal w" using assms by (simp add: stats_ok_def)
  have unit: "u = ''GiB'' \<or> u = ''MiB'' \<or> u = ''KiB''" using f by (auto simp: unit_factor_def split: if_splits)
  have "\<not> is_space c \<and> c \<noteq> CHR ''/''" if "in_class Digit_Or_Dot c" for c
    using that by (auto simp: is_space_def digits_def)
  then have plain: "\<forall>c \<in> set w. \<not> is_space c \<and> c \<noteq> CHR ''/''" "w \<noteq> []" using d unfolding decimal_def by blast+
  have upl: "\<forall>c \<in> set u. \<not> is_space c \<and> c \<noteq> CHR ''/''" using unit by (elim disjE) (simp_all add: is_space_def)
  have plain: "\<forall>c \<in> set (w @ u). \<not> is_space c \<and> c \<noteq> CHR ''/''" "w @ u \<noteq> []"
    using plain upl by auto
  have cols: "\<forall>(c, _) \<in> set (before @ (w @ u, n) # after). column_ok c"
    using assms plain by (simp add: stats_ok_def column_ok_def split_def)
  have words: "words (stats_line before (w, u, n) after) = map fst before @ (w @ u) # map fst after"
    unfolding stats_line_def prod.case words_table [OF cols] by simp
  have "CHR ''/'' \<notin> set (w @ u)" using plain(1) by blast
  then have strip: "strip (hd (split_on ''/'' (w @ u))) = w @ u"
    using plain split_on_miss [of 0 "''/''" "w @ u"] strip_plain [of "w @ u"] by simp
  have len: "length before = 3" "2 \<le> length after" using assms by (simp_all add: stats_ok_def)
  have "(map fst before @ (w @ u) # map fst after) ! 3 = w @ u" using len(1) by (simp add: nth_append)
  then show ?thesis unfolding add_usage_def words Let_def
    using len strip parse_amount [OF d f] f by (simp add: row_mib_def)
qed

text \<open>The total is the sum of the containers' memory in MiB.\<close>

lemma total_of_table:
  assumes "\<forall>row \<in> set rows. stats_ok row"
  shows "get_total_memory_usage (header # map (\<lambda>(b, m, a). stats_line b m a) rows) = Inr (\<Sum>row\<leftarrow>rows. row_mib row)"
proof -
  have "rfold add_usage (map (\<lambda>(b, m, a). stats_line b m a) rows) t = Inr (t + (\<Sum>row\<leftarrow>rows. row_mib row))" for t
    using assms by (induction rows arbitrary: t) (auto simp: add_usage_line)
  then show ?thesis by (simp add: get_total_memory_usage_def)
qed

text \<open>A column without a number makes the script stop with an exception that it does not catch.\<close>

lemma missing_amount_raises:
  assumes "words line ! 3 = ''--''" and "length (words line) \<ge> 6"
  shows "add_usage line total_memory = Inl AttributeError"
proof -
  have "split_on ''/'' ''--'' = [''--'']" using split_on_miss [of 0 "''/''" "''--''"] by simp
  moreover have "split_amount ''--'' = Inl AttributeError" by (simp add: split_amount_def Let_def digits_def)
  ultimately show ?thesis using assms
    by (simp add: add_usage_def Let_def parse_memory_usage_def strip_def is_space_def)
qed

end
