(* ===== verification/Raw_Data.thy ===== *)
theory Raw_Data
  imports Client_Logs
begin

text \<open>
  Data sets that are made from raw logs: the training data of \<open>src/res_allocation/estimators/data_loader.py\<close>, the metrics
  that \<open>parse_log_file_mainlog\<close> of \<open>utils/logtools.py\<close> extracts, and the averages that \<open>utils/plotting.py\<close> draws.  A line of
  a file is given as the value that \<open>json.loads\<close> or \<open>ast.literal_eval\<close> makes of it; drawing is left out.
\<close>

section \<open>Parsed values\<close>

datatype pyval = VNum rat | VBool bool | VObj "(string \<times> pyval) list" | VOther

text \<open>\<open>x[key]\<close> and \<open>x.get(key)\<close> with a string key; \<open>VOther\<close> are lists, strings and \<open>None\<close>.\<close>

definition subscript :: "pyval \<Rightarrow> string \<Rightarrow> pyval res" where
  "subscript x key =
    (case x of VObj d \<Rightarrow> (case map_of d key of None \<Rightarrow> Inl KeyError | Some v \<Rightarrow> Inr v) | _ \<Rightarrow> Inl TypeError)"

definition is_zero :: "pyval \<Rightarrow> bool" where
  "is_zero x = (case x of VNum q \<Rightarrow> q = 0 | VBool b \<Rightarrow> \<not> b | _ \<Rightarrow> False)"

text \<open>\<open>xs[i]\<close>\<close>

definition list_at :: "'a list \<Rightarrow> nat \<Rightarrow> 'a res" where
  "list_at xs i = (if i < length xs then Inr (xs ! i) else Inl IndexError)"

section \<open>Training data\<close>

record data_point =
  dp_cache_in_mb :: int
  dp_bw_in_gbps :: rat
  dp_performance :: "pyval"

text \<open>A line is the result of decoding it.  \<open>to_float\<close> is Python's \<open>float\<close> of a string.\<close>

definition data_point_of :: "(string \<Rightarrow> rat res) \<Rightarrow> string \<Rightarrow> string \<Rightarrow> string \<Rightarrow> pyval res \<Rightarrow> data_point list res" where
  "data_point_of to_float cache_size bandwidth user_id line =
     rbind line (\<lambda>data.
     rbind (subscript data ''map'') (\<lambda>m.
     rbind (subscript m ''0'') (\<lambda>vm.
     rbind (subscript vm user_id) (\<lambda>app.
     rbind (subscript app ''access_rate_ops_sec'') (\<lambda>access_rate.
       if is_zero access_rate then Inr []
       else
         rbind (int_of_str cache_size) (\<lambda>c.
         rbind (to_float bandwidth) (\<lambda>b.
         Inr [\<lparr>dp_cache_in_mb = c, dp_bw_in_gbps = b / 1024, dp_performance = access_rate\<rparr>])))))))"

definition data_file ::
  "(string \<Rightarrow> rat res) \<Rightarrow> string \<Rightarrow> string \<Rightarrow> string \<Rightarrow> pyval res list \<Rightarrow> data_point list res" where
  "data_file to_float cache_size bandwidth user_id lines =
     rfold (\<lambda>line data_points.
       case data_point_of to_float cache_size bandwidth user_id line of
         Inr ps \<Rightarrow> Inr (data_points @ ps)
       | Inl e \<Rightarrow> if e = KeyError \<or> e = ValueError then Inr data_points else Inl e) lines []"

definition collect_file ::
  "(string \<Rightarrow> rat res) \<Rightarrow> string \<Rightarrow> (string \<Rightarrow> pyval res list) \<Rightarrow> string \<Rightarrow> data_point list \<Rightarrow> data_point list res" where
  "collect_file to_float user_id content file_name all_data_points =
    (if \<not> starts_with ''c_'' file_name \<or> \<not> ends_with ''.log'' file_name then Inr all_data_points
     else
       let parts = split_on ''_'' file_name in
       rbind (list_at parts 1) (\<lambda>cache_size.
       rbind (list_at parts 3) (\<lambda>last_part.
       rbind (data_file to_float cache_size (hd (split_on ''.'' last_part)) user_id (content file_name)) (\<lambda>data_points.
       Inr (all_data_points @ data_points)))))"

definition collect_data ::
  "(string \<Rightarrow> rat res) \<Rightarrow> string \<Rightarrow> (string \<Rightarrow> pyval res list) \<Rightarrow> string list \<Rightarrow> data_point list res" where
  "collect_data to_float user_id content listing = rfold (collect_file to_float user_id content) listing []"

section \<open>Metrics of the main log\<close>

text \<open>A row: its index, the user, the metrics (\<open>None\<close> where there is none), and the file.\<close>

type_synonym metric_row = "nat \<times> pyval \<times> pyval option list \<times> nat"

record mainlog =
  ml_data :: "metric_row list"
  ml_total :: rat
  ml_idx :: nat

definition get_items :: "pyval \<Rightarrow> (string \<times> pyval) list res" where
  "get_items x = (case x of VObj d \<Rightarrow> Inr d | _ \<Rightarrow> Inl AttributeError)"

definition amount_of :: "pyval option \<Rightarrow> rat res" where
  "amount_of x =
    (case x of None \<Rightarrow> Inr 0 | Some (VNum q) \<Rightarrow> Inr q | Some (VBool b) \<Rightarrow> Inr (if b then 1 else 0) | Some _ \<Rightarrow> Inl TypeError)"

definition enough :: "rat \<Rightarrow> mainlog \<Rightarrow> bool" where
  "enough target_reqs s \<longleftrightarrow> target_reqs > 0 \<and> ml_total s \<ge> target_reqs"

text \<open>One application of a line: the state, and whether an exception ends the line.\<close>

definition mainlog_app :: "nat \<Rightarrow> string list \<Rightarrow> pyval \<Rightarrow> mainlog \<Rightarrow> mainlog \<times> bool" where
  "mainlog_app file_id metrics metrics_data s =
    (case subscript metrics_data ''app_id'' of
       Inl _ \<Rightarrow> (s, True)
     | Inr user_id \<Rightarrow>
         (case get_items metrics_data of
            Inl _ \<Rightarrow> (s, True)
          | Inr d \<Rightarrow>
              let s1 = s\<lparr>ml_data := ml_data s @ [(ml_idx s, user_id, map (map_of d) metrics, file_id)]\<rparr> in
              (case amount_of (map_of d ''access_rate_ops_sec'') of
                 Inl _ \<Rightarrow> (s1, True)
               | Inr n \<Rightarrow> (s1\<lparr>ml_total := ml_total s1 + n\<rparr>, False))))"

fun mainlog_apps :: "rat \<Rightarrow> nat \<Rightarrow> string list \<Rightarrow> (string \<times> pyval) list \<Rightarrow> mainlog \<Rightarrow> mainlog \<times> bool" where
  "mainlog_apps target_reqs file_id metrics [] s = (s, False)"
| "mainlog_apps target_reqs file_id metrics ((app_id, metrics_data) # apps) s =
    (case mainlog_app file_id metrics metrics_data s of (s1, raised) \<Rightarrow>
       if raised \<or> enough target_reqs s1 then (s1, raised) else mainlog_apps target_reqs file_id metrics apps s1)"

fun mainlog_vms :: "rat \<Rightarrow> nat \<Rightarrow> string list \<Rightarrow> (string \<times> pyval) list \<Rightarrow> mainlog \<Rightarrow> mainlog \<times> bool" where
  "mainlog_vms target_reqs file_id metrics [] s = (s, False)"
| "mainlog_vms target_reqs file_id metrics ((vm_id, app_data) # vms) s =
    (case get_items app_data of
       Inl _ \<Rightarrow> (s, True)
     | Inr apps \<Rightarrow>
         (case mainlog_apps target_reqs file_id metrics apps s of (s1, raised) \<Rightarrow>
            if raised then (s1, True)
            else
              let s2 = s1\<lparr>ml_idx := ml_idx s1 + 1\<rparr> in
              if enough target_reqs s2 then (s2, False) else mainlog_vms target_reqs file_id metrics vms s2))"

text \<open>A line: the state, and whether the loop over the lines ends.\<close>

definition mainlog_line :: "rat \<Rightarrow> nat \<Rightarrow> string list \<Rightarrow> pyval res \<Rightarrow> mainlog \<Rightarrow> mainlog \<times> bool" where
  "mainlog_line target_reqs file_id metrics line s =
    (case rbind line get_items of
       Inl _ \<Rightarrow> (s, False)
     | Inr log_data \<Rightarrow>
         (case get_items (case map_of log_data ''map'' of None \<Rightarrow> VObj [] | Some m \<Rightarrow> m) of
            Inl _ \<Rightarrow> (s, False)
          | Inr vms \<Rightarrow>
              (case mainlog_vms target_reqs file_id metrics vms s of (s1, raised) \<Rightarrow>
                 (s1, \<not> raised \<and> enough target_reqs s1))))"

fun mainlog_lines :: "rat \<Rightarrow> nat \<Rightarrow> string list \<Rightarrow> pyval res list \<Rightarrow> mainlog \<Rightarrow> mainlog" where
  "mainlog_lines target_reqs file_id metrics [] s = s"
| "mainlog_lines target_reqs file_id metrics (line # lines) s =
    (case mainlog_line target_reqs file_id metrics line s of (s1, stop) \<Rightarrow>
       if stop then s1 else mainlog_lines target_reqs file_id metrics lines s1)"

definition parse_log_file_mainlog :: "rat \<Rightarrow> nat \<Rightarrow> string list \<Rightarrow> pyval res list \<Rightarrow> metric_row list" where
  "parse_log_file_mainlog target_reqs file_id metrics lines =
     ml_data (mainlog_lines target_reqs file_id metrics lines \<lparr>ml_data = [], ml_total = 0, ml_idx = 0\<rparr>)"

section \<open>Averages for the plots\<close>

text \<open>The values of each pair of cache and bandwidth, without those that are too small.\<close>

definition group_point :: "rat list \<Rightarrow> nat \<times> rat \<times> rat \<Rightarrow> (rat \<times> rat, rat list) dict \<Rightarrow> (rat \<times> rat, rat list) dict res" where
  "group_point y_truth entry data_dict =
    (case entry of (i, key) \<Rightarrow>
       let data_dict1 = (case map_of data_dict key of None \<Rightarrow> dict_set key [] data_dict | Some _ \<Rightarrow> data_dict) in
       rbind (list_at y_truth i) (\<lambda>y.
       Inr (if y > 1 / 10000 then dict_set key (the (map_of data_dict1 key) @ [y]) data_dict1 else data_dict1)))"

definition group_points :: "(rat \<times> rat) list \<Rightarrow> rat list \<Rightarrow> (rat \<times> rat, rat list) dict res" where
  "group_points X_new y_truth = rfold (group_point y_truth) (enumerate 0 X_new) []"

text \<open>The points that are drawn with their means; the mean of no values is \<open>nan\<close>, here \<open>None\<close>.
  Without points the array has no columns to take.\<close>

definition average_points :: "(rat \<times> rat) list \<Rightarrow> rat list \<Rightarrow> ((rat \<times> rat) \<times> rat option) list res" where
  "average_points X_new y_truth =
     rbind (group_points X_new y_truth) (\<lambda>data_dict.
       if data_dict = [] then Inl IndexError
       else Inr (map (\<lambda>(key, ys). (key, if ys = [] then None else Some (mean_perf ys))) data_dict))"

text \<open>The frames of the animation, and the first one, which is shown at the start.\<close>

definition animation_frames ::
  "((rat \<times> rat) list \<times> rat list) list \<Rightarrow>
   (((rat \<times> rat) \<times> rat option) list list \<times> ((rat \<times> rat) \<times> rat option) list) res" where
  "animation_frames data_over_time =
     rbind (rfold (\<lambda>(X_new, y_truth) frames. rbind (average_points X_new y_truth) (\<lambda>f. Inr (frames @ [f]))) data_over_time []) (\<lambda>frames.
     rbind (list_at frames 0) (\<lambda>initial_trace. Inr (frames, initial_trace)))"

section \<open>What the training data are\<close>

datatype dir_item = Data_File nat string nat | Other_File string

fun item_name :: "dir_item \<Rightarrow> string" where
  "item_name (Data_File c tag b) = ''c_'' @ str_of_nat c @ ''_'' @ tag @ ''_'' @ str_of_nat b @ ''.log''"
| "item_name (Other_File f) = f"

text \<open>The access rate that a line has for a user in the first VM.\<close>

definition rate_of :: "string \<Rightarrow> pyval res \<Rightarrow> pyval res" where
  "rate_of user_id line =
     rbind line (\<lambda>data. rbind (subscript data ''map'') (\<lambda>m. rbind (subscript m ''0'') (\<lambda>vm.
     rbind (subscript vm user_id) (\<lambda>app. subscript app ''access_rate_ops_sec''))))"

definition rates :: "string \<Rightarrow> pyval res list \<Rightarrow> rat list" where
  "rates user_id lines =
     concat (map (\<lambda>line. case rate_of user_id line of Inr (VNum q) \<Rightarrow> if q = 0 then [] else [q] | _ \<Rightarrow> []) lines)"

text \<open>A line that can be decoded has numbers as rates; other lines and lines without the user are possible.\<close>

definition line_ok :: "string \<Rightarrow> pyval res \<Rightarrow> bool" where
  "line_ok user_id line =
    (case rate_of user_id line of Inr (VNum q) \<Rightarrow> True | Inl e \<Rightarrow> e = KeyError \<or> e = ValueError | _ \<Rightarrow> False)"

fun dir_item_ok :: "string \<Rightarrow> (string \<Rightarrow> pyval res list) \<Rightarrow> dir_item \<Rightarrow> bool" where
  "dir_item_ok user_id content (Data_File c tag b) \<longleftrightarrow>
     CHR ''_'' \<notin> set tag \<and> (\<forall>line \<in> set (content (item_name (Data_File c tag b))). line_ok user_id line)"
| "dir_item_ok user_id content (Other_File f) \<longleftrightarrow> \<not> starts_with ''c_'' f \<or> \<not> ends_with ''.log'' f"

fun points_of :: "string \<Rightarrow> (string \<Rightarrow> pyval res list) \<Rightarrow> dir_item \<Rightarrow> data_point list" where
  "points_of user_id content (Data_File c tag b) =
     map (\<lambda>q. \<lparr>dp_cache_in_mb = int c, dp_bw_in_gbps = of_nat b / 1024, dp_performance = VNum q\<rparr>)
       (rates user_id (content (item_name (Data_File c tag b))))"
| "points_of user_id content (Other_File f) = []"

lemma data_point_rate:
  "data_point_of to_float cs bw user_id line =
     rbind (rate_of user_id line) (\<lambda>r. if is_zero r then Inr [] else
       rbind (int_of_str cs) (\<lambda>c. rbind (to_float bw) (\<lambda>b. Inr [\<lparr>dp_cache_in_mb = c, dp_bw_in_gbps = b / 1024, dp_performance = r\<rparr>])))"
  by (simp add: data_point_of_def rate_of_def rbind_assoc)

lemma data_file_points:
  assumes "int_of_str cs = Inr c" and "to_float bw = Inr b" and "\<forall>line \<in> set lines. line_ok user_id line"
  shows "data_file to_float cs bw user_id lines =
    Inr (map (\<lambda>q. \<lparr>dp_cache_in_mb = c, dp_bw_in_gbps = b / 1024, dp_performance = VNum q\<rparr>) (rates user_id lines))"
proof -
  let ?point = "\<lambda>q. \<lparr>dp_cache_in_mb = c, dp_bw_in_gbps = b / 1024, dp_performance = VNum q\<rparr>"
  have "rfold (\<lambda>line data_points. case data_point_of to_float cs bw user_id line of
          Inr ps \<Rightarrow> Inr (data_points @ ps)
        | Inl e \<Rightarrow> if e = KeyError \<or> e = ValueError then Inr data_points else Inl e) lines acc =
      Inr (acc @ map ?point (rates user_id lines))" for acc
    using assms(3)
  proof (induction lines arbitrary: acc)
    case (Cons line lines)
    then have "line_ok user_id line" by simp
    then have "(case data_point_of to_float cs bw user_id line of
          Inr ps \<Rightarrow> Inr (acc @ ps) | Inl e \<Rightarrow> if e = KeyError \<or> e = ValueError then Inr acc else Inl e) =
        Inr (acc @ map ?point (rates user_id [line]))"
    proof -
      consider q where "rate_of user_id line = Inr (VNum q)" | e where "rate_of user_id line = Inl e" "e = KeyError \<or> e = ValueError"
        using \<open>line_ok user_id line\<close> unfolding line_ok_def by (auto split: sum.splits pyval.splits)
      then show ?thesis
        using assms(1,2) by cases (simp_all add: data_point_rate rates_def is_zero_def)
    qed
    moreover have "rates user_id (line # lines) = rates user_id [line] @ rates user_id lines" by (simp add: rates_def)
    ultimately show ?case using Cons by simp
  qed (simp add: rates_def)
  then show ?thesis by (simp add: data_file_def)
qed

lemma number_chars: "CHR ''_'' \<notin> set (str_of_nat n)" "CHR ''.'' \<notin> set (str_of_nat n)"
proof -
  show "CHR ''_'' \<notin> set (str_of_nat n)" using str_of_nat_plain [of n] by blast
  have "CHR ''.'' \<notin> set digits" by (simp add: digits_def)
  then show "CHR ''.'' \<notin> set (str_of_nat n)" using str_of_nat_digits [of n] by blast
qed

lemma bandwidth_part: "hd (split_on ''.'' (str_of_nat b @ ''.log'')) = str_of_nat b"
  using split_on_hit [of 0 "''.''" "str_of_nat b" "''log''"] number_chars(2) [of b] by simp

lemma ends_with_append: "ends_with w (s @ w)"
  by (simp add: ends_with_def)

lemma data_name_parts:
  assumes "CHR ''_'' \<notin> set tag"
  shows "split_on ''_'' (item_name (Data_File c tag b)) = [''c'', str_of_nat c, tag, str_of_nat b @ ''.log'']"
    and "starts_with ''c_'' (item_name (Data_File c tag b))" and "ends_with ''.log'' (item_name (Data_File c tag b))"
proof -
  have miss: "split_on ''_'' s = [s]" if "CHR ''_'' \<notin> set s" for s using that split_on_miss [of 0 "''_''" s] by simp
  have last: "CHR ''_'' \<notin> set (str_of_nat b @ ''.log'')" using number_chars(1) [of b] by simp
  have "split_on ''_'' (''c'' @ ''_'' @ str_of_nat c @ ''_'' @ tag @ ''_'' @ (str_of_nat b @ ''.log'')) =
      split_on ''_'' ''c'' @ split_on ''_'' (str_of_nat c) @ split_on ''_'' tag @ split_on ''_'' (str_of_nat b @ ''.log'')"
    by (simp only: split_on_char)
  also have "\<dots> = [''c'', str_of_nat c, tag, str_of_nat b @ ''.log'']"
    unfolding miss [OF last] miss [OF assms] miss [OF number_chars(1)] using miss [of "''c''"] by simp
  finally show "split_on ''_'' (item_name (Data_File c tag b)) = [''c'', str_of_nat c, tag, str_of_nat b @ ''.log'']" by simp
  show "starts_with ''c_'' (item_name (Data_File c tag b))" by (simp add: starts_with_def)
  show "ends_with ''.log'' (item_name (Data_File c tag b))"
    using ends_with_append [of "''.log''" "''c_'' @ str_of_nat c @ ''_'' @ tag @ ''_'' @ str_of_nat b"] by simp
qed

lemma collect_item:
  assumes "dir_item_ok user_id content i" and "\<And>n. to_float (str_of_nat n) = Inr (of_nat n)"
  shows "collect_file to_float user_id content (item_name i) acc = Inr (acc @ points_of user_id content i)"
proof (cases i)
  case (Data_File c tag b)
  have "int_of_str (str_of_nat c) = Inr (int c)" using int_of_str_of_int [of "int c"] by (simp add: str_of_int_def)
  note points = data_file_points [where to_float = to_float and bw = "str_of_nat b" and lines = "content (item_name i)" and user_id = user_id,
      OF this assms(2)]
  have "data_file to_float (str_of_nat c) (str_of_nat b) user_id (content (item_name i)) = Inr (points_of user_id content i)"
    using points assms(1) Data_File by simp
  then show ?thesis using data_name_parts [of tag c b] bandwidth_part [of b] assms(1) Data_File
    by (simp add: collect_file_def Let_def list_at_def del: item_name.simps)
qed (use assms(1) in \<open>auto simp: collect_file_def\<close>)


definition rate_doc :: "rat \<Rightarrow> pyval res" where
  "rate_doc q = Inr (VObj [(''map'', VObj [(''0'', VObj [(''1'', VObj [(''access_rate_ops_sec'', VNum q)])])])])"

definition decimal_float :: "string \<Rightarrow> rat res" where
  "decimal_float s = rbind (int_of_str s) (\<lambda>n. Inr (of_int n))"


section \<open>What the plots show\<close>

text \<open>The values of a pair that are not too small.\<close>

definition values_at :: "(rat \<times> rat) list \<Rightarrow> rat list \<Rightarrow> rat \<times> rat \<Rightarrow> rat list" where
  "values_at X ys key = map snd (filter (\<lambda>(x, y). x = key \<and> y > 1 / 10000) (zip X ys))"

lemma values_at_absent: "key \<notin> set X \<Longrightarrow> values_at X ys key = []"
  by (auto simp: values_at_def filter_empty_conv dest: set_zip_leftD)

lemma values_at_snoc:
  assumes "length X < length ys"
  shows "values_at (X @ [x]) ys key = values_at X ys key @ (if x = key \<and> ys ! length X > 1 / 10000 then [ys ! length X] else [])"
proof -
  have "drop (length X) ys = ys ! length X # drop (Suc (length X)) ys" using assms by (simp add: Cons_nth_drop_Suc)
  then have "zip (X @ [x]) ys = zip X (take (length X) ys) @ [(x, ys ! length X)]" by (simp add: zip_append1)
  moreover have "zip X (take (length X) ys) = zip X ys" using assms by (intro nth_equalityI) auto
  ultimately show ?thesis by (simp add: values_at_def)
qed

text \<open>Every pair of cache and bandwidth is drawn once, with the values of its own that are not too small.\<close>

lemma group_points_result:
  assumes "length X_new \<le> length y_truth"
  shows "\<exists>d. group_points X_new y_truth = Inr d \<and> wf_dict d \<and>
    map_of d = (\<lambda>key. if key \<in> set X_new then Some (values_at X_new y_truth key) else None)"
  using assms
proof (induction X_new rule: rev_induct)
  case Nil
  then show ?case by (simp add: group_points_def)
next
  case (snoc x X)
  obtain d where d: "group_points X y_truth = Inr d" "wf_dict d"
    "map_of d = (\<lambda>key. if key \<in> set X then Some (values_at X y_truth key) else None)" using snoc by auto
  define d1 where "d1 = (case map_of d x of None \<Rightarrow> dict_set x [] d | Some _ \<Rightarrow> d)"
  define y where "y = y_truth ! length X"
  have len: "length X < length y_truth" using snoc.prems by simp
  have d1: "map_of d1 = (\<lambda>key. if key \<in> set (X @ [x]) then Some (values_at X y_truth key) else None)" "wf_dict d1"
  proof -
    show "map_of d1 = (\<lambda>key. if key \<in> set (X @ [x]) then Some (values_at X y_truth key) else None)"
    proof
      show "map_of d1 key = (if key \<in> set (X @ [x]) then Some (values_at X y_truth key) else None)" for key
        by (cases "x \<in> set X") (simp_all add: d1_def d(3) values_at_absent)
    qed
    show "wf_dict d1" using d(2) by (cases "x \<in> set X") (simp_all add: d1_def d(3))
  qed
  have g: "group_points (X @ [x]) y_truth = Inr (if y > 1 / 10000 then dict_set x (values_at X y_truth x @ [y]) d1 else d1)"
    using d(1) len d1(1)
    by (simp add: group_points_def enumerate_append_eq rfold_append group_point_def list_at_def Let_def d1_def [symmetric] y_def)
  define d2 where "d2 = (if y > 1 / 10000 then dict_set x (values_at X y_truth x @ [y]) d1 else d1)"
  have "map_of d2 key = (if key \<in> set (X @ [x]) then Some (values_at (X @ [x]) y_truth key) else None)" for key
    by (cases "key = x") (simp_all add: d2_def d1(1) values_at_snoc [OF len] y_def)
  moreover have "wf_dict d2" using d1(2) by (simp add: d2_def)
  ultimately show ?case unfolding g d2_def [symmetric] by blast
qed

text \<open>A pair whose values are all too small is drawn with the mean of no values, which is \<open>nan\<close>.\<close>

lemma average_of_small_values:
  assumes "length X_new \<le> length y_truth" and "\<forall>y \<in> set y_truth. y \<le> 1 / 10000" and "X_new \<noteq> []"
  shows "\<exists>ps. average_points X_new y_truth = Inr ps \<and> ps \<noteq> [] \<and> (\<forall>(key, avg) \<in> set ps. avg = None)"
proof -
  obtain d where d: "group_points X_new y_truth = Inr d" "wf_dict d"
    "map_of d = (\<lambda>key. if key \<in> set X_new then Some (values_at X_new y_truth key) else None)"
    using group_points_result [OF assms(1)] by blast
  have none: "values_at X_new y_truth key = []" for key
    using assms(2) by (force simp: values_at_def filter_empty_conv dest: set_zip_rightD)
  have "ys = []" if "(key, ys) \<in> set d" for key ys
  proof -
    have "map_of d key = Some ys" using that d(2) by simp
    then show ?thesis unfolding d(3) using none by (auto split: if_splits)
  qed
  moreover have "d \<noteq> []"
  proof
    assume "d = []"
    then have "hd X_new \<notin> set X_new" using fun_cong [OF d(3), of "hd X_new"] by (simp split: if_splits)
    then show False using assms(3) by simp
  qed
  ultimately show ?thesis using d(1) by (auto simp: average_points_def)
qed

section \<open>What the main log gives\<close>

text \<open>An application's entry that can be used, and its rate.\<close>

definition entry_ok :: "(string \<times> pyval) list \<Rightarrow> bool" where
  "entry_ok d \<longleftrightarrow> map_of d ''app_id'' \<noteq> None \<and> (\<exists>n. amount_of (map_of d ''access_rate_ops_sec'') = Inr n)"

definition entry_rate :: "(string \<times> pyval) list \<Rightarrow> rat" where
  "entry_rate d = projr (amount_of (map_of d ''access_rate_ops_sec''))"

definition metric_row_of :: "nat \<Rightarrow> string list \<Rightarrow> nat \<times> (string \<times> pyval) list \<Rightarrow> metric_row" where
  "metric_row_of file_id metrics e = (case e of (i, d) \<Rightarrow> (i, the (map_of d ''app_id''), map (map_of d) metrics, file_id))"

text \<open>The entries up to the one at which the sum of the rates reaches the target.\<close>

fun until_target :: "rat \<Rightarrow> rat \<Rightarrow> (nat \<times> (string \<times> pyval) list) list \<Rightarrow> (nat \<times> (string \<times> pyval) list) list" where
  "until_target target so_far [] = []"
| "until_target target so_far (e # es) =
     e # (if target > 0 \<and> so_far + entry_rate (snd e) \<ge> target then [] else until_target target (so_far + entry_rate (snd e)) es)"

abbreviation sum_rates :: "(nat \<times> (string \<times> pyval) list) list \<Rightarrow> rat" where
  "sum_rates es \<equiv> (\<Sum>e\<leftarrow>es. entry_rate (snd e))"

lemma until_target_append:
  assumes "\<not> (target > 0 \<and> s \<ge> target)"
  shows "until_target target s (xs @ ys) = until_target target s xs @
    (if target > 0 \<and> s + sum_rates (until_target target s xs) \<ge> target then []
     else until_target target (s + sum_rates (until_target target s xs)) ys)"
  using assms by (induction xs arbitrary: s) (auto simp: add.assoc)

text \<open>The state after the entries \<open>es\<close>.\<close>

definition logged_upto :: "rat \<Rightarrow> nat \<Rightarrow> string list \<Rightarrow> (nat \<times> (string \<times> pyval) list) list \<Rightarrow> mainlog \<Rightarrow> mainlog" where
  "logged_upto target file_id metrics es s =
    (let taken = until_target target (ml_total s) es in
     s\<lparr>ml_data := ml_data s @ map (metric_row_of file_id metrics) taken, ml_total := ml_total s + sum_rates taken\<rparr>)"

lemma logged_upto_append:
  assumes "\<not> enough target s"
  shows "logged_upto target file_id metrics (xs @ ys) s =
    (let s1 = logged_upto target file_id metrics xs s in
     if enough target s1 then s1 else logged_upto target file_id metrics ys s1)"
  using assms until_target_append [of target "ml_total s" xs ys]
  by (simp add: logged_upto_def enough_def Let_def add.assoc)

lemma mainlog_app_ok:
  assumes "entry_ok d"
  shows "mainlog_app file_id metrics (VObj d) s =
    (s\<lparr>ml_data := ml_data s @ [metric_row_of file_id metrics (ml_idx s, d)], ml_total := ml_total s + entry_rate d\<rparr>, False)"
  using assms by (auto simp: entry_ok_def mainlog_app_def subscript_def get_items_def metric_row_of_def entry_rate_def Let_def)

lemma mainlog_apps_ok:
  assumes "\<forall>(a, d) \<in> set apps. entry_ok d" and "\<not> enough target s"
  shows "mainlog_apps target file_id metrics (map (\<lambda>(a, d). (a, VObj d)) apps) s =
    (logged_upto target file_id metrics (map (\<lambda>(a, d). (ml_idx s, d)) apps) s, False)"
  using assms
proof (induction apps arbitrary: s)
  case (Cons e apps)
  obtain a d where e: "e = (a, d)" using prod.exhaust by blast
  let ?s1 = "s\<lparr>ml_data := ml_data s @ [metric_row_of file_id metrics (ml_idx s, d)], ml_total := ml_total s + entry_rate d\<rparr>"
  have ok: "mainlog_app file_id metrics (VObj d) s = (?s1, False)" using Cons.prems e by (intro mainlog_app_ok) simp
  have IH: "\<not> enough target ?s1 \<Longrightarrow> mainlog_apps target file_id metrics (map (\<lambda>(a, d). (a, VObj d)) apps) ?s1 =
      (logged_upto target file_id metrics (map (\<lambda>(a, d). (ml_idx s, d)) apps) ?s1, False)" using Cons.IH [of ?s1] Cons.prems(1) by simp
  show ?case using ok IH by (auto simp: e logged_upto_def enough_def Let_def add.assoc)
qed (simp add: logged_upto_def)

text \<open>The entries of the VMs of a line, with the index that they get, and the entries of all lines.\<close>

fun indexed :: "nat \<Rightarrow> (string \<times> (string \<times> (string \<times> pyval) list) list) list \<Rightarrow> (nat \<times> (string \<times> pyval) list) list" where
  "indexed i [] = []"
| "indexed i ((vm, apps) # vms) = map (\<lambda>(a, d). (i, d)) apps @ indexed (Suc i) vms"

definition vm_values :: "(string \<times> (string \<times> (string \<times> pyval) list) list) list \<Rightarrow> (string \<times> pyval) list" where
  "vm_values vms = map (\<lambda>(vm, apps). (vm, VObj (map (\<lambda>(a, d). (a, VObj d)) apps))) vms"

lemma logged_upto_idx: "ml_idx (logged_upto target file_id metrics es s) = ml_idx s"
  by (simp add: logged_upto_def Let_def)

lemma logged_upto_set_idx:
  "logged_upto target file_id metrics es (s\<lparr>ml_idx := i\<rparr>) = (logged_upto target file_id metrics es s)\<lparr>ml_idx := i\<rparr>"
  by (simp add: logged_upto_def Let_def)

lemma enough_idx: "enough target (s\<lparr>ml_idx := i\<rparr>) = enough target s"
  by (simp add: enough_def)

lemma mainlog_vms_ok:
  assumes "\<forall>(vm, apps) \<in> set vms. \<forall>(a, d) \<in> set apps. entry_ok d" and "\<not> enough target s"
  shows "\<exists>i. mainlog_vms target file_id metrics (vm_values vms) s =
      ((logged_upto target file_id metrics (indexed (ml_idx s) vms) s)\<lparr>ml_idx := i\<rparr>, False) \<and>
    (\<not> enough target (logged_upto target file_id metrics (indexed (ml_idx s) vms) s) \<longrightarrow> i = ml_idx s + length vms)"
  using assms
proof (induction vms arbitrary: s)
  case (Cons e vms)
  obtain vm apps where e: "e = (vm, apps)" using prod.exhaust by blast
  let ?es = "map (\<lambda>(a, d). (ml_idx s, d)) apps"
  define s1 where "s1 = logged_upto target file_id metrics ?es s"
  let ?s2 = "s1\<lparr>ml_idx := Suc (ml_idx s)\<rparr>"
  have apps: "mainlog_apps target file_id metrics (map (\<lambda>(a, d). (a, VObj d)) apps) s = (s1, False)"
    unfolding s1_def using Cons.prems e by (intro mainlog_apps_ok) auto
  have idx: "ml_idx s1 = ml_idx s" by (simp add: s1_def logged_upto_idx)
  have run: "mainlog_vms target file_id metrics (vm_values (e # vms)) s =
      (if enough target s1 then (?s2, False) else mainlog_vms target file_id metrics (vm_values vms) ?s2)"
    using apps idx by (simp add: vm_values_def e get_items_def Let_def enough_idx)
  have split: "logged_upto target file_id metrics (indexed (ml_idx s) (e # vms)) s =
      (if enough target s1 then s1 else logged_upto target file_id metrics (indexed (Suc (ml_idx s)) vms) s1)"
    using logged_upto_append [OF Cons.prems(2), of file_id metrics ?es "indexed (Suc (ml_idx s)) vms"] by (simp add: e s1_def Let_def)
  show ?case
  proof (cases "enough target s1")
    case True
    then show ?thesis unfolding run split by (intro exI [of _ "Suc (ml_idx s)"]) simp
  next
    case False
    then show ?thesis using Cons.IH [of ?s2] Cons.prems(1) unfolding run split by (auto simp: enough_idx logged_upto_set_idx)
  qed
qed (auto simp: vm_values_def logged_upto_def intro: exI [of _ "ml_idx s" for s])

datatype main_line = Status "(string \<times> (string \<times> (string \<times> pyval) list) list) list" | Noise "pyval res"

fun line_value :: "main_line \<Rightarrow> pyval res" where
  "line_value (Status vms) = Inr (VObj [(''map'', VObj (vm_values vms))])"
| "line_value (Noise v) = v"

fun main_line_ok :: "main_line \<Rightarrow> bool" where
  "main_line_ok (Status vms) \<longleftrightarrow> (\<forall>(vm, apps) \<in> set vms. \<forall>(a, d) \<in> set apps. entry_ok d)"
| "main_line_ok (Noise v) \<longleftrightarrow> (\<forall>d. v \<noteq> Inr (VObj d))"

fun line_entries :: "nat \<Rightarrow> main_line list \<Rightarrow> (nat \<times> (string \<times> pyval) list) list" where
  "line_entries i [] = []"
| "line_entries i (Status vms # ls) = indexed i vms @ line_entries (i + length vms) ls"
| "line_entries i (Noise v # ls) = line_entries i ls"

lemma mainlog_noise:
  assumes "main_line_ok (Noise v)"
  shows "mainlog_line target file_id metrics v s = (s, False)"
proof -
  have "\<exists>e. rbind v get_items = Inl e"
  proof (cases v)
    case (Inr x)
    then show ?thesis using assms by (cases x) (auto simp: get_items_def)
  qed simp
  then show ?thesis by (auto simp: mainlog_line_def)
qed

lemma mainlog_status:
  assumes "main_line_ok (Status vms)" and "\<not> enough target s"
  shows "\<exists>i. mainlog_line target file_id metrics (line_value (Status vms)) s =
      ((logged_upto target file_id metrics (indexed (ml_idx s) vms) s)\<lparr>ml_idx := i\<rparr>,
       enough target (logged_upto target file_id metrics (indexed (ml_idx s) vms) s)) \<and>
    (\<not> enough target (logged_upto target file_id metrics (indexed (ml_idx s) vms) s) \<longrightarrow> i = ml_idx s + length vms)"
  using mainlog_vms_ok [of vms target s file_id metrics] assms by (auto simp: mainlog_line_def get_items_def enough_idx)

lemma mainlog_lines_data:
  assumes "\<forall>l \<in> set ls. main_line_ok l" and "\<not> enough target s"
  shows "ml_data (mainlog_lines target file_id metrics (map line_value ls) s) =
    ml_data (logged_upto target file_id metrics (line_entries (ml_idx s) ls) s)"
  using assms
proof (induction ls arbitrary: s)
  case (Cons l ls)
  show ?case
  proof (cases l)
    case (Status vms)
    define s1 where "s1 = logged_upto target file_id metrics (indexed (ml_idx s) vms) s"
    obtain i where i: "mainlog_line target file_id metrics (line_value l) s = (s1\<lparr>ml_idx := i\<rparr>, enough target s1)"
      "\<not> enough target s1 \<longrightarrow> i = ml_idx s + length vms"
      using mainlog_status [of vms target s file_id metrics] Cons.prems Status by (auto simp: s1_def)
    have split: "logged_upto target file_id metrics (line_entries (ml_idx s) (l # ls)) s =
        (if enough target s1 then s1 else logged_upto target file_id metrics (line_entries (ml_idx s + length vms) ls) s1)"
      using logged_upto_append [OF Cons.prems(2), of file_id metrics "indexed (ml_idx s) vms" "line_entries (ml_idx s + length vms) ls"]
      by (simp add: Status s1_def Let_def)
    show ?thesis
    proof (cases "enough target s1")
      case False
      then have "ml_data (mainlog_lines target file_id metrics (map line_value ls) (s1\<lparr>ml_idx := i\<rparr>)) =
          ml_data (logged_upto target file_id metrics (line_entries i ls) s1)"
        using Cons.IH [of "s1\<lparr>ml_idx := i\<rparr>"] Cons.prems(1) by (simp add: enough_idx logged_upto_set_idx)
      then show ?thesis unfolding split using i False by simp
    qed (use i split in simp)
  next
    case (Noise v)
    then show ?thesis using Cons mainlog_noise [of v target file_id metrics s] by simp
  qed
qed (simp add: logged_upto_def)

text \<open>The rows of a log are those of all usable entries, numbered by the VMs before them, up to the first entry at
  which the sum of the access rates reaches the target; lines that are no documents are skipped.\<close>

lemma mainlog_rows:
  assumes "\<forall>l \<in> set ls. main_line_ok l"
  shows "parse_log_file_mainlog target file_id metrics (map line_value ls) =
    map (metric_row_of file_id metrics) (until_target target 0 (line_entries 0 ls))"
  using mainlog_lines_data [OF assms, of target "\<lparr>ml_data = [], ml_total = 0, ml_idx = 0\<rparr>" file_id metrics]
  by (simp add: parse_log_file_mainlog_def logged_upto_def enough_def Let_def)

end
