(* ===== verification/Spec2Isabelle.thy ===== *)
theory Spec2Isabelle
  imports Spirit_Rounds Evaluation Oracle_Alloc Enforcer_Control Usage_Report Raw_Data
begin

text \<open>
  This development verifies the resource allocation controller of the repository, the Python program under
  \<open>src/res_allocation\<close>, and the parts of the enforcers in Rust (\<open>src/global-enforcer\<close>, \<open>src/local-enforcer\<close>) that
  carry out its decisions and report the measurements.  The controller divides the cache (local memory) and the remote memory bandwidth of a
  set of VMs among the applications that run on them, and does so again and again from what it measures.

  \<^bold>\<open>The program\<close>

  \<open>main_memcached.py\<close> reads a configuration file (\<open>utils/config.py\<close>), builds an estimator, a monitor, a
  deployer, a reset server and an allocator, and calls \<open>start\<close> of \<open>allocators/allocator_base.py\<close>.  The loop
  there asks the allocator for an allocation, hands it to the deployer, which posts it to the enforcers, and to
  the monitor, and then lets the monitor collect measurements, which it consumes at the end of the round.  The
  allocators differ in how they use the measurements: the static allocator gives equal shares, the Spirit
  allocator runs a market whose users are served by the search of \<open>ptas_algorithm.py\<close>, the incremental and the
  fij allocator move resources between users, the oracle allocator returns configured amounts.  The Spirit, the
  incremental and the fij allocator ask the estimator for the utility of an allocation, which it computes from
  the miss rate curves and the usage that the monitor keeps.  The reset server removes an application from the
  monitor while the loop runs.  The global enforcer splits a posted allocation among the VMs, the local enforcer
  of a VM sets the limits of its containers and reports their usage, and the global enforcer answers the
  monitor's requests with the reports.  The scripts under \<open>src/local-enforcer/scripts\<close> start the clients and
  collect their logs, \<open>main_move_logs.py\<close> moves the logs of a run to a directory, and \<open>utils/logtools.py\<close>,
  \<open>utils/log_parsers.py\<close> and \<open>draw_perf.py\<close> find and read them afterwards.

  \<^bold>\<open>The model\<close>

  Python's floats are exact rationals and its integers are \<open>int\<close>; \<open>int(x)\<close> truncates, and a division by zero
  is an error.  An exception is a value: a fallible function returns \<open>py_error + 'a\<close>, and every raise, missing
  key and failed assertion of the code is a branch of the model.  A dictionary is an association list in
  insertion order, a \<open>for\<close> loop is \<open>rfold\<close> or, with \<open>break\<close>, \<open>rloop\<close>.  Objects are records that an operation
  returns updated.  Time, the responses of HTTP requests and the contents of files are inputs; shell commands
  are values.  The enforcers run from release builds, so a Rust \<open>u64\<close> is a 64-bit word whose arithmetic wraps.

  \<^item> \<open>Prelude\<close>: errors, loops, numbers, dictionaries.  \<open>Py_String\<close> and \<open>Py_Regex\<close>: \<open>int\<close>, \<open>str\<close>, \<open>float\<close>
    and \<open>re.search\<close> on ASCII strings.
  \<^item> \<open>Ptas\<close>: \<open>ptas_algorithm.py\<close>, and the locale \<open>utility_estimator\<close> for the estimator it calls.
  \<^item> \<open>Estimator\<close>: \<open>estimators/runtime_estimator.py\<close>, which interprets that locale.
  \<^item> \<open>Allocator\<close>: the inputs of a round and successive rounds, and the contracts \<open>vm_allocator\<close> and
    \<open>total_allocator\<close> of an allocator (\<open>allocator_base.py\<close>).
  \<^item> \<open>Static_Alloc\<close>, \<open>Spirit\<close> (with \<open>Spirit_Search\<close>, \<open>Spirit_Rounds\<close>), \<open>Trade\<close> (with \<open>Trade_Rounds\<close>, \<open>Fij\<close>, \<open>Inc\<close>)
    and \<open>Oracle_Alloc\<close>: the allocators.  \<open>Trade\<close> has the methods that the fij and the incremental allocator have
    in common, in the lines of the first; \<open>Trade_Rounds\<close> has the contract \<open>vm_trader\<close> of a trade in one VM and
    derives that of an allocator from it.
  \<^item> \<open>Monitor\<close> (with \<open>Monitor_Inv\<close>, \<open>Monitor_Props\<close>, \<open>Monitor_Data\<close>): \<open>resource_monitor.py\<close>.
  \<^item> \<open>Deployer\<close>: \<open>deployer.py\<close>.  \<open>Reset_Server\<close>: \<open>metrics_reset_server.py\<close>.
  \<^item> \<open>Control_Loop\<close>: \<open>start\<close>, as a function and as the relation \<open>ctl_state\<close> between the states in which a reset
    may come, with the locales \<open>controlled\<close> and \<open>total_controlled\<close>; \<open>Fij_Control\<close> is the fij allocator in it.
  \<^item> \<open>Evaluation\<close>: \<open>utils/config.py\<close> and \<open>main_memcached.py\<close>.
  \<^item> \<open>Enforcer\<close>: \<open>split_global_allocation\<close> and the handler \<open>config\<close> of the global enforcer, and \<open>update_config\<close> of
    \<open>cache_client.rs\<close> with the lowering of limits.  \<open>Usage_Report\<close>: the statistics and reports of \<open>cache_client.rs\<close>
    and the handlers \<open>usage\<close> and \<open>cluster_status\<close>.  \<open>Enforcer_Control\<close>: the control loop with the enforcers.
  \<^item> \<open>Log_Parsers\<close>, \<open>Log_Tools\<close>: \<open>utils/log_parsers.py\<close>, \<open>utils/logtools.py\<close>, and the data behind the plot of
    \<open>draw_perf.py\<close>.  \<open>Experiment_Dirs\<close>: \<open>main_move_logs.py\<close>, \<open>get_latest_subdirectory\<close>, and the part of \<open>strptime\<close>
    that it needs.
  \<^item> \<open>Client_Logs\<close>: the loggers (\<open>utils/logger.py\<close>), the client scripts, the names and repair of client logs,
    and \<open>src/scripts/get_all_container_memuse.py\<close>.  \<open>Raw_Data\<close>: \<open>estimators/data_loader.py\<close>,
    \<open>parse_log_file_mainlog\<close>, and the averages of \<open>utils/plotting.py\<close>.

  \<^bold>\<open>What is shown\<close>

  \<^item> The search: what it returns respects the limits and the budget and is near optimal on its grid; with the
    runtime estimator it always returns.  The estimate is the piecewise linear interpolation of the curve,
    monotone and bounded.
  \<^item> The price search of Spirit: the bisection keeps prices on the simplex and shrinks its interval, the work
    is bounded, and the result clears the VM or is the last allocation.
  \<^item> The allocators: no round raises, and no VM is given more than it has (Spirit: up to the precision of the
    price search), for any sequence of rounds.  A trade helps whom it moves; the incremental allocator serves
    the user that is worst off.
  \<^item> The monitor: an invariant of its tables in every reachable state, by which consuming the buffer cannot
    raise; resets, smoothing and parsing do what they say.
  \<^item> The composition: in every state of the running controller the posted documents are the allocations, and
    they fit; the history of the controller is a run of the abstract sequence of rounds; the loop reaches its
    end; and all of it from the configuration file on.
  \<^item> The boundaries: the posted document, the controller's log and the monitor's log can be read back exactly.
  \<^item> The enforcers: every document that the controller posts is a configuration for them, each application ends
    with exactly the limits that were deployed, limits are lowered gradually to their target, and the monitor
    parses what the local enforcers report.
  \<^item> The logs: the directory of the last run with given limits is found again, the loggers keep each other's
    files, and data sets hold exactly the measurements of their files.

  \<^bold>\<open>Bounds\<close>

  No fuel is used: the loops over grids, users and iterations run over lists whose length the code fixes
  (\<open>max_iteration\<close> plus the four iterations that the last exit takes for the price search, \<open>1 / epsilon\<close>
  points for the grid), and the other recursions have termination proofs.

  \<^bold>\<open>Not modelled\<close>

  \<^item> Rounding of floats: the rational model has none.  What depends on exact equality of floats is stated for
    the exact values.
  \<^item> Logging and printing, timing measurements, CSV dumps, HTTP and JSON as text, and the thread of the reset
    server; a reset is a step between two steps of the loop, except where a property says so.
  \<^item> The drawing in \<open>draw_perf.py\<close> and \<open>utils/plotting.py\<close>, which is calls into plotting libraries, the decoding of
    JSON and Python literals, which gives the values that the model starts from, and the abstract base class
    \<open>estimators/estimator.py\<close>.
  \<^item> Methods of \<open>inc_trade_allocator.py\<close> that repeat those of \<open>fij_trade_allocator.py\<close> word for word; they are
    modelled once, in \<open>Trade\<close>.
  \<^item> In the enforcers: the sampling of memory accesses and the fitting of miss rate curves, the access to docker,
    cgroups and performance counters, whose readings are inputs, and the web servers.
  \<^item> The benchmark client, the trace loader, the kernel driver and the daemon for remote memory, with which the
    controller does not communicate, and the notebook under \<open>src/ae\<close>, which holds shell commands and recorded
    output.
\<close>

end
